(* ===== verification/Kernel_Prelude.thy ===== *)
theory Kernel_Prelude
  imports Main "HOL-Library.Word" "HOL-Library.Monad_Syntax" "HOL-Library.Multiset"
begin

text \<open>
  Shared vocabulary of the development.

  \<^item> machine integers of the kernel sources (\<open>u8\<close>, \<open>u16\<close>, \<open>u32\<close>, \<open>u64\<close>) as words of that width;
    a \<open>usize\<close> that only counts elements of a collection is a \<open>nat\<close>;
  \<^item> panics: the default build (\<open>make build\<close>, the \<open>dev\<close> profile) has overflow checks, so an
    overflowing \<open>+\<close>, \<open>-\<close> or \<open>*\<close>, an index out of range, a failed \<open>assert!\<close> and an
    \<open>unwrap\<close> of nothing stop the kernel. A definition that can do so returns an \<open>option\<close>
    whose \<open>None\<close> is the panic; sequencing is \<open>Option.bind\<close>;
  \<^item> a \<open>Result<T, E>\<close> is a sum, \<open>Inl\<close> the error and \<open>Inr\<close> the value;
  \<^item> the \<open>Vec\<close> and iterator methods that the components use, with their lemmas;
  \<^item> the locale \<open>component\<close>: a state machine with an invariant kept by every operation.
\<close>

unbundle bit_operations_syntax

type_synonym u8 = "8 word"
type_synonym u16 = "16 word"
type_synonym u32 = "32 word"
type_synonym u64 = "64 word"

type_synonym 'a panics = "'a option"

named_theorems panic_simps "unfolding the arithmetic that can panic"
named_theorems inv_intros "invariants kept by the operations of a component"

subsection \<open>Arithmetic with overflow checks\<close>

definition add_c :: "'a::len word \<Rightarrow> 'a word \<Rightarrow> 'a word panics" where
  "add_c a b = (if unat a + unat b < 2 ^ LENGTH('a) then Some (a + b) else None)"

definition sub_c :: "'a::len word \<Rightarrow> 'a word \<Rightarrow> 'a word panics" where
  "sub_c a b = (if b \<le> a then Some (a - b) else None)"

definition mul_c :: "'a::len word \<Rightarrow> 'a word \<Rightarrow> 'a word panics" where
  "mul_c a b = (if unat a * unat b < 2 ^ LENGTH('a) then Some (a * b) else None)"

definition sat_add :: "'a::len word \<Rightarrow> 'a word \<Rightarrow> 'a word" where
  "sat_add a b = (if unat a + unat b < 2 ^ LENGTH('a) then a + b else - 1)"

definition sat_sub :: "'a::len word \<Rightarrow> 'a word \<Rightarrow> 'a word" where
  "sat_sub a b = (if b \<le> a then a - b else 0)"

definition assert_p :: "bool \<Rightarrow> unit panics" where
  "assert_p b = (if b then Some () else None)"

lemma add_c_Some:
  "add_c a b = Some c \<longleftrightarrow> unat a + unat b < 2 ^ LENGTH('a) \<and> c = a + b"
  for a b :: "'a::len word"
  by (auto simp: add_c_def)

lemma add_c_unat:
  "add_c a b = Some c \<Longrightarrow> unat c = unat a + unat b"
  for a b :: "'a::len word"
  by (auto simp: add_c_def unat_word_ariths split: if_splits)

lemma sub_c_Some: "sub_c a b = Some c \<longleftrightarrow> b \<le> a \<and> c = a - b"
  by (auto simp: sub_c_def)

lemma sub_c_unat: "sub_c a b = Some c \<Longrightarrow> unat c = unat a - unat b"
  by (auto simp: sub_c_def unat_sub split: if_splits)

lemma mul_c_unat:
  "mul_c a b = Some c \<Longrightarrow> unat c = unat a * unat b"
  for a b :: "'a::len word"
  by (auto simp: mul_c_def unat_word_ariths split: if_splits)

lemma unat_sat_add:
  "unat (sat_add a b) = min (unat a + unat b) (2 ^ LENGTH('a) - 1)"
  for a b :: "'a::len word"
  by (auto simp: sat_add_def unat_word_ariths unsigned_minus_1_eq_mask mask_eq_exp_minus_1)

lemma unat_sat_sub: "unat (sat_sub a b) = unat a - unat b"
  by (auto simp: sat_sub_def unat_sub word_le_nat_alt)

lemma assert_p_Some [simp]: "assert_p b = Some u \<longleftrightarrow> b"
  by (simp add: assert_p_def)

lemma assert_p_bind: "assert_p b \<bind> f = (if b then f () else None)"
  by (simp add: assert_p_def)

lemmas panic_defs = add_c_def sub_c_def mul_c_def assert_p_bind

declare panic_defs [panic_simps]

lemma unat_of_nat_small: "n < 2 ^ LENGTH('a) \<Longrightarrow> unat (of_nat n :: 'a::len word) = n"
  by (simp add: unat_of_nat take_bit_nat_eq_self)

subsection \<open>Page alignment\<close>

text \<open>\<open>PAGE_SIZE\<close> is \<open>0x1000\<close> in every source file that names it.\<close>

definition PAGE_SIZE :: u64 where
  "PAGE_SIZE = 0x1000"

text \<open>\<open>x & !(PAGE_SIZE - 1)\<close>.\<close>

definition page_down :: "u64 \<Rightarrow> u64" where
  "page_down x = x AND NOT (PAGE_SIZE - 1)"

text \<open>\<open>(x + PAGE_SIZE - 1) & !(PAGE_SIZE - 1)\<close>: the addition is checked.\<close>

definition page_up :: "u64 \<Rightarrow> u64 panics" where
  "page_up x = do { y \<leftarrow> add_c x PAGE_SIZE; z \<leftarrow> sub_c y 1; Some (page_down z) }"

lemma unat_PAGE_SIZE [simp]: "unat PAGE_SIZE = 4096"
  by (simp add: PAGE_SIZE_def)

lemma page_down_eq: "page_down x = push_bit 12 (drop_bit 12 x)"
proof (rule bit_word_eqI)
  fix n assume "n < LENGTH(64)"
  have m: "(0x1000 - 1 :: u64) = mask 12"
    by (simp add: mask_eq_exp_minus_1)
  show "bit (page_down x) n = bit (push_bit 12 (drop_bit 12 x)) n"
    using \<open>n < LENGTH(64)\<close>
    unfolding page_down_def PAGE_SIZE_def m
    by (auto simp: bit_simps)
qed

lemma unat_page_down: "unat (page_down x) = unat x div 4096 * 4096"
proof -
  have "unat (push_bit 12 (drop_bit 12 x)) = (unat x div 4096 * 4096) mod 2 ^ 64"
    by (simp add: push_bit_eq_mult drop_bit_eq_div unat_word_ariths unat_div mod_mult_left_eq)
  also have "\<dots> = unat x div 4096 * 4096"
  proof (rule mod_less)
    have "unat x div 4096 * 4096 \<le> unat x" by simp
    also have "\<dots> < 2 ^ 64" using unsigned_less [of x] by simp
    finally show "unat x div 4096 * 4096 < 2 ^ 64" .
  qed
  finally show ?thesis by (simp add: page_down_eq)
qed

lemma page_up_unat:
  assumes "page_up x = Some y"
  shows "unat y = (unat x + 4095) div 4096 * 4096" and "unat x + 4096 < 2 ^ 64"
proof -
  from assms obtain a b where a: "add_c x PAGE_SIZE = Some a" and b: "sub_c a 1 = Some b"
    and y: "y = page_down b"
    by (auto simp: page_up_def bind_eq_Some_conv)
  have "unat b = unat x + 4095"
    using add_c_unat [OF a] sub_c_unat [OF b] by simp
  then show "unat y = (unat x + 4095) div 4096 * 4096"
    by (simp add: y unat_page_down)
  show "unat x + 4096 < 2 ^ 64"
    using a by (simp add: add_c_Some)
qed

subsection \<open>Vectors and iterators\<close>

text \<open>\<open>iter().position(p)\<close>: index of the first element that satisfies \<open>p\<close>.\<close>

fun position :: "('a \<Rightarrow> bool) \<Rightarrow> 'a list \<Rightarrow> nat option" where
  "position p [] = None"
| "position p (x # xs) = (if p x then Some 0 else map_option Suc (position p xs))"

text \<open>\<open>Vec::remove(i)\<close> for \<open>i\<close> in range: the remaining elements.\<close>

definition remove_at :: "nat \<Rightarrow> 'a list \<Rightarrow> 'a list" where
  "remove_at i xs = take i xs @ drop (Suc i) xs"

text \<open>\<open>Vec::insert(i, x)\<close> for \<open>i \<le> len\<close>.\<close>

definition insert_at :: "nat \<Rightarrow> 'a \<Rightarrow> 'a list \<Rightarrow> 'a list" where
  "insert_at i x xs = take i xs @ x # drop i xs"

text \<open>\<open>buf[off..off + bs.len()].copy_from_slice(bs)\<close>: a range out of bounds panics.\<close>

definition put_slice :: "nat \<Rightarrow> 'a list \<Rightarrow> 'a list \<Rightarrow> 'a list panics" where
  "put_slice off bs buf =
     (if off + length bs \<le> length buf then Some (take off buf @ bs @ drop (off + length bs) buf) else None)"

text \<open>\<open>xs[i]\<close> and \<open>&xs[a..b]\<close>: an index out of range and a range out of bounds panic.\<close>

definition at_p :: "'a list \<Rightarrow> nat \<Rightarrow> 'a panics" where
  "at_p xs i = (if i < length xs then Some (xs ! i) else None)"

definition slice_p :: "'a list \<Rightarrow> nat \<Rightarrow> nat \<Rightarrow> 'a list panics" where
  "slice_p xs a b = (if a \<le> b \<and> b \<le> length xs then Some (take (b - a) (drop a xs)) else None)"

lemma put_slice_length: "put_slice off bs buf = Some buf' \<Longrightarrow> length buf' = length buf"
  by (auto simp: put_slice_def split: if_splits)

lemma position_Some:
  "position p xs = Some i \<longleftrightarrow> i < length xs \<and> p (xs ! i) \<and> (\<forall>j < i. \<not> p (xs ! j))"
proof (induction xs arbitrary: i)
  case (Cons x xs)
  show ?case
    by (cases i) (auto simp: Cons.IH nth_Cons' less_Suc_eq_0_disj)
qed simp

lemma position_None: "position p xs = None \<longleftrightarrow> (\<forall>x \<in> set xs. \<not> p x)"
  by (induction xs) auto

lemma position_ex: "x \<in> set xs \<Longrightarrow> p x \<Longrightarrow> \<exists>i. position p xs = Some i"
  by (cases "position p xs") (auto simp: position_None)

lemma position_lt: "position p xs = Some i \<Longrightarrow> i < length xs"
  by (simp add: position_Some)

lemma position_sat: "position p xs = Some i \<Longrightarrow> p (xs ! i)"
  by (simp add: position_Some)

lemma length_remove_at: "i < length xs \<Longrightarrow> Suc (length (remove_at i xs)) = length xs"
  by (simp add: remove_at_def)

lemma set_remove_at_subset: "set (remove_at i xs) \<subseteq> set xs"
  by (auto simp: remove_at_def dest: in_set_takeD in_set_dropD)

lemma split_at: "i < length xs \<Longrightarrow> xs = take i xs @ xs ! i # drop (Suc i) xs"
  by (rule id_take_nth_drop)

lemma mset_remove_at: "i < length xs \<Longrightarrow> mset (remove_at i xs) = mset xs - {# xs ! i #}"
  by (subst (2) split_at [of i xs]) (simp_all add: remove_at_def)

lemma map_remove_at: "map f (remove_at i xs) = remove_at i (map f xs)"
  by (simp add: remove_at_def take_map drop_map)

lemma distinct_remove_at: "distinct xs \<Longrightarrow> distinct (remove_at i xs)"
  by (auto simp: remove_at_def dest: set_take_disj_set_drop_if_distinct [of xs i "Suc i"])

lemma sorted_wrt_remove_at:
  assumes "sorted_wrt R xs"
  shows "sorted_wrt R (remove_at i xs)"
proof (cases "i < length xs")
  case True
  have "sorted_wrt R (take i xs @ xs ! i # drop (Suc i) xs)"
    using assms id_take_nth_drop [OF True] by simp
  then show ?thesis by (simp add: remove_at_def sorted_wrt_append)
qed (use assms in \<open>simp add: remove_at_def\<close>)

lemma set_remove_at_distinct:
  assumes "distinct xs" and "i < length xs"
  shows "set (remove_at i xs) = set xs - {xs ! i}"
proof -
  have "set xs = set (take i xs) \<union> {xs ! i} \<union> set (drop (Suc i) xs)"
    by (subst split_at [OF assms(2)]) auto
  moreover have "xs ! i \<notin> set (take i xs)" "xs ! i \<notin> set (drop (Suc i) xs)"
    using assms by (subst (asm) split_at [OF assms(2)], simp)+
  ultimately show ?thesis
    by (auto simp: remove_at_def)
qed

lemma sum_list_put:
  fixes xs :: "'a::comm_monoid_add list"
  assumes "i < length xs"
  shows "sum_list (xs[i := x]) + xs ! i = sum_list xs + x"
proof -
  have "sum_list (xs[i := x]) = sum_list (take i xs) + x + sum_list (drop (Suc i) xs)"
    using assms by (simp add: upd_conv_take_nth_drop add.assoc)
  moreover have "sum_list xs = sum_list (take i xs) + xs ! i + sum_list (drop (Suc i) xs)"
    by (subst (1) id_take_nth_drop [OF assms]) (simp add: add.assoc)
  ultimately show ?thesis by (simp add: algebra_simps)
qed

lemma length_insert_at: "length (insert_at i x xs) = Suc (length xs)"
  by (simp add: insert_at_def)

lemma set_insert_at: "set (insert_at i x xs) = insert x (set xs)"
proof -
  have "set xs = set (take i xs) \<union> set (drop i xs)"
    by (metis append_take_drop_id set_append)
  then show ?thesis by (auto simp: insert_at_def)
qed

subsection \<open>Components: state machines with an invariant\<close>

text \<open>
  The interface of a stateful component. \<open>step\<close> is one call (the state after it; a call that
  panics leaves no state and is not a step); \<open>inv\<close> is what the component promises between
  calls. Every component theory interprets this locale on its own operations, so that each
  invariant holds after any sequence of calls.
\<close>

fun run_ops :: "('s \<Rightarrow> 'op \<Rightarrow> 's panics) \<Rightarrow> 's \<Rightarrow> 'op list \<Rightarrow> 's panics" where
  "run_ops step s [] = Some s"
| "run_ops step s (a # as) = step s a \<bind> (\<lambda>t. run_ops step t as)"

lemma run_ops_append: "run_ops step s (as @ bs) = run_ops step s as \<bind> (\<lambda>t. run_ops step t bs)"
  by (induction as arbitrary: s) (auto split: bind_splits)

locale component =
  fixes step :: "'s \<Rightarrow> 'op \<Rightarrow> 's panics"
    and inv :: "'s \<Rightarrow> bool"
  assumes inv_step: "inv s \<Longrightarrow> step s a = Some t \<Longrightarrow> inv t"
begin

lemma inv_run: "inv s \<Longrightarrow> run_ops step s as = Some t \<Longrightarrow> inv t"
  by (induction as arbitrary: s) (auto simp: bind_eq_Some_conv intro: inv_step)

text \<open>A property of a state that every call keeps, under the invariant, holds after any run.\<close>

lemma stable_run:
  assumes "inv s" and "P s" and "run_ops step s as = Some t"
    and stable: "\<And>s a t. inv s \<Longrightarrow> P s \<Longrightarrow> step s a = Some t \<Longrightarrow> P t"
  shows "P t"
  using assms(1-3)
proof (induction as arbitrary: s)
  case (Cons a as)
  from Cons.prems(3) obtain u where u: "step s a = Some u" "run_ops step u as = Some t"
    by (auto simp: bind_eq_Some_conv)
  show ?case
    using Cons.IH [OF inv_step stable] Cons.prems u by blast
qed simp

end

end
