(* ===== verification/BTree_Map.thy ===== *)
theory BTree_Map
  imports Kernel_Prelude
begin

text \<open>
  The standard library's \<open>BTreeMap\<close>, as the kernel uses it: a map that iterates in key order.
  The model is the list of its entries in iteration order; \<open>bt_wf\<close> (keys strictly increasing)
  holds of every map built from the empty one. The locale \<open>table\<close> is the part of the contract
  the components rely on: lookup after an insert, an update and a removal.
\<close>

type_synonym ('k, 'v) btree = "('k \<times> 'v) list"

definition bt_get :: "('k, 'v) btree \<Rightarrow> 'k \<Rightarrow> 'v option" where
  "bt_get m k = map_of m k"

fun bt_insert :: "'k::linorder \<Rightarrow> 'v \<Rightarrow> ('k, 'v) btree \<Rightarrow> ('k, 'v) btree" where
  "bt_insert k v [] = [(k, v)]"
| "bt_insert k v ((k', v') # m) =
     (if k < k' then (k, v) # (k', v') # m
      else if k = k' then (k, v) # m
      else (k', v') # bt_insert k v m)"

definition bt_remove :: "'k \<Rightarrow> ('k, 'v) btree \<Rightarrow> ('k, 'v) btree" where
  "bt_remove k m = filter (\<lambda>e. fst e \<noteq> k) m"

text \<open>\<open>retain\<close>.\<close>

definition bt_retain :: "('k \<Rightarrow> 'v \<Rightarrow> bool) \<Rightarrow> ('k, 'v) btree \<Rightarrow> ('k, 'v) btree" where
  "bt_retain p m = filter (\<lambda>e. p (fst e) (snd e)) m"

text \<open>Assignment through \<open>get_mut\<close>: the value of \<open>k\<close>, if there is one, is replaced.\<close>

definition bt_modify :: "'k \<Rightarrow> ('v \<Rightarrow> 'v) \<Rightarrow> ('k, 'v) btree \<Rightarrow> ('k, 'v) btree" where
  "bt_modify k f m = map (\<lambda>e. if fst e = k then (k, f (snd e)) else e) m"

definition bt_keys :: "('k, 'v) btree \<Rightarrow> 'k list" where
  "bt_keys m = map fst m"

definition bt_values :: "('k, 'v) btree \<Rightarrow> 'v list" where
  "bt_values m = map snd m"

definition bt_wf :: "('k::linorder, 'v) btree \<Rightarrow> bool" where
  "bt_wf m \<longleftrightarrow> sorted_wrt (<) (map fst m)"

subsection \<open>The contract\<close>

locale table =
  fixes get :: "'m \<Rightarrow> 'k \<Rightarrow> 'v option"
    and ins :: "'k \<Rightarrow> 'v \<Rightarrow> 'm \<Rightarrow> 'm"
    and del :: "'k \<Rightarrow> 'm \<Rightarrow> 'm"
    and modi :: "'k \<Rightarrow> ('v \<Rightarrow> 'v) \<Rightarrow> 'm \<Rightarrow> 'm"
    and emp :: 'm
  assumes get_emp: "get emp = (\<lambda>_. None)"
    and get_ins: "get (ins k v m) = (get m)(k := Some v)"
    and get_del: "get (del k m) = (get m)(k := None)"
    and get_modi: "get (modi k f m) = (get m)(k := map_option f (get m k))"
begin

lemma dom_ins: "dom (get (ins k v m)) = insert k (dom (get m))"
  by (simp add: get_ins)

lemma dom_del: "dom (get (del k m)) = dom (get m) - {k}"
  by (simp add: get_del)

lemma dom_modi: "dom (get (modi k f m)) = dom (get m)"
  by (auto simp: get_modi split: if_splits)

lemma del_ins_fresh: "get m k = None \<Longrightarrow> get (del k (ins k v m)) = get m"
  by (auto simp: get_ins get_del)

text \<open>A property of all values survives what keeps it for the touched value.\<close>

lemma all_ins: "\<forall>k v. get m k = Some v \<longrightarrow> P k v \<Longrightarrow> P k v \<Longrightarrow>
  \<forall>k' v'. get (ins k v m) k' = Some v' \<longrightarrow> P k' v'"
  by (auto simp: get_ins)

lemma all_del: "\<forall>k v. get m k = Some v \<longrightarrow> P k v \<Longrightarrow>
  \<forall>k' v'. get (del k m) k' = Some v' \<longrightarrow> P k' v'"
  by (auto simp: get_del)

lemma all_modi: "\<forall>k v. get m k = Some v \<longrightarrow> P k v \<Longrightarrow> (\<And>v. get m k = Some v \<Longrightarrow> P k (f v)) \<Longrightarrow>
  \<forall>k' v'. get (modi k f m) k' = Some v' \<longrightarrow> P k' v'"
  by (auto simp: get_modi)

end

lemma bt_get_Nil [simp]: "bt_get [] = (\<lambda>_. None)"
  by (simp add: bt_get_def fun_eq_iff)

lemma bt_get_insert [simp]: "bt_get (bt_insert k v m) = (bt_get m)(k := Some v)"
  by (induction k v m rule: bt_insert.induct) (auto simp: bt_get_def fun_eq_iff)

lemma bt_get_remove [simp]: "bt_get (bt_remove k m) = (bt_get m)(k := None)"
  by (induction m) (auto simp: bt_get_def bt_remove_def fun_eq_iff)

lemma bt_get_modify [simp]:
  "bt_get (bt_modify k f m) = (bt_get m)(k := map_option f (bt_get m k))"
  by (induction m) (auto simp: bt_get_def bt_modify_def fun_eq_iff)

interpretation bt: table bt_get bt_insert bt_remove bt_modify "[]"
  by unfold_locales auto

subsection \<open>Order\<close>

lemma bt_wf_Nil [simp]: "bt_wf []"
  by (simp add: bt_wf_def)

lemma bt_wf_Cons: "bt_wf (e # m) \<longleftrightarrow> (\<forall>x \<in> set m. fst e < fst x) \<and> bt_wf m"
  by (auto simp: bt_wf_def)

lemma set_bt_insert: "set (bt_insert k v m) \<subseteq> insert (k, v) (set m)"
  by (induction k v m rule: bt_insert.induct) auto

lemma fst_bt_insert: "fst ` set (bt_insert k v m) = insert k (fst ` set m)"
  by (induction k v m rule: bt_insert.induct) auto

lemma bt_wf_insert [simp, intro]: "bt_wf m \<Longrightarrow> bt_wf (bt_insert k v m)"
proof (induction k v m rule: bt_insert.induct)
  case (2 k v k' v' m)
  then show ?case
    using set_bt_insert [of k v m] by (fastforce simp: bt_wf_Cons)
qed (simp add: bt_wf_Cons)

lemma bt_wf_filter [simp, intro]: "bt_wf m \<Longrightarrow> bt_wf (filter p m)"
  by (induction m) (auto simp: bt_wf_Cons)

lemma bt_wf_remove [simp, intro]: "bt_wf m \<Longrightarrow> bt_wf (bt_remove k m)"
  by (simp add: bt_remove_def)

lemma bt_wf_retain [simp, intro]: "bt_wf m \<Longrightarrow> bt_wf (bt_retain p m)"
  by (simp add: bt_retain_def)

lemma bt_keys_modify [simp]: "bt_keys (bt_modify k f m) = bt_keys m"
  by (induction m) (auto simp: bt_keys_def bt_modify_def)

lemma bt_wf_modify [simp, intro]: "bt_wf m \<Longrightarrow> bt_wf (bt_modify k f m)"
  using bt_keys_modify [of k f m] by (simp add: bt_wf_def bt_keys_def)

lemma length_bt_modify [simp]: "length (bt_modify k f m) = length m"
  by (simp add: bt_modify_def)

lemma bt_wf_distinct: "bt_wf m \<Longrightarrow> distinct (map fst m)"
  by (simp add: bt_wf_def strict_sorted_iff)

lemma bt_get_iff: "bt_wf m \<Longrightarrow> bt_get m k = Some v \<longleftrightarrow> (k, v) \<in> set m"
  by (simp add: bt_get_def bt_wf_distinct)

lemma bt_get_retain:
  "bt_wf m \<Longrightarrow> bt_get (bt_retain p m) k =
     (case bt_get m k of None \<Rightarrow> None | Some v \<Rightarrow> if p k v then Some v else None)"
proof (induction m)
  case (Cons e m)
  then have "bt_get (bt_retain p m) k =
     (case bt_get m k of None \<Rightarrow> None | Some v \<Rightarrow> if p k v then Some v else None)"
    by (simp add: bt_wf_Cons)
  moreover have "fst e = k \<Longrightarrow> bt_get m k = None"
    using Cons.prems by (force simp: bt_wf_Cons bt_get_def map_of_eq_None_iff)
  ultimately show ?case
    by (cases e) (auto simp: bt_get_def bt_retain_def split: option.splits)
qed (simp add: bt_retain_def)

lemma length_bt_insert_fresh: "bt_get m k = None \<Longrightarrow> length (bt_insert k v m) = Suc (length m)"
  by (induction k v m rule: bt_insert.induct) (auto simp: bt_get_def split: if_splits)

lemma length_bt_insert_le: "length (bt_insert k v m) \<le> Suc (length m)"
  by (induction k v m rule: bt_insert.induct) auto

lemma length_bt_remove_le: "length (bt_remove k m) \<le> length m"
  by (simp add: bt_remove_def)

lemma bt_values_get: "bt_get m k = Some v \<Longrightarrow> v \<in> set (bt_values m)"
  by (force simp: bt_get_def bt_values_def dest: map_of_SomeD)

subsection \<open>Sums over the values\<close>

definition bt_sum :: "('v \<Rightarrow> 'a::comm_monoid_add) \<Rightarrow> ('k, 'v) btree \<Rightarrow> 'a" where
  "bt_sum g m = sum_list (map (\<lambda>e. g (snd e)) m)"

lemma bt_sum_Nil [simp]: "bt_sum g [] = 0"
  by (simp add: bt_sum_def)

lemma bt_sum_insert: "bt_get m k = None \<Longrightarrow> bt_sum g (bt_insert k v m) = g v + bt_sum g m"
  by (induction k v m rule: bt_insert.induct)
    (auto simp: bt_get_def bt_sum_def ac_simps split: if_splits)

lemma bt_remove_fresh: "k \<notin> fst ` set m \<Longrightarrow> bt_remove k m = m"
  by (force simp: bt_remove_def filter_id_conv)

lemma bt_modify_fresh: "k \<notin> fst ` set m \<Longrightarrow> bt_modify k f m = m"
  by (force simp: bt_modify_def intro: map_idI)

lemma bt_sum_modify:
  assumes "bt_wf m" and "bt_get m k = Some v"
  shows "bt_sum g (bt_modify k f m) = g (f v) + bt_sum g (bt_remove k m)"
  using assms
proof (induction m)
  case (Cons e m)
  show ?case
  proof (cases "fst e = k")
    case True
    then have "k \<notin> fst ` set m" using Cons.prems(1) by (force simp: bt_wf_Cons)
    then have "bt_remove k (e # m) = m" "bt_modify k f (e # m) = (k, f (snd e)) # m"
      using True bt_remove_fresh [of k m] bt_modify_fresh [of k m f]
      by (simp_all add: bt_remove_def bt_modify_def)
    then show ?thesis using True Cons.prems(2) by (simp add: bt_get_def bt_sum_def)
  next
    case False
    then have "bt_remove k (e # m) = e # bt_remove k m" "bt_modify k f (e # m) = e # bt_modify k f m"
      by (simp_all add: bt_remove_def bt_modify_def)
    then show ?thesis
      using Cons False by (cases e) (simp add: bt_wf_Cons bt_sum_def bt_get_def ac_simps)
  qed
qed simp

lemma bt_modify_id: "bt_modify k (\<lambda>v. v) m = m"
  by (auto simp: bt_modify_def intro: map_idI)

lemma bt_sum_remove: "bt_wf m \<Longrightarrow> bt_get m k = Some v \<Longrightarrow> bt_sum g m = g v + bt_sum g (bt_remove k m)"
  using bt_sum_modify [of m k v g "\<lambda>v. v"] by (simp add: bt_modify_id)

lemma bt_remove_modify [simp]: "bt_remove k (bt_modify k f m) = bt_remove k m"
  by (induction m) (auto simp: bt_remove_def bt_modify_def)

lemma bt_sum_same: "(\<And>v. g (f v) = g v) \<Longrightarrow> bt_sum g (bt_modify k f m) = bt_sum g m"
  by (induction m) (auto simp: bt_sum_def bt_modify_def)

end
