(* ===== verification/Handle_Table.thy ===== *)
theory Handle_Table
  imports BTree_Map
begin

text \<open>
  Capabilities: \<open>kernel/src/handle.rs\<close>. A handle packs a slot number (28 bits), rights
  (10 bits) and a generation (26 bits) into a \<open>u64\<close>; the per-task table maps slots to kernel
  objects. An \<open>Arc<Mutex<T>>\<close> is the identity of the shared object, a \<open>nat\<close>, so that cloning an
  \<open>Arc\<close> copies the identity. The lemmas show the packing laws, what lookup returns after each
  operation, and that a closed handle stays dead; the last section shows where the table trusts
  bits of the handle that the caller supplies.
\<close>

subsection \<open>Rights\<close>

datatype rights = Rights (rights_raw: u16)

definition rights_bit :: "nat \<Rightarrow> rights" where
  "rights_bit n = Rights (push_bit n 1)"

definition RIGHTS_ALL :: rights where
  "RIGHTS_ALL = Rights 0x3FF"

definition RIGHTS_NONE :: rights where
  "RIGHTS_NONE = Rights 0"

definition RIGHTS_READ :: rights where
  "RIGHTS_READ = rights_bit 0"

definition RIGHTS_WRITE :: rights where
  "RIGHTS_WRITE = rights_bit 1"

definition RIGHTS_EXECUTE :: rights where
  "RIGHTS_EXECUTE = rights_bit 2"

definition RIGHTS_TRANSFER :: rights where
  "RIGHTS_TRANSFER = rights_bit 3"

definition RIGHTS_DUPLICATE :: rights where
  "RIGHTS_DUPLICATE = rights_bit 4"

definition RIGHTS_SIGNAL :: rights where
  "RIGHTS_SIGNAL = rights_bit 5"

definition RIGHTS_WAIT :: rights where
  "RIGHTS_WAIT = rights_bit 6"

definition RIGHTS_DESTROY :: rights where
  "RIGHTS_DESTROY = rights_bit 7"

definition RIGHTS_MAP :: rights where
  "RIGHTS_MAP = rights_bit 8"

definition RIGHTS_CONFIGURE :: rights where
  "RIGHTS_CONFIGURE = rights_bit 9"

definition RIGHTS_IO :: rights where
  "RIGHTS_IO = Rights (rights_raw RIGHTS_READ OR rights_raw RIGHTS_WRITE)"

definition RIGHTS_BASIC :: rights where
  "RIGHTS_BASIC = Rights (rights_raw RIGHTS_TRANSFER OR rights_raw RIGHTS_DUPLICATE
     OR rights_raw RIGHTS_WAIT OR rights_raw RIGHTS_DESTROY)"

definition rights_from_raw :: "u16 \<Rightarrow> rights" where
  "rights_from_raw r = Rights (r AND 0x3FF)"

definition rights_contains :: "rights \<Rightarrow> rights \<Rightarrow> bool" where
  "rights_contains self other \<longleftrightarrow> (rights_raw self AND rights_raw other) = rights_raw other"

definition rights_intersect :: "rights \<Rightarrow> rights \<Rightarrow> rights" where
  "rights_intersect self other = Rights (rights_raw self AND rights_raw other)"

subsection \<open>Handles\<close>

datatype handle = Handle (as_u64: u64)

definition handle_new :: "u32 \<Rightarrow> rights \<Rightarrow> u32 \<Rightarrow> handle" where
  "handle_new slot r gen = Handle
     ((ucast slot AND 0x0FFFFFFF)
      OR push_bit 28 (ucast (rights_raw r) AND 0x3FF)
      OR push_bit 38 (ucast gen AND 0x03FFFFFF))"

definition handle_from_raw :: "u64 \<Rightarrow> handle" where
  "handle_from_raw raw = Handle raw"

definition slot_id :: "handle \<Rightarrow> u32" where
  "slot_id h = ucast (as_u64 h AND 0x0FFFFFFF)"

definition handle_rights :: "handle \<Rightarrow> rights" where
  "handle_rights h = rights_from_raw (ucast (drop_bit 28 (as_u64 h) AND 0x3FF))"

definition generation :: "handle \<Rightarrow> u32" where
  "generation h = ucast (drop_bit 38 (as_u64 h) AND 0x03FFFFFF)"

definition with_rights :: "handle \<Rightarrow> rights \<Rightarrow> handle" where
  "with_rights h r = handle_new (slot_id h) (rights_intersect (handle_rights h) r) (generation h)"

subsection \<open>Kernel objects\<close>

type_synonym arc = nat

datatype kernel_object =
    ChannelEndA arc
  | ChannelEndB arc
  | EventObj arc
  | IrqEventObj arc
  | FileObj arc
  | PipeReaderObj arc
  | PipeWriterObj arc

record file_handle =
  fh_name :: string
  fh_offset :: u64
  fh_flags :: u32

definition file_handle_new :: "string \<Rightarrow> u32 \<Rightarrow> file_handle" where
  "file_handle_new name flags = \<lparr>fh_name = name, fh_offset = 0, fh_flags = flags\<rparr>"

record event =
  ev_signaled :: bool

definition event_new :: event where
  "event_new = \<lparr>ev_signaled = False\<rparr>"

definition event_signal :: "event \<Rightarrow> event" where
  "event_signal e = e\<lparr>ev_signaled := True\<rparr>"

definition event_is_signaled :: "event \<Rightarrow> bool" where
  "event_is_signaled e = ev_signaled e"

definition event_clear :: "event \<Rightarrow> event" where
  "event_clear e = e\<lparr>ev_signaled := False\<rparr>"

record irq_event =
  irq_num :: u8
  irq_signaled :: bool
  irq_last_data :: u8

definition irq_event_new :: "u8 \<Rightarrow> irq_event" where
  "irq_event_new irq = \<lparr>irq_num = irq, irq_signaled = False, irq_last_data = 0\<rparr>"

definition irq_event_signal :: "irq_event \<Rightarrow> irq_event" where
  "irq_event_signal e = e\<lparr>irq_signaled := True\<rparr>"

definition irq_event_signal_with_data :: "irq_event \<Rightarrow> u8 \<Rightarrow> irq_event" where
  "irq_event_signal_with_data e d = e\<lparr>irq_last_data := d, irq_signaled := True\<rparr>"

definition irq_event_is_signaled :: "irq_event \<Rightarrow> bool" where
  "irq_event_is_signaled e = irq_signaled e"

definition irq_event_clear :: "irq_event \<Rightarrow> irq_event" where
  "irq_event_clear e = e\<lparr>irq_signaled := False\<rparr>"

subsection \<open>The handle table\<close>

record handle_entry =
  he_handle :: handle
  he_object :: kernel_object

record handle_table =
  slots :: "(u32, handle_entry) btree"
  next_slot :: u32
  ht_generation :: u32

definition handle_table_new :: handle_table where
  "handle_table_new = \<lparr>slots = [], next_slot = 0, ht_generation = 0\<rparr>"

definition ht_insert :: "handle_table \<Rightarrow> kernel_object \<Rightarrow> rights \<Rightarrow> (handle \<times> handle_table) panics" where
  "ht_insert t obj r = do {
     let slot = next_slot t;
     next \<leftarrow> add_c (next_slot t) 1;
     let gen = ht_generation t AND 0x03FFFFFF;
     let h = handle_new slot r gen;
     Some (h, t\<lparr>slots := bt_insert slot \<lparr>he_handle = h, he_object = obj\<rparr> (slots t),
                next_slot := next, ht_generation := ht_generation t + 1\<rparr>)
   }"

definition ht_get :: "handle_table \<Rightarrow> handle \<Rightarrow> kernel_object option" where
  "ht_get t h = (case bt_get (slots t) (slot_id h) of
     None \<Rightarrow> None
   | Some entry \<Rightarrow>
       if generation (he_handle entry) = generation h then Some (he_object entry) else None)"

definition ht_close :: "handle_table \<Rightarrow> handle \<Rightarrow> bool \<times> handle_table" where
  "ht_close t h =
     (let gen = generation h in
      case bt_get (slots t) (slot_id h) of
        Some entry \<Rightarrow>
          if generation (he_handle entry) = gen
          then (True, t\<lparr>slots := bt_remove (slot_id h) (slots t)\<rparr>)
          else (False, t)
      | None \<Rightarrow> (False, t))"

definition ht_close_all :: "handle_table \<Rightarrow> handle_table" where
  "ht_close_all t = t\<lparr>slots := []\<rparr>"

text \<open>Each arm of the \<open>match\<close> in \<open>duplicate\<close> clones the \<open>Arc\<close>: the same object under the same
  constructor.\<close>

fun clone_object :: "kernel_object \<Rightarrow> kernel_object" where
  "clone_object (ChannelEndA ch) = ChannelEndA ch"
| "clone_object (ChannelEndB ch) = ChannelEndB ch"
| "clone_object (EventObj ev) = EventObj ev"
| "clone_object (IrqEventObj ev) = IrqEventObj ev"
| "clone_object (FileObj fh) = FileObj fh"
| "clone_object (PipeReaderObj pr) = PipeReaderObj pr"
| "clone_object (PipeWriterObj pw) = PipeWriterObj pw"

definition ht_duplicate ::
  "handle_table \<Rightarrow> handle \<Rightarrow> rights \<Rightarrow> (handle option \<times> handle_table) panics" where
  "ht_duplicate t h new_rights =
     (if \<not> rights_contains (handle_rights h) RIGHTS_DUPLICATE then Some (None, t)
      else case bt_get (slots t) (slot_id h) of
        None \<Rightarrow> Some (None, t)
      | Some entry \<Rightarrow>
          if generation (he_handle entry) \<noteq> generation h then Some (None, t)
          else do {
            let obj = clone_object (he_object entry);
            let slot = next_slot t;
            next \<leftarrow> add_c (next_slot t) 1;
            let gen = ht_generation t AND 0x03FFFFFF;
            let h' = handle_new slot (rights_intersect (handle_rights h) new_rights) gen;
            Some (Some h',
              t\<lparr>slots := bt_insert slot \<lparr>he_handle = h', he_object = obj\<rparr> (slots t),
                next_slot := next, ht_generation := ht_generation t + 1\<rparr>)
          })"

text \<open>The calls a task makes on its table.\<close>

datatype handle_op =
    HInsert kernel_object rights
  | HClose handle
  | HCloseAll
  | HDuplicate handle rights

fun ht_step :: "handle_table \<Rightarrow> handle_op \<Rightarrow> handle_table panics" where
  "ht_step t (HInsert obj r) = map_option snd (ht_insert t obj r)"
| "ht_step t (HClose h) = Some (snd (ht_close t h))"
| "ht_step t HCloseAll = Some (ht_close_all t)"
| "ht_step t (HDuplicate h r) = map_option snd (ht_duplicate t h r)"

text \<open>Well-formedness: every entry sits below \<open>next_slot\<close> and holds a handle made for its slot.\<close>

definition ht_inv :: "handle_table \<Rightarrow> bool" where
  "ht_inv t \<longleftrightarrow> bt_wf (slots t) \<and>
     (\<forall>s e. bt_get (slots t) s = Some e \<longrightarrow>
        s < next_slot t \<and> (\<exists>r g. he_handle e = handle_new s r g))"

subsection \<open>Packing and unpacking\<close>

lemma mask28: "(0x0FFFFFFF :: u64) = mask 28"
  and mask10: "(0x3FF :: u64) = mask 10"
  and mask10h: "(0x3FF :: u16) = mask 10"
  and mask26: "(0x03FFFFFF :: u64) = mask 26"
  and mask28w: "(0x0FFFFFFF :: u32) = mask 28"
  and mask26w: "(0x03FFFFFF :: u32) = mask 26"
  by (simp_all add: mask_eq_exp_minus_1)

lemmas handle_masks = mask28 mask10 mask10h mask26 mask28w mask26w

lemma slot_id_new: "slot_id (handle_new s r g) = s AND 0x0FFFFFFF"
  by (rule bit_word_eqI)
    (auto simp: slot_id_def handle_new_def handle_masks bit_simps)

lemma generation_new: "generation (handle_new s r g) = g AND 0x03FFFFFF"
  by (rule bit_word_eqI)
    (auto simp: generation_def handle_new_def handle_masks bit_simps)

lemma rights_new: "handle_rights (handle_new s r g) = rights_from_raw (rights_raw r)"
  unfolding handle_rights_def rights_from_raw_def rights.inject
  by (rule bit_word_eqI) (auto simp: handle_new_def handle_masks bit_simps)

lemma slot_id_lt: "slot_id h \<le> 0x0FFFFFFF"
proof -
  have "slot_id h = slot_id h AND 0x0FFFFFFF"
    by (rule bit_word_eqI) (auto simp: slot_id_def handle_masks bit_simps)
  then show ?thesis
    by (metis word_and_le1)
qed

lemma and_mask28_small: "s < 0x10000000 \<Longrightarrow> s AND 0x0FFFFFFF = s" for s :: u32
  unfolding handle_masks by (rule less_mask_eq) simp

lemma handle_repack: "handle_new (slot_id h) (handle_rights h) (generation h) = h"
proof -
  have "as_u64 (handle_new (slot_id h) (handle_rights h) (generation h)) = as_u64 h"
  proof (rule bit_word_eqI)
    fix n assume "n < LENGTH(64)"
    consider "n < 28" | "28 \<le> n" "n < 38" | k where "n = 38 + k"
      by (metis le_add_diff_inverse linorder_not_less)
    then show "bit (as_u64 (handle_new (slot_id h) (handle_rights h) (generation h))) n
        = bit (as_u64 h) n"
      using \<open>n < LENGTH(64)\<close>
      by cases (auto simp: slot_id_def handle_rights_def rights_from_raw_def generation_def
          handle_new_def handle_masks bit_simps)
  qed
  then show ?thesis by (cases h) (simp add: handle_new_def)
qed

lemma rights_contains_intersect:
  "rights_contains a (rights_intersect a b)" "rights_contains b (rights_intersect a b)"
  by (auto simp: rights_contains_def rights_intersect_def and.assoc and.left_commute and.commute)

lemma rights_raw_bound: "rights_from_raw (rights_raw (rights_intersect (handle_rights h) r))
    = rights_intersect (handle_rights h) r"
  unfolding rights_from_raw_def rights_intersect_def handle_rights_def rights.inject
  by (simp add: and.assoc and.left_commute and.commute)

subsection \<open>The invariant\<close>

lemma ht_inv_new: "ht_inv handle_table_new"
  by (simp add: ht_inv_def handle_table_new_def)

lemma add_c_one_less: "add_c a 1 = Some b \<Longrightarrow> x < a \<or> x = a \<Longrightarrow> x < b" for a b :: u32
  by (auto simp: word_less_nat_alt dest: add_c_unat)

text \<open>Both \<open>insert\<close> and \<open>duplicate\<close> end with the same four updates.\<close>

definition ht_put :: "handle_table \<Rightarrow> kernel_object \<Rightarrow> rights \<Rightarrow> u32 \<Rightarrow> handle_table" where
  "ht_put t obj r next =
     t\<lparr>slots := bt_insert (next_slot t)
          \<lparr>he_handle = handle_new (next_slot t) r (ht_generation t AND 0x03FFFFFF),
           he_object = obj\<rparr> (slots t),
       next_slot := next, ht_generation := ht_generation t + 1\<rparr>"

lemma ht_insert_put:
  "ht_insert t obj r = map_option
     (\<lambda>next. (handle_new (next_slot t) r (ht_generation t AND 0x03FFFFFF), ht_put t obj r next))
     (add_c (next_slot t) 1)"
  by (cases "add_c (next_slot t) 1") (simp_all add: ht_insert_def ht_put_def Let_def)

lemma clone_object_id [simp]: "clone_object obj = obj"
  by (cases obj) simp_all

lemma ht_duplicate_put:
  "ht_duplicate t h r =
     (if rights_contains (handle_rights h) RIGHTS_DUPLICATE then
        case ht_get t h of
          None \<Rightarrow> Some (None, t)
        | Some obj \<Rightarrow> map_option
            (\<lambda>next. (Some (handle_new (next_slot t) (rights_intersect (handle_rights h) r)
                             (ht_generation t AND 0x03FFFFFF)),
                     ht_put t obj (rights_intersect (handle_rights h) r) next))
            (add_c (next_slot t) 1)
      else Some (None, t))"
  by (cases "add_c (next_slot t) 1")
    (simp_all add: ht_duplicate_def ht_get_def ht_put_def Let_def split: option.splits)

lemma ht_inv_put: "ht_inv t \<Longrightarrow> add_c (next_slot t) 1 = Some next \<Longrightarrow> ht_inv (ht_put t obj r next)"
  by (auto simp: ht_inv_def ht_put_def intro: add_c_one_less)

lemma ht_close_slots:
  "slots (snd (ht_close t h)) =
     (if ht_get t h = None then slots t else bt_remove (slot_id h) (slots t))"
  "next_slot (snd (ht_close t h)) = next_slot t"
  "fst (ht_close t h) \<longleftrightarrow> ht_get t h \<noteq> None"
  by (auto simp: ht_close_def ht_get_def split: option.splits)

lemma ht_inv_close: "ht_inv t \<Longrightarrow> ht_inv (snd (ht_close t h))"
  by (auto simp: ht_inv_def ht_close_slots)

lemma ht_inv_close_all: "ht_inv (ht_close_all t)"
  by (simp add: ht_inv_def ht_close_all_def)

lemma ht_inv_step: "ht_inv t \<Longrightarrow> ht_step t a = Some t' \<Longrightarrow> ht_inv t'"
  by (cases a)
    (auto simp: ht_insert_put ht_duplicate_put ht_inv_close ht_inv_close_all
      intro: ht_inv_put split: option.splits if_splits)

interpretation ht: component ht_step ht_inv
  by unfold_locales (rule ht_inv_step)

subsection \<open>Lookup after each operation\<close>

lemma ht_get_put_new:
  assumes "unat (next_slot t) < 2 ^ 28"
  shows "ht_get (ht_put t obj r next)
           (handle_new (next_slot t) r (ht_generation t AND 0x03FFFFFF)) = Some obj"
proof -
  have "next_slot t AND 0x0FFFFFFF = next_slot t"
    using assms by (intro and_mask28_small) (simp add: word_less_nat_alt)
  then show ?thesis
    by (simp add: ht_get_def ht_put_def slot_id_new)
qed

lemma ht_get_put_other:
  "slot_id h \<noteq> next_slot t \<Longrightarrow> ht_get (ht_put t obj r next) h = ht_get t h"
  by (simp add: ht_get_def ht_put_def)

lemma ht_get_live: "ht_inv t \<Longrightarrow> ht_get t h = Some obj \<Longrightarrow> slot_id h < next_slot t"
  by (auto simp: ht_inv_def ht_get_def split: option.splits if_splits)

lemma add_c_one_ok: "unat a < 2 ^ 28 \<Longrightarrow> add_c a 1 = Some (a + 1)" for a :: u32
  by (simp add: add_c_def)

text \<open>A slot below \<open>next_slot\<close> with no entry stays empty: slots are never reused.\<close>

definition slot_dead :: "u32 \<Rightarrow> handle_table \<Rightarrow> bool" where
  "slot_dead s t \<longleftrightarrow> s < next_slot t \<and> bt_get (slots t) s = None"

lemma slot_dead_step: "slot_dead s t \<Longrightarrow> ht_step t a = Some t' \<Longrightarrow> slot_dead s t'"
  by (cases a)
    (auto simp: slot_dead_def ht_insert_put ht_duplicate_put ht_put_def ht_close_slots
      ht_close_all_def intro: add_c_one_less split: option.splits if_splits)

lemma slot_dead_get: "slot_dead (slot_id h) t \<Longrightarrow> ht_get t h = None"
  by (simp add: slot_dead_def ht_get_def)

lemma ht_close_dead:
  "ht_inv t \<Longrightarrow> ht_close t h = (True, t') \<Longrightarrow> slot_dead (slot_id h) t'"
  using ht_close_slots [of t h] ht_get_live [of t h] by (auto simp: slot_dead_def)

subsection \<open>Properties\<close>

text \<open>packing a slot, rights and a generation into a handle and reading them back gives the
  values cut to 28, 10 and 26 bits, and every 64-bit handle value is the packing of its three
  fields, so no bit of a handle is lost or shared.\<close>

theorem handle_pack_unpack:
  "slot_id (handle_new s r g) = s AND 0x0FFFFFFF \<and>
   handle_rights (handle_new s r g) = rights_from_raw (rights_raw r) \<and>
   generation (handle_new s r g) = g AND 0x03FFFFFF \<and>
   handle_new (slot_id h) (handle_rights h) (generation h) = h"
  by (simp add: slot_id_new rights_new generation_new handle_repack)

text \<open>C25: while fewer than \<open>2 ^ 28\<close> slots have been handed out, \<open>insert\<close> does not panic, the handle
  it returns looks up the object it was given with the rights it was given, and no handle to
  another slot changes its meaning.\<close>

theorem ht_insert_get:
  assumes "unat (next_slot t) < 2 ^ 28"
  shows "\<exists>h t'. ht_insert t obj r = Some (h, t') \<and> ht_get t' h = Some obj \<and>
           handle_rights h = rights_from_raw (rights_raw r) \<and>
           (\<forall>h'. slot_id h' \<noteq> slot_id h \<longrightarrow> ht_get t' h' = ht_get t h')"
proof -
  have "slot_id (handle_new (next_slot t) r (ht_generation t AND 0x03FFFFFF)) = next_slot t"
    using assms by (simp add: slot_id_new and_mask28_small word_less_nat_alt)
  then show ?thesis
    using ht_get_put_new [OF assms]
    by (auto simp: ht_insert_put add_c_one_ok [OF assms] rights_new ht_get_put_other)
qed

theorem ht_insert_get_witness:
  "\<exists>h t'. ht_insert handle_table_new (EventObj 7) RIGHTS_READ = Some (h, t') \<and>
     ht_get t' h = Some (EventObj 7) \<and>
     handle_rights h = rights_from_raw (rights_raw RIGHTS_READ) \<and>
     (\<forall>h'. slot_id h' \<noteq> slot_id h \<longrightarrow> ht_get t' h' = ht_get handle_table_new h')"
  by (rule ht_insert_get) (simp add: handle_table_new_def)

text \<open>C3: use after close. Once \<open>close\<close> has accepted a handle of a well-formed table, no later
  sequence of inserts, duplicates and closes makes that handle valid again, however long it is.\<close>

theorem closed_handle_stays_dead:
  assumes "ht_inv t" and "ht_close t h = (True, t')" and "run_ops ht_step t' ops = Some t''"
  shows "ht_get t'' h = None"
proof -
  have "ht_inv t'"
    using ht_inv_close [OF assms(1), of h] assms(2) by simp
  moreover have "slot_dead (slot_id h) t'"
    using assms(1,2) by (rule ht_close_dead)
  ultimately have "slot_dead (slot_id h) t''"
    by (rule ht.stable_run [OF _ _ assms(3)]) (rule slot_dead_step)
  then show ?thesis by (rule slot_dead_get)
qed

theorem closed_handle_stays_dead_witness:
  "ht_get (\<lparr>slots = [(1, \<lparr>he_handle = handle_new 1 RIGHTS_IO 1, he_object = EventObj 6\<rparr>)],
            next_slot = 2, ht_generation = 2\<rparr>) (handle_new 0 RIGHTS_ALL 0) = None"
proof (rule closed_handle_stays_dead)
  let ?t = "\<lparr>slots = [(0, \<lparr>he_handle = handle_new 0 RIGHTS_ALL 0, he_object = EventObj 5\<rparr>)],
            next_slot = 1, ht_generation = 1\<rparr>"
  show "ht_inv ?t"
    by (auto simp: ht_inv_def bt_wf_def bt_get_def)
  show "ht_close ?t (handle_new 0 RIGHTS_ALL 0) = (True, ?t\<lparr>slots := []\<rparr>)"
    by (simp add: ht_close_def slot_id_new bt_get_def bt_remove_def)
  show "run_ops ht_step (?t\<lparr>slots := []\<rparr>) [HInsert (EventObj 6) RIGHTS_IO] =
    Some \<lparr>slots = [(1, \<lparr>he_handle = handle_new 1 RIGHTS_IO 1, he_object = EventObj 6\<rparr>)],
            next_slot = 2, ht_generation = 2\<rparr>"
    by (simp add: ht_insert_def add_c_def Let_def)
qed

text \<open>\<open>duplicate\<close> on every branch. Without the DUPLICATE right in the handle value, or when the
  handle does not look up, the table is unchanged and there is no new handle; otherwise the new
  handle refers to the same object, its rights are contained both in those of the handle value
  given and in the rights asked for, and the old handle still works.\<close>

theorem ht_duplicate_spec:
  assumes "ht_inv t" and "unat (next_slot t) < 2 ^ 28"
  shows "if rights_contains (handle_rights h) RIGHTS_DUPLICATE \<and> ht_get t h \<noteq> None
         then \<exists>h' t'. ht_duplicate t h r = Some (Some h', t') \<and>
                ht_get t' h' = ht_get t h \<and> ht_get t' h = ht_get t h \<and> h' \<noteq> h \<and>
                rights_contains (handle_rights h) (handle_rights h') \<and>
                rights_contains r (handle_rights h')
         else ht_duplicate t h r = Some (None, t)"
proof (cases "rights_contains (handle_rights h) RIGHTS_DUPLICATE \<and> ht_get t h \<noteq> None")
  case True
  then obtain obj where obj: "ht_get t h = Some obj" by auto
  let ?r = "rights_intersect (handle_rights h) r"
  let ?h = "handle_new (next_slot t) ?r (ht_generation t AND 0x03FFFFFF)"
  have "slot_id h < next_slot t"
    using assms(1) obj by (rule ht_get_live)
  moreover have "slot_id ?h = next_slot t"
    using assms(2) by (simp add: slot_id_new and_mask28_small word_less_nat_alt)
  moreover have "handle_rights ?h = ?r"
    by (simp add: rights_new rights_raw_bound)
  ultimately show ?thesis
    using True obj ht_get_put_new [OF assms(2), of obj ?r "next_slot t + 1"]
    by (auto simp: ht_duplicate_put add_c_one_ok [OF assms(2)] ht_get_put_other
        rights_contains_intersect)
next
  case False
  then show ?thesis
    by (auto simp: ht_duplicate_put)
qed

theorem ht_duplicate_spec_witness:
  "let t = \<lparr>slots = [(0, \<lparr>he_handle = handle_new 0 RIGHTS_ALL 0, he_object = EventObj 5\<rparr>)],
            next_slot = 1, ht_generation = 1\<rparr>; h = handle_new 0 RIGHTS_ALL 0 in
   \<exists>h' t'. ht_duplicate t h RIGHTS_READ = Some (Some h', t') \<and>
     ht_get t' h' = Some (EventObj 5) \<and> rights_contains RIGHTS_READ (handle_rights h')"
proof -
  let ?t = "\<lparr>slots = [(0, \<lparr>he_handle = handle_new 0 RIGHTS_ALL 0, he_object = EventObj 5\<rparr>)],
            next_slot = 1, ht_generation = 1\<rparr>"
  let ?h = "handle_new 0 RIGHTS_ALL 0"
  have inv: "ht_inv ?t"
    by (auto simp: ht_inv_def bt_wf_def bt_get_def)
  have get: "ht_get ?t ?h = Some (EventObj 5)"
    by (simp add: ht_get_def slot_id_new bt_get_def)
  have "rights_contains (handle_rights ?h) RIGHTS_DUPLICATE"
    by (simp add: rights_new rights_contains_def RIGHTS_DUPLICATE_def rights_bit_def RIGHTS_ALL_def
        rights_from_raw_def)
  then show ?thesis
    using ht_duplicate_spec [OF inv, of ?h RIGHTS_READ] get by (auto simp: Let_def)
qed

text \<open>C36: rights can be amplified. The table stores the rights it granted with each entry, but
  neither \<open>get\<close> nor \<open>duplicate\<close> compares them with the handle value of the caller: from any live
  handle, setting the rights field to all ones gives a value that \<open>duplicate\<close> accepts and turns
  into a handle of the table with all rights.\<close>

theorem duplicate_amplifies_rights:
  assumes "ht_get t h = Some obj" and "unat (next_slot t) < 2 ^ 28"
  shows "\<exists>h' t'. ht_duplicate t (handle_new (slot_id h) RIGHTS_ALL (generation h)) RIGHTS_ALL
             = Some (Some h', t') \<and>
           ht_get t' h' = Some obj \<and> handle_rights h' = RIGHTS_ALL"
proof -
  let ?f = "handle_new (slot_id h) RIGHTS_ALL (generation h)"
  have fld: "slot_id ?f = slot_id h" "generation ?f = generation h"
    using arg_cong [OF handle_repack [of h], of slot_id]
      arg_cong [OF handle_repack [of h], of generation]
    by (simp_all add: slot_id_new generation_new)
  have r: "handle_rights ?f = RIGHTS_ALL"
    by (simp add: rights_new rights_from_raw_def RIGHTS_ALL_def)
  have get: "ht_get t ?f = Some obj"
    using assms(1) unfolding ht_get_def fld .
  show ?thesis
    using ht_get_put_new [OF assms(2), of obj RIGHTS_ALL "next_slot t + 1"] get
    by (auto simp: ht_duplicate_put r add_c_one_ok [OF assms(2)] rights_new RIGHTS_DUPLICATE_def
        rights_contains_def rights_intersect_def rights_bit_def RIGHTS_ALL_def rights_from_raw_def)
qed

theorem duplicate_amplifies_rights_witness:
  "let t = \<lparr>slots = [(0, \<lparr>he_handle = handle_new 0 RIGHTS_READ 0, he_object = FileObj 5\<rparr>)],
            next_slot = 1, ht_generation = 1\<rparr>; h = handle_new 0 RIGHTS_READ 0 in
   \<not> rights_contains (handle_rights h) RIGHTS_WRITE \<and>
   (\<exists>h' t'. ht_duplicate t (handle_new (slot_id h) RIGHTS_ALL (generation h)) RIGHTS_ALL
       = Some (Some h', t') \<and> ht_get t' h' = Some (FileObj 5) \<and> handle_rights h' = RIGHTS_ALL)"
proof -
  let ?t = "\<lparr>slots = [(0, \<lparr>he_handle = handle_new 0 RIGHTS_READ 0, he_object = FileObj 5\<rparr>)],
            next_slot = 1, ht_generation = 1\<rparr>"
  let ?h = "handle_new 0 RIGHTS_READ 0"
  have get: "ht_get ?t ?h = Some (FileObj 5)"
    by (simp add: ht_get_def slot_id_new bt_get_def)
  have "\<not> rights_contains (handle_rights ?h) RIGHTS_WRITE"
    by (simp add: rights_new rights_contains_def RIGHTS_WRITE_def rights_bit_def RIGHTS_READ_def
        rights_from_raw_def)
  then show ?thesis
    using duplicate_amplifies_rights [OF get] by (simp add: Let_def)
qed

lemma run_inserts:
  assumes "n < 2 ^ 32"
  shows "\<exists>t. run_ops ht_step handle_table_new (map (\<lambda>i. HInsert (f i) r) [0..<n]) = Some t \<and>
     next_slot t = of_nat n \<and> ht_generation t = of_nat n \<and>
     (\<forall>i < n. bt_get (slots t) (of_nat i) = Some
        \<lparr>he_handle = handle_new (of_nat i) r (of_nat i AND 0x03FFFFFF), he_object = f i\<rparr>)"
  using assms
proof (induction n)
  case 0
  then show ?case by (simp add: handle_table_new_def)
next
  case (Suc n)
  then have n: "n < 2 ^ 32" by simp
  obtain t where t: "run_ops ht_step handle_table_new (map (\<lambda>i. HInsert (f i) r) [0..<n]) = Some t"
    "next_slot t = of_nat n" "ht_generation t = of_nat n"
    "\<And>i. i < n \<Longrightarrow> bt_get (slots t) (of_nat i) = Some
        \<lparr>he_handle = handle_new (of_nat i) r (of_nat i AND 0x03FFFFFF), he_object = f i\<rparr>"
    using Suc.IH [OF n] by blast
  have u: "i \<le> n \<Longrightarrow> unat (of_nat i :: u32) = i" for i
    using n by (intro unat_of_nat_small) simp
  have add: "add_c (of_nat n) 1 = Some (of_nat (Suc n) :: u32)"
    using Suc.prems by (simp add: add_c_def u)
  have ne: "i < n \<Longrightarrow> (of_nat i :: u32) \<noteq> of_nat n" for i
    using u [of i] u [of n] by auto
  show ?case
    using t add ne by (auto simp: run_ops_append ht_insert_put ht_put_def less_Suc_eq)
qed

lemma alias_after:
  assumes "n = (2 :: nat) ^ 28"
  shows "\<exists>t h t'. run_ops ht_step handle_table_new (map (\<lambda>i. HInsert (f i) r) [0..<n]) = Some t \<and>
     ht_insert t obj r = Some (h, t') \<and> ht_get t' h = Some (f 0)"
proof -
  have n: "n < 2 ^ 32" "0 < n" using assms by simp_all
  obtain t where t: "run_ops ht_step handle_table_new (map (\<lambda>i. HInsert (f i) r) [0..<n]) = Some t"
    "next_slot t = of_nat n" "ht_generation t = of_nat n"
    "\<forall>i < n. bt_get (slots t) (of_nat i) = Some
        \<lparr>he_handle = handle_new (of_nat i) r (of_nat i AND 0x03FFFFFF), he_object = f i\<rparr>"
    using run_inserts [OF n(1), of f r] by blast
  have first: "bt_get (slots t) 0 = Some \<lparr>he_handle = handle_new 0 r 0, he_object = f 0\<rparr>"
    using t(4) [rule_format, of 0] n(2) by simp
  have slot: "next_slot t = 0x10000000" and gen: "ht_generation t = 0x10000000"
    using t(2,3) assms by simp_all
  have "ht_insert t obj r = Some (handle_new 0x10000000 r 0, ht_put t obj r 0x10000001)"
    by (simp add: ht_insert_put slot gen add_c_def)
  moreover have "ht_get (ht_put t obj r 0x10000001) (handle_new 0x10000000 r 0) = Some (f 0)"
    using first by (simp add: ht_get_def ht_put_def slot_id_new generation_new slot)
  ultimately show ?thesis using t(1) by blast
qed

text \<open>slot numbers run past the 28 bits of the handle. After \<open>2 ^ 28\<close> insertions into a new
  table, the handle that the next \<open>insert\<close> returns looks up the object that was inserted first,
  not the object just inserted.\<close>

theorem handle_alias_after_wrap:
  "\<exists>t h t'. run_ops ht_step handle_table_new (map (\<lambda>i. HInsert (f i) r) [0..<2 ^ 28]) = Some t \<and>
     ht_insert t obj r = Some (h, t') \<and> ht_get t' h = Some (f 0)"
  by (rule alias_after) (rule refl)

end
