(* ===== verification/Channel.thy ===== *)
theory Channel
  imports Kernel_Prelude
begin

text \<open>
  Message channels: \<open>kernel/src/ipc/mod.rs\<close>. A channel has two ends, each with one slot for a
  message, one for a reply, and the task blocked in \<open>receive\<close>, \<open>send\<close> or \<open>call\<close> on it. Every
  method of \<open>Channel\<close> is a function on the record; tasks are their \<open>u64\<close> identifiers.
  The invariant says that messages are at most \<open>MAX_MSG_SIZE\<close> bytes, that at most
  \<open>MAX_PENDING_HANDLES\<close> handles wait, and that no task is blocked in \<open>receive\<close> on an end that
  has a message.
\<close>

definition MAX_MSG_SIZE :: nat where
  "MAX_MSG_SIZE = 4096"

definition MAX_PENDING_HANDLES :: nat where
  "MAX_PENDING_HANDLES = 64"

datatype end_id = EndA | EndB

record end_state =
  pending_msg :: "u8 list option"
  blocked_receiver :: "u64 option"
  blocked_sender :: "u64 option"
  blocked_caller :: "u64 option"
  pending_reply :: "u8 list option"
  end_closed :: bool

record channel =
  end_a :: end_state
  end_b :: end_state
  pending_handles :: "u64 list"

datatype send_result = Delivered u64 | SendPending | SendClosed

datatype recv_result = GotMessage "u8 list" u64 | RecvBlocked | RecvClosed

datatype call_result = GotReply "u8 list" | CallBlocked "u64 option" | CallClosed

datatype reply_result = Unblocked u64 | ReplyStored

definition end_new :: end_state where
  "end_new = \<lparr>pending_msg = None, blocked_receiver = None, blocked_sender = None,
     blocked_caller = None, pending_reply = None, end_closed = False\<rparr>"

definition channel_new :: channel where
  "channel_new = \<lparr>end_a = end_new, end_b = end_new, pending_handles = []\<rparr>"

text \<open>\<open>ends_mut\<close> gives (own end, peer end); \<open>put_ends\<close> writes both back.\<close>

fun ends_mut :: "channel \<Rightarrow> end_id \<Rightarrow> end_state \<times> end_state" where
  "ends_mut ch EndA = (end_a ch, end_b ch)"
| "ends_mut ch EndB = (end_b ch, end_a ch)"

fun put_ends :: "channel \<Rightarrow> end_id \<Rightarrow> end_state \<Rightarrow> end_state \<Rightarrow> channel" where
  "put_ends ch EndA src dst = ch\<lparr>end_a := src, end_b := dst\<rparr>"
| "put_ends ch EndB src dst = ch\<lparr>end_b := src, end_a := dst\<rparr>"

definition opt_list :: "'a option \<Rightarrow> 'a list" where
  "opt_list x = (case x of None \<Rightarrow> [] | Some a \<Rightarrow> [a])"

definition end_waiters :: "end_state \<Rightarrow> u64 list" where
  "end_waiters e = opt_list (blocked_receiver e) @ opt_list (blocked_sender e)
     @ opt_list (blocked_caller e)"

definition end_close :: "end_state \<Rightarrow> end_state" where
  "end_close e = e\<lparr>end_closed := True, blocked_receiver := None, blocked_sender := None,
     blocked_caller := None\<rparr>"

definition channel_close :: "channel \<Rightarrow> u64 list \<times> channel" where
  "channel_close ch =
     (end_waiters (end_a ch) @ end_waiters (end_b ch),
      ch\<lparr>end_a := end_close (end_a ch), end_b := end_close (end_b ch)\<rparr>)"

definition channel_send :: "channel \<Rightarrow> end_id \<Rightarrow> u8 list \<Rightarrow> u64 \<Rightarrow> send_result \<times> channel" where
  "channel_send ch from msg sender =
     (if length msg > MAX_MSG_SIZE then (SendClosed, ch)
      else let (src, dst) = ends_mut ch from in
        if end_closed src \<or> end_closed dst then (SendClosed, ch)
        else case blocked_receiver dst of
          Some receiver \<Rightarrow>
            (Delivered receiver,
             put_ends ch from src (dst\<lparr>blocked_receiver := None, pending_msg := Some msg\<rparr>))
        | None \<Rightarrow>
            (SendPending,
             put_ends ch from (src\<lparr>blocked_sender := Some sender\<rparr>)
               (dst\<lparr>pending_msg := Some msg\<rparr>)))"

definition channel_receive :: "channel \<Rightarrow> end_id \<Rightarrow> u64 \<Rightarrow> recv_result \<times> channel" where
  "channel_receive ch on task =
     (let (src, dst) = ends_mut ch on in
      if end_closed src then (RecvClosed, ch)
      else case pending_msg src of
        Some msg \<Rightarrow>
          (let sender = (case blocked_sender src of None \<Rightarrow> 0 | Some s \<Rightarrow> s) in
           (GotMessage msg sender,
            put_ends ch on (src\<lparr>pending_msg := None, blocked_sender := None\<rparr>) dst))
      | None \<Rightarrow>
          (RecvBlocked, put_ends ch on (src\<lparr>blocked_receiver := Some task\<rparr>) dst))"

definition drain_handles :: "channel \<Rightarrow> u64 list \<times> channel" where
  "drain_handles ch = (pending_handles ch, ch\<lparr>pending_handles := []\<rparr>)"

definition push_handle :: "channel \<Rightarrow> u64 \<Rightarrow> bool \<times> channel" where
  "push_handle ch h =
     (if length (pending_handles ch) \<ge> MAX_PENDING_HANDLES then (False, ch)
      else (True, ch\<lparr>pending_handles := pending_handles ch @ [h]\<rparr>))"

definition channel_call :: "channel \<Rightarrow> end_id \<Rightarrow> u8 list \<Rightarrow> u64 \<Rightarrow> call_result \<times> channel" where
  "channel_call ch from msg task =
     (if length msg > MAX_MSG_SIZE then (CallClosed, ch)
      else let (src, dst) = ends_mut ch from in
        if end_closed src \<or> end_closed dst then (CallClosed, ch)
        else case pending_reply src of
          Some reply \<Rightarrow> (GotReply reply, put_ends ch from (src\<lparr>pending_reply := None\<rparr>) dst)
        | None \<Rightarrow>
            (CallBlocked (blocked_receiver dst),
             put_ends ch from (src\<lparr>blocked_caller := Some task\<rparr>)
               (dst\<lparr>blocked_receiver := None, pending_msg := Some msg\<rparr>)))"

definition check_reply :: "channel \<Rightarrow> end_id \<Rightarrow> call_result \<times> channel" where
  "check_reply ch from =
     (let (src, dst) = ends_mut ch from in
      if end_closed src then (CallClosed, ch)
      else case pending_reply src of
        Some reply \<Rightarrow> (GotReply reply, put_ends ch from (src\<lparr>pending_reply := None\<rparr>) dst)
      | None \<Rightarrow> (CallBlocked None, ch))"

definition channel_reply :: "channel \<Rightarrow> end_id \<Rightarrow> u8 list \<Rightarrow> reply_result \<times> channel" where
  "channel_reply ch on reply =
     (let (src, dst) = ends_mut ch on in
      case blocked_caller dst of
        Some caller \<Rightarrow>
          (Unblocked caller,
           put_ends ch on src (dst\<lparr>blocked_caller := None, pending_reply := Some reply\<rparr>))
      | None \<Rightarrow> (ReplyStored, put_ends ch on src (dst\<lparr>pending_reply := Some reply\<rparr>)))"

datatype channel_op =
    CSend end_id "u8 list" u64
  | CReceive end_id u64
  | CCall end_id "u8 list" u64
  | CCheckReply end_id
  | CReply end_id "u8 list"
  | CPushHandle u64
  | CDrainHandles
  | CClose

fun channel_step :: "channel \<Rightarrow> channel_op \<Rightarrow> channel panics" where
  "channel_step ch (CSend from msg sender) = Some (snd (channel_send ch from msg sender))"
| "channel_step ch (CReceive on task) = Some (snd (channel_receive ch on task))"
| "channel_step ch (CCall from msg task) = Some (snd (channel_call ch from msg task))"
| "channel_step ch (CCheckReply from) = Some (snd (check_reply ch from))"
| "channel_step ch (CReply on reply) = Some (snd (channel_reply ch on reply))"
| "channel_step ch (CPushHandle h) = Some (snd (push_handle ch h))"
| "channel_step ch CDrainHandles = Some (snd (drain_handles ch))"
| "channel_step ch CClose = Some (snd (channel_close ch))"

definition end_inv :: "end_state \<Rightarrow> bool" where
  "end_inv e \<longleftrightarrow>
     (\<forall>m. pending_msg e = Some m \<longrightarrow> length m \<le> MAX_MSG_SIZE \<and> blocked_receiver e = None) \<and>
     (end_closed e \<longrightarrow> end_waiters e = [])"

definition channel_inv :: "channel \<Rightarrow> bool" where
  "channel_inv ch \<longleftrightarrow> end_inv (end_a ch) \<and> end_inv (end_b ch) \<and>
     end_closed (end_a ch) = end_closed (end_b ch) \<and>
     length (pending_handles ch) \<le> MAX_PENDING_HANDLES"

subsection \<open>Ends\<close>

lemma opt_list_simps [simp]: "opt_list None = []" "opt_list (Some a) = [a]"
  by (simp_all add: opt_list_def)

lemma opt_list_Nil [simp]: "opt_list x = [] \<longleftrightarrow> x = None"
  by (cases x) simp_all

lemma set_end_waiters: "t \<in> set (end_waiters e) \<longleftrightarrow> blocked_receiver e = Some t \<or>
    blocked_sender e = Some t \<or> blocked_caller e = Some t"
proof -
  have "t \<in> set (opt_list x) \<longleftrightarrow> x = Some t" for x
    by (cases x) auto
  then show ?thesis by (simp add: end_waiters_def)
qed

lemma ex_end_id: "(\<exists>e. P e) \<longleftrightarrow> P EndA \<or> P EndB"
  by (metis end_id.exhaust)

fun peer :: "end_id \<Rightarrow> end_id" where
  "peer EndA = EndB"
| "peer EndB = EndA"

definition own_end :: "channel \<Rightarrow> end_id \<Rightarrow> end_state" where
  "own_end ch e = fst (ends_mut ch e)"

lemma peer_peer [simp]: "peer (peer e) = e"
  by (cases e) simp_all

lemma peer_neq [simp]: "peer e \<noteq> e" "e \<noteq> peer e"
  by (cases e; simp)+

lemma ends_mut_own: "ends_mut ch e = (own_end ch e, own_end ch (peer e))"
  by (cases e) (simp_all add: own_end_def)

lemma own_end_put [simp]:
  "own_end (put_ends ch e src dst) e = src"
  "own_end (put_ends ch e src dst) (peer e) = dst"
  by (cases e; simp add: own_end_def)+

lemma own_end_put_peer [simp]:
  "own_end (put_ends ch (peer e) src dst) e = dst"
  by (cases e; simp add: own_end_def)+

lemma handles_put [simp]: "pending_handles (put_ends ch e src dst) = pending_handles ch"
  by (cases e) simp_all

lemma own_end_handles [simp]: "own_end (ch\<lparr>pending_handles := hs\<rparr>) e = own_end ch e"
  by (cases e) (simp_all add: own_end_def)

lemma channel_inv_own:
  "channel_inv ch \<longleftrightarrow> end_inv (own_end ch e) \<and> end_inv (own_end ch (peer e)) \<and>
     end_closed (own_end ch e) = end_closed (own_end ch (peer e)) \<and>
     length (pending_handles ch) \<le> MAX_PENDING_HANDLES"
  by (cases e) (auto simp: channel_inv_def own_end_def)

lemmas channel_ops = channel_send_def channel_receive_def channel_call_def check_reply_def
  channel_reply_def Let_def ends_mut_own

subsection \<open>The invariant\<close>

lemma channel_inv_new: "channel_inv channel_new"
  by (simp add: channel_inv_def channel_new_def end_new_def end_inv_def end_waiters_def)

lemma channel_inv_send: "channel_inv ch \<Longrightarrow> channel_inv (snd (channel_send ch e msg t))"
  by (auto simp: channel_ops channel_inv_own [of _ e] end_inv_def end_waiters_def
      split: option.splits)

lemma channel_inv_receive: "channel_inv ch \<Longrightarrow> channel_inv (snd (channel_receive ch e t))"
  by (auto simp: channel_ops channel_inv_own [of _ e] end_inv_def end_waiters_def
      split: option.splits)

lemma channel_inv_call: "channel_inv ch \<Longrightarrow> channel_inv (snd (channel_call ch e msg t))"
  by (auto simp: channel_ops channel_inv_own [of _ e] end_inv_def end_waiters_def
      split: option.splits)

lemma channel_inv_check_reply: "channel_inv ch \<Longrightarrow> channel_inv (snd (check_reply ch e))"
  by (auto simp: channel_ops channel_inv_own [of _ e] end_inv_def end_waiters_def
      split: option.splits)

lemma channel_inv_reply: "channel_inv ch \<Longrightarrow> channel_inv (snd (channel_reply ch e msg))"
  by (auto simp: channel_ops channel_inv_own [of _ e] end_inv_def end_waiters_def
      split: option.splits)

lemma channel_inv_handles:
  "channel_inv ch \<Longrightarrow> channel_inv (snd (push_handle ch h))"
  "channel_inv ch \<Longrightarrow> channel_inv (snd (drain_handles ch))"
  by (auto simp: channel_inv_def push_handle_def drain_handles_def)

lemma channel_inv_close: "channel_inv ch \<Longrightarrow> channel_inv (snd (channel_close ch))"
  by (auto simp: channel_inv_def channel_close_def end_close_def end_inv_def end_waiters_def)

lemmas channel_inv_ops = channel_inv_send channel_inv_receive channel_inv_call
  channel_inv_check_reply channel_inv_reply channel_inv_handles channel_inv_close

lemma channel_inv_step: "channel_inv ch \<Longrightarrow> channel_step ch a = Some ch' \<Longrightarrow> channel_inv ch'"
  by (cases a) (auto simp: channel_inv_ops)

interpretation chan: component channel_step channel_inv
  by unfold_locales (rule channel_inv_step)

subsection \<open>Closed channels\<close>

definition both_closed :: "channel \<Rightarrow> bool" where
  "both_closed ch \<longleftrightarrow> end_closed (end_a ch) \<and> end_closed (end_b ch)"

lemma both_closed_own:
  "both_closed ch \<longleftrightarrow> end_closed (own_end ch e) \<and> end_closed (own_end ch (peer e))"
  by (cases e) (auto simp: both_closed_def own_end_def)

lemma both_closed_close: "both_closed (snd (channel_close ch))"
  by (simp add: both_closed_def channel_close_def end_close_def)

lemma both_closed_results:
  "both_closed ch \<Longrightarrow> channel_send ch e m t = (SendClosed, ch)"
  "both_closed ch \<Longrightarrow> channel_receive ch e t = (RecvClosed, ch)"
  "both_closed ch \<Longrightarrow> channel_call ch e m t = (CallClosed, ch)"
  "both_closed ch \<Longrightarrow> check_reply ch e = (CallClosed, ch)"
  by (simp_all add: channel_ops both_closed_own [of ch e])

lemma both_closed_others:
  "both_closed ch \<Longrightarrow> both_closed (snd (channel_reply ch e m))"
  "both_closed ch \<Longrightarrow> both_closed (snd (push_handle ch h))"
  "both_closed ch \<Longrightarrow> both_closed (snd (drain_handles ch))"
  by (auto simp: channel_reply_def push_handle_def drain_handles_def ends_mut_own
      both_closed_own [of _ e] split: option.splits)

lemma both_closed_step: "both_closed ch \<Longrightarrow> channel_step ch a = Some ch' \<Longrightarrow> both_closed ch'"
  by (cases a) (auto simp: both_closed_results both_closed_others both_closed_close)

lemma both_closed_run: "both_closed ch \<Longrightarrow> run_ops channel_step ch ops = Some ch' \<Longrightarrow> both_closed ch'"
  by (induction ops arbitrary: ch) (auto simp: bind_eq_Some_conv dest: both_closed_step)

lemma channel_step_total: "\<exists>ch'. channel_step ch a = Some ch'"
  by (cases a) simp_all

lemma channel_run_total: "\<exists>ch'. run_ops channel_step ch ops = Some ch'"
proof (induction ops arbitrary: ch)
  case (Cons a ops)
  then show ?case using channel_step_total [of ch a] by auto
qed simp

subsection \<open>Properties\<close>

text \<open>C14: a new channel goes through any sequence of calls without a panic and keeps its invariant:
  every stored message has at most 4096 bytes, at most 64 handles wait, no task is blocked in
  \<open>receive\<close> on an end that has a message, both ends close together, and a closed end has no
  blocked task.\<close>

theorem channel_always_inv:
  "\<exists>ch. run_ops channel_step channel_new ops = Some ch \<and> channel_inv ch"
  using channel_run_total [of channel_new ops] chan.inv_run [OF channel_inv_new] by blast

text \<open>a message that \<open>send\<close> accepts is what the next \<open>receive\<close> on the peer end returns, and
  \<open>send\<close> names the task blocked there as the one to wake exactly when there was one.\<close>

theorem channel_send_receive:
  assumes "channel_send ch e msg t = (res, ch1)" and "res \<noteq> SendClosed"
  shows "(\<exists>s. fst (channel_receive ch1 (peer e) u) = GotMessage msg s) \<and>
     (\<forall>w. res = Delivered w \<longleftrightarrow> blocked_receiver (own_end ch (peer e)) = Some w)"
proof -
  have "\<not> end_closed (own_end ch e)" "\<not> end_closed (own_end ch (peer e))"
    using assms by (auto simp: channel_ops split: if_splits)
  then show ?thesis
    using assms by (auto simp: channel_ops split: if_splits option.splits)
qed

theorem channel_send_receive_witness:
  "\<exists>s. fst (channel_receive (snd (channel_send channel_new EndA [72, 105] 1)) (peer EndA) 2)
     = GotMessage [72, 105] s"
proof -
  have "channel_send channel_new EndA [72, 105] 1
      = (SendPending, snd (channel_send channel_new EndA [72, 105] 1))"
    by (simp add: channel_send_def channel_new_def end_new_def MAX_MSG_SIZE_def)
  from channel_send_receive [OF this, of 2] show ?thesis by blast
qed



text \<open>C37: \<open>close\<close> returns every task blocked on either end, and no other, and is final: after it,
  whatever calls follow, \<open>send\<close>, \<open>receive\<close>, \<open>call\<close> and \<open>check_reply\<close> on both ends report a
  closed channel and change nothing.\<close>

theorem channel_close_final:
  assumes "run_ops channel_step (snd (channel_close ch)) ops = Some ch'"
  shows "set (fst (channel_close ch)) =
       {t. \<exists>e. blocked_receiver (own_end ch e) = Some t \<or> blocked_sender (own_end ch e) = Some t \<or>
              blocked_caller (own_end ch e) = Some t} \<and>
     channel_send ch' e m t = (SendClosed, ch') \<and> channel_receive ch' e t = (RecvClosed, ch') \<and>
     channel_call ch' e m t = (CallClosed, ch') \<and> check_reply ch' e = (CallClosed, ch')"
proof -
  have "both_closed ch'"
    using both_closed_close assms by (rule both_closed_run)
  moreover have "set (fst (channel_close ch)) =
       {t. \<exists>e. blocked_receiver (own_end ch e) = Some t \<or> blocked_sender (own_end ch e) = Some t \<or>
              blocked_caller (own_end ch e) = Some t}" 
    by (simp add: ex_end_id channel_close_def set_end_waiters own_end_def set_eq_iff)
  ultimately show ?thesis
    by (simp add: both_closed_results)
qed

theorem channel_close_final_witness:
  "let ch = snd (channel_receive channel_new EndB 9) in
   set (fst (channel_close ch)) = {9} \<and>
   channel_send (snd (channel_reply (snd (channel_close ch)) EndA [3])) EndA [1] 4
     = (SendClosed, snd (channel_reply (snd (channel_close ch)) EndA [3]))"
proof -
  let ?ch = "snd (channel_receive channel_new EndB 9)"
  have run: "run_ops channel_step (snd (channel_close ?ch)) [CReply EndA [3]]
      = Some (snd (channel_reply (snd (channel_close ?ch)) EndA [3]))"
    by simp
  have "fst (channel_close ?ch) = [9]"
    by (simp add: channel_receive_def channel_new_def end_new_def channel_close_def end_waiters_def)
  then show ?thesis
    using channel_close_final [OF run, of EndA "[1]" 4] unfolding Let_def by simp
qed

text \<open>a blocked sender is forgotten. When \<open>send\<close> stores a message, the sender is recorded on the
  sending end, but \<open>receive\<close> looks for it on the receiving end: it reports task 0 instead of the
  sender, and the sender stays registered as blocked.\<close>

theorem channel_receive_misses_sender:
  assumes "channel_send ch e msg t = (SendPending, ch1)"
    and "blocked_sender (own_end ch (peer e)) = None"
  shows "\<exists>ch2. channel_receive ch1 (peer e) u = (GotMessage msg 0, ch2) \<and>
     blocked_sender (own_end ch2 e) = Some t"
  using assms by (auto simp: channel_ops split: if_splits option.splits)

theorem channel_receive_misses_sender_witness:
  "\<exists>ch2. channel_receive (snd (channel_send channel_new EndA [5] 3)) (peer EndA) 4
     = (GotMessage [5] 0, ch2) \<and> blocked_sender (own_end ch2 EndA) = Some 3"
proof (rule channel_receive_misses_sender)
  show "channel_send channel_new EndA [5] 3
      = (SendPending, snd (channel_send channel_new EndA [5] 3))"
    by (simp add: channel_send_def channel_new_def end_new_def MAX_MSG_SIZE_def)
  show "blocked_sender (own_end channel_new (peer EndA)) = None"
    by (simp add: own_end_def channel_new_def end_new_def)
qed

text \<open>An accepted message can be lost. Two sends from the same end with no \<open>receive\<close> between
  them are both accepted, and the first message is overwritten: the peer gets the second one and
  then nothing.\<close>

theorem channel_second_send_overwrites:
  assumes "channel_send ch e m1 t1 = (SendPending, ch1)"
    and "length m2 \<le> MAX_MSG_SIZE"
  shows "\<exists>ch2 s ch3. channel_send ch1 e m2 t2 = (SendPending, ch2) \<and>
     channel_receive ch2 (peer e) u = (GotMessage m2 s, ch3) \<and>
     fst (channel_receive ch3 (peer e) u) = RecvBlocked"
proof -
  have op: "\<not> end_closed (own_end ch e)" "\<not> end_closed (own_end ch (peer e))"
    and ch1: "ch1 = put_ends ch e (own_end ch e\<lparr>blocked_sender := Some t1\<rparr>)
               (own_end ch (peer e)\<lparr>pending_msg := Some m1\<rparr>)"
    and nr: "blocked_receiver (own_end ch (peer e)) = None"
    using assms(1) by (auto simp: channel_send_def ends_mut_own split: if_splits option.splits)
  obtain ch2 where ch2: "channel_send ch1 e m2 t2 = (SendPending, ch2)"
    "own_end ch2 (peer e) = own_end ch (peer e)\<lparr>pending_msg := Some m2\<rparr>"
    using op nr assms(2) by (simp add: channel_send_def ends_mut_own ch1)
  obtain s ch3 where ch3: "channel_receive ch2 (peer e) u = (GotMessage m2 s, ch3)"
    "own_end ch3 (peer e) = own_end ch2 (peer e)\<lparr>pending_msg := None, blocked_sender := None\<rparr>"
    using op by (simp add: channel_receive_def ends_mut_own ch2 Let_def)
  have "fst (channel_receive ch3 (peer e) u) = RecvBlocked"
    using op by (simp add: channel_receive_def ends_mut_own ch3(2) ch2(2) Let_def)
  with ch2 ch3 show ?thesis by blast
qed

theorem channel_second_send_overwrites_witness:
  "\<exists>ch2 s ch3. channel_send (snd (channel_send channel_new EndB [1] 3)) EndB [2] 3 = (SendPending, ch2) \<and>
     channel_receive ch2 (peer EndB) 4 = (GotMessage [2] s, ch3) \<and>
     fst (channel_receive ch3 (peer EndB) 4) = RecvBlocked"
proof (rule channel_second_send_overwrites)
  show "channel_send channel_new EndB [1] 3
      = (SendPending, snd (channel_send channel_new EndB [1] 3))"
    by (simp add: channel_send_def channel_new_def end_new_def MAX_MSG_SIZE_def)
  show "length [2 :: u8] \<le> MAX_MSG_SIZE"
    by (simp add: MAX_MSG_SIZE_def)
qed

end
