(* ===== verification/Pipe.thy ===== *)
theory Pipe
  imports Kernel_Prelude
begin

text \<open>
  Pipes: \<open>kernel/src/ipc/pipe.rs\<close>. The reader and the writer share one \<open>PipeBuffer\<close> behind an
  \<open>Arc<Mutex<_>>\<close>, so both are modelled by that shared record; dropping an end clears its flag.
  \<open>read\<close> writes into a slice of the caller: the model takes the slice and returns its new
  contents. The locale \<open>byte_stream\<close> states what a byte stream promises for one call and shows
  that it then delivers, over any sequence of calls, exactly the accepted bytes in order.
\<close>

definition DEFAULT_PIPE_CAPACITY :: nat where
  "DEFAULT_PIPE_CAPACITY = 4096"

definition EPIPE :: int where
  "EPIPE = -32"

record pipe_buffer =
  pb_buffer :: "u8 list"
  pb_capacity :: nat
  reader_open :: bool
  writer_open :: bool

definition create_pipe_with_capacity :: "nat \<Rightarrow> pipe_buffer" where
  "create_pipe_with_capacity capacity =
     \<lparr>pb_buffer = [], pb_capacity = capacity, reader_open = True, writer_open = True\<rparr>"

definition create_pipe :: pipe_buffer where
  "create_pipe = create_pipe_with_capacity DEFAULT_PIPE_CAPACITY"

text \<open>Result: the count, the caller's slice afterwards, the pipe afterwards.\<close>

definition pipe_read :: "pipe_buffer \<Rightarrow> u8 list \<Rightarrow> nat \<times> u8 list \<times> pipe_buffer" where
  "pipe_read p buf =
     (if buf = [] then (0, buf, p)
      else if pb_buffer p = [] then
        (if writer_open p then (0, buf, p) else (0, buf, p))
      else
        let to_read = min (length buf) (length (pb_buffer p)) in
        (to_read, take to_read (pb_buffer p) @ drop to_read buf,
         p\<lparr>pb_buffer := drop to_read (pb_buffer p)\<rparr>))"

definition pipe_is_eof :: "pipe_buffer \<Rightarrow> bool" where
  "pipe_is_eof p \<longleftrightarrow> \<not> writer_open p \<and> pb_buffer p = []"

definition pipe_is_readable :: "pipe_buffer \<Rightarrow> bool" where
  "pipe_is_readable p \<longleftrightarrow> pb_buffer p \<noteq> [] \<or> \<not> writer_open p"

text \<open>\<open>capacity - len\<close> is a checked subtraction on \<open>usize\<close>.\<close>

definition pipe_write :: "pipe_buffer \<Rightarrow> u8 list \<Rightarrow> ((int + nat) \<times> pipe_buffer) panics" where
  "pipe_write p data =
     (if data = [] then Some (Inr 0, p)
      else if \<not> reader_open p then Some (Inl EPIPE, p)
      else if pb_capacity p < length (pb_buffer p) then None
      else
        let available = pb_capacity p - length (pb_buffer p) in
        if available = 0 then Some (Inr 0, p)
        else
          let to_write = min (length data) available in
          Some (Inr to_write, p\<lparr>pb_buffer := pb_buffer p @ take to_write data\<rparr>))"

definition pipe_is_broken :: "pipe_buffer \<Rightarrow> bool" where
  "pipe_is_broken p \<longleftrightarrow> \<not> reader_open p"

definition pipe_is_writable :: "pipe_buffer \<Rightarrow> bool" where
  "pipe_is_writable p \<longleftrightarrow> length (pb_buffer p) < pb_capacity p"

definition drop_reader :: "pipe_buffer \<Rightarrow> pipe_buffer" where
  "drop_reader p = p\<lparr>reader_open := False\<rparr>"

definition drop_writer :: "pipe_buffer \<Rightarrow> pipe_buffer" where
  "drop_writer p = p\<lparr>writer_open := False\<rparr>"

datatype pipe_op =
    PWrite "u8 list"
  | PRead "u8 list"
  | PDropReader
  | PDropWriter

text \<open>One call, with the bytes it hands to the reader and the bytes it accepts from the writer, as
  the returned counts tell them.\<close>

fun pipe_io :: "pipe_buffer \<Rightarrow> pipe_op \<Rightarrow> (u8 list \<times> u8 list \<times> pipe_buffer) panics" where
  "pipe_io p (PWrite data) =
     (case pipe_write p data of
        None \<Rightarrow> None
      | Some (Inl e, p') \<Rightarrow> Some ([], [], p')
      | Some (Inr n, p') \<Rightarrow> Some ([], take n data, p'))"
| "pipe_io p (PRead buf) =
     (case pipe_read p buf of (n, buf', p') \<Rightarrow> Some (take n buf', [], p'))"
| "pipe_io p PDropReader = Some ([], [], drop_reader p)"
| "pipe_io p PDropWriter = Some ([], [], drop_writer p)"

definition pipe_inv :: "pipe_buffer \<Rightarrow> bool" where
  "pipe_inv p \<longleftrightarrow> length (pb_buffer p) \<le> pb_capacity p"

subsection \<open>Byte streams\<close>

fun stream_run ::
  "('s \<Rightarrow> 'op \<Rightarrow> ('b list \<times> 'b list \<times> 's) panics) \<Rightarrow> 's \<Rightarrow> 'op list \<Rightarrow> ('b list \<times> 'b list \<times> 's) panics"
where
  "stream_run io s [] = Some ([], [], s)"
| "stream_run io s (a # as) =
     (case io s a of
        None \<Rightarrow> None
      | Some (out, inn, s') \<Rightarrow>
          (case stream_run io s' as of
             None \<Rightarrow> None
           | Some (out', inn', s'') \<Rightarrow> Some (out @ out', inn @ inn', s'')))"

locale byte_stream =
  fixes io :: "'s \<Rightarrow> 'op \<Rightarrow> ('b list \<times> 'b list \<times> 's) panics"
    and contents :: "'s \<Rightarrow> 'b list"
    and inv :: "'s \<Rightarrow> bool"
  assumes io_law: "inv s \<Longrightarrow>
    \<exists>out inn s'. io s a = Some (out, inn, s') \<and> inv s' \<and> out @ contents s' = contents s @ inn"
begin

lemma fifo_run: "inv s \<Longrightarrow>
  \<exists>out inn s'. stream_run io s as = Some (out, inn, s') \<and> inv s' \<and>
     out @ contents s' = contents s @ inn"
proof (induction as arbitrary: s)
  case (Cons a as)
  obtain out inn s' where 1: "io s a = Some (out, inn, s')" "inv s'"
    "out @ contents s' = contents s @ inn"
    using io_law [OF Cons.prems] by blast
  obtain out' inn' s'' where 2: "stream_run io s' as = Some (out', inn', s'')" "inv s''"
    "out' @ contents s'' = contents s' @ inn'"
    using Cons.IH [OF 1(2)] by blast
  have "(out @ out') @ contents s'' = contents s @ (inn @ inn')"
    using 1(3) 2(3) by (metis append.assoc)
  with 1 2 show ?case by simp
qed simp

text \<open>What comes out of an initially empty stream is a prefix of what went in.\<close>

lemma out_prefix_run: "inv s \<Longrightarrow> contents s = [] \<Longrightarrow> stream_run io s as = Some (out, inn, s') \<Longrightarrow>
  inn = out @ contents s'"
  using fifo_run [of s as] by auto

end

lemma pipe_write_inv:
  assumes "pipe_inv p"
  shows "pipe_write p data \<noteq> None"
    and "pipe_write p data = Some (res, p') \<Longrightarrow> pipe_inv p'"
  using assms by (auto simp: pipe_write_def pipe_inv_def Let_def split: if_splits)

lemma pipe_io_law:
  assumes "pipe_inv p"
  shows "\<exists>out inn p'. pipe_io p a = Some (out, inn, p') \<and> pipe_inv p' \<and>
     out @ pb_buffer p' = pb_buffer p @ inn"
proof (cases a)
  case (PWrite data)
  then show ?thesis
    using assms by (auto simp: pipe_write_def pipe_inv_def Let_def)
next
  case (PRead buf)
  then show ?thesis
    using assms by (auto simp: pipe_read_def pipe_inv_def Let_def min_def)
qed (use assms in \<open>auto simp: pipe_inv_def drop_reader_def drop_writer_def\<close>)

interpretation pipe: byte_stream pipe_io pb_buffer pipe_inv
  by unfold_locales (rule pipe_io_law)

subsection \<open>Properties\<close>

text \<open>C17: a pipe is a byte stream. From a new pipe of any capacity, every sequence of writes,
  reads and drops of ends runs without a panic, never holds more bytes than the capacity, and the
  bytes read so far followed by the bytes in the buffer are exactly the bytes the writes accepted,
  in order.\<close>

theorem pipe_fifo:
  "\<exists>out inn p. stream_run pipe_io (create_pipe_with_capacity n) ops = Some (out, inn, p) \<and>
     length (pb_buffer p) \<le> pb_capacity p \<and> inn = out @ pb_buffer p"
proof -
  have "pipe_inv (create_pipe_with_capacity n)"
    by (simp add: pipe_inv_def create_pipe_with_capacity_def)
  from pipe.fifo_run [OF this, of ops] show ?thesis
    by (auto simp: pipe_inv_def create_pipe_with_capacity_def)
qed

text \<open>\<open>write\<close> on every branch: nothing to write is 0 bytes; a dropped reader is \<open>EPIPE\<close> and loses
  nothing; otherwise it accepts as many bytes as fit and says how many, and it accepts none
  exactly when the pipe is not writable.\<close>

theorem pipe_write_spec:
  assumes "pipe_inv p" and "data \<noteq> []"
  shows "if pipe_is_broken p then pipe_write p data = Some (Inl EPIPE, p)
     else \<exists>n p'. pipe_write p data = Some (Inr n, p') \<and>
            pb_buffer p' = pb_buffer p @ take n data \<and>
            n = min (length data) (pb_capacity p - length (pb_buffer p)) \<and>
            (n = 0 \<longleftrightarrow> \<not> pipe_is_writable p)"
  using assms
  by (cases "reader_open p") (auto simp: pipe_write_def pipe_inv_def pipe_is_broken_def
      pipe_is_writable_def Let_def)

theorem pipe_write_spec_witness:
  "\<exists>n p'. pipe_write (create_pipe_with_capacity 2) [7, 8, 9] = Some (Inr n, p') \<and>
     pb_buffer p' = [7, 8] \<and> n = 2"
proof -
  have "pipe_inv (create_pipe_with_capacity 2)"
    by (simp add: pipe_inv_def create_pipe_with_capacity_def)
  from pipe_write_spec [OF this, of "[7, 8, 9]"] show ?thesis
    by (auto simp: create_pipe_with_capacity_def pipe_is_broken_def)
qed

text \<open>\<open>read\<close> takes the oldest bytes, as many as are there and fit, into the front of the
  caller's slice and leaves the rest of the slice alone; the bytes of a pipe whose writer was
  dropped can still be read, and then the pipe reports end of file.\<close>

theorem pipe_read_spec:
  assumes "pipe_read p buf = (n, buf', p')"
  shows "n = min (length buf) (length (pb_buffer p)) \<and> take n buf' = take n (pb_buffer p) \<and>
     drop n buf' = drop n buf \<and> pb_buffer p' = drop n (pb_buffer p) \<and>
     (length (pb_buffer p) \<le> length buf \<longrightarrow> pipe_is_eof (drop_writer p'))"
  using assms
  by (auto simp: pipe_read_def Let_def pipe_is_eof_def drop_writer_def split: if_splits)

theorem pipe_read_spec_witness:
  "take 2 (fst (snd (pipe_read (create_pipe\<lparr>pb_buffer := [1, 2]\<rparr>) [0, 0, 0]))) = [1, 2]"
proof -
  have "pipe_read (create_pipe\<lparr>pb_buffer := [1, 2]\<rparr>) [0, 0, 0]
      = (2, [1, 2, 0], create_pipe\<lparr>pb_buffer := []\<rparr>)"
    by (simp add: pipe_read_def create_pipe_def create_pipe_with_capacity_def)
  from pipe_read_spec [OF this] this show ?thesis by simp
qed

end
