(* ===== verification/Frame_Alloc.thy ===== *)
theory Frame_Alloc
  imports Kernel_Prelude
begin

text \<open>
  Physical frames: \<open>kernel/src/frame_alloc.rs\<close>. The statics of the module (region bounds, bitmap,
  bitmap length, frame count, initialised flag) are one record; each public function acts on it
  under the bitmap lock, so it is one step. Frame \<open>i\<close> of the region is bit \<open>i mod 8\<close> of byte
  \<open>i div 8\<close>. The locale \<open>frame_allocator\<close> is what the clients rely on: \<open>alloc\<close> returns an unused
  frame, \<open>free\<close> gives a used one back.
\<close>

definition MAX_BITMAP_BYTES :: nat where
  "MAX_BITMAP_BYTES = 1024"

record frame_state =
  region_start :: u64
  region_end :: u64
  fbitmap :: "u8 list"
  bitmap_len :: nat
  total_frames_count :: nat
  fa_initialized :: bool

text \<open>The initial values of the statics.\<close>

definition frame_statics :: frame_state where
  "frame_statics = \<lparr>region_start = 0x02000000, region_end = 0x04000000,
     fbitmap = replicate MAX_BITMAP_BYTES 0, bitmap_len = 0, total_frames_count = 0,
     fa_initialized = False\<rparr>"

definition total_frames :: "frame_state \<Rightarrow> nat panics" where
  "total_frames s = do { d \<leftarrow> sub_c (region_end s) (region_start s); Some (unat (d div PAGE_SIZE)) }"

text \<open>\<open>usize::div_ceil(8)\<close>.\<close>

definition div_ceil8 :: "nat \<Rightarrow> nat" where
  "div_ceil8 n = (n + 7) div 8"

text \<open>All bytes cleared, then the first \<open>k\<close> set to \<open>0xFF\<close>.\<close>

definition reserved_bitmap :: "nat \<Rightarrow> u8 list" where
  "reserved_bitmap k = replicate k 0xFF @ replicate (MAX_BITMAP_BYTES - k) 0"

definition frame_init :: "frame_state \<Rightarrow> frame_state panics" where
  "frame_init s = do {
     tf \<leftarrow> total_frames s;
     let bm_len = div_ceil8 tf;
     Some (s\<lparr>fbitmap := reserved_bitmap (min 32 bm_len), bitmap_len := bm_len,
             total_frames_count := tf, fa_initialized := True\<rparr>)
   }"

text \<open>One iteration of the scan over the memory map: \<open>(best_start, best_end, best_size)\<close>.\<close>

fun best_region :: "u64 \<times> u64 \<times> u64 \<Rightarrow> u64 \<times> u64 \<times> u32 \<Rightarrow> u64 \<times> u64 \<times> u64" where
  "best_region (best_start, best_end, best_size) (start, end, mem_type) =
     (if mem_type \<noteq> 1 then (best_start, best_end, best_size)
      else
        let rstart = max start 0x00100000; rend = min end 0x40000000 in
        if rstart \<ge> rend then (best_start, best_end, best_size)
        else
          let rsize = rend - rstart in
          if rsize > best_size then (rstart, rend, rsize)
          else (best_start, best_end, best_size))"

definition init_from_memory_map ::
  "frame_state \<Rightarrow> (u64 \<times> u64 \<times> u32) list \<Rightarrow> frame_state panics" where
  "init_from_memory_map s memory_map =
     (if fa_initialized s then Some s
      else
        let (best_start, best_end, best_size) =
          foldl best_region (0x02000000, 0x04000000, 0x04000000 - 0x02000000) memory_map
        in do {
          aligned_start \<leftarrow> page_up best_start;
          let aligned_end = page_down best_end;
          if aligned_start \<ge> aligned_end then frame_init s
          else do {
            let tf = unat ((aligned_end - aligned_start) div PAGE_SIZE);
            let bm_len = div_ceil8 tf;
            let effective_len = min bm_len MAX_BITMAP_BYTES;
            let effective_frames = effective_len * 8;
            size \<leftarrow> mul_c (of_nat effective_frames) PAGE_SIZE;
            end \<leftarrow> add_c aligned_start size;
            Some \<lparr>region_start = aligned_start, region_end = end,
              fbitmap = reserved_bitmap
                (if aligned_start < 0x00200000 then min 32 effective_len else 0),
              bitmap_len = effective_len, total_frames_count = effective_frames,
              fa_initialized = True\<rparr>
          }
        })"

text \<open>The bootloader's regions, each with a flag whether its kind is \<open>Usable\<close>.\<close>

definition init_from_boot_info :: "frame_state \<Rightarrow> (u64 \<times> u64 \<times> bool) list \<Rightarrow> frame_state panics" where
  "init_from_boot_info s regions =
     init_from_memory_map s (map (\<lambda>(start, end, usable). (start, end, if usable then 1 else 0)) regions)"

text \<open>The linear scan: byte index and bit of the first clear bit. \<open>Some None\<close>: every byte is full;
  \<open>None\<close>: a byte index past the array.\<close>

fun alloc_scan :: "u8 list \<Rightarrow> nat list \<Rightarrow> (nat \<times> nat) option panics" where
  "alloc_scan bm [] = Some None"
| "alloc_scan bm (i # is) =
     (if length bm \<le> i then None
      else if bm ! i \<noteq> 0xFF then
        (case find (\<lambda>b. bm ! i AND push_bit b 1 = 0) [0..<8] of
           Some b \<Rightarrow> Some (Some (i, b))
         | None \<Rightarrow> alloc_scan bm is)
      else alloc_scan bm is)"

definition alloc_frame :: "frame_state \<Rightarrow> (u64 option \<times> frame_state) panics" where
  "alloc_frame s =
     (case alloc_scan (fbitmap s) [0..<bitmap_len s] of
        None \<Rightarrow> None
      | Some None \<Rightarrow> Some (None, s)
      | Some (Some (i, b)) \<Rightarrow> do {
          let bm = (fbitmap s)[i := fbitmap s ! i OR push_bit b 1];
          off \<leftarrow> mul_c (of_nat (i * 8 + b)) PAGE_SIZE;
          addr \<leftarrow> add_c (region_start s) off;
          _ \<leftarrow> assert_p (addr < region_end s);
          Some (Some addr, s\<lparr>fbitmap := bm\<rparr>)
        })"

definition free_frame :: "frame_state \<Rightarrow> u64 \<Rightarrow> frame_state panics" where
  "free_frame s addr =
     (if addr < region_start s \<or> addr \<ge> region_end s then Some s
      else
        let frame_idx = unat ((addr - region_start s) div PAGE_SIZE);
            byte_idx = frame_idx div 8; bit_idx = frame_idx mod 8 in
        if length (fbitmap s) \<le> byte_idx then None
        else do {
          _ \<leftarrow> assert_p (fbitmap s ! byte_idx AND push_bit bit_idx 1 \<noteq> 0);
          Some (s\<lparr>fbitmap := (fbitmap s)[byte_idx := fbitmap s ! byte_idx AND NOT (push_bit bit_idx 1)]\<rparr>)
        })"

definition frame_count :: "frame_state \<Rightarrow> nat" where
  "frame_count s = total_frames_count s"

definition frame_region_start :: "frame_state \<Rightarrow> u64" where
  "frame_region_start s = region_start s"

definition frame_region_end :: "frame_state \<Rightarrow> u64" where
  "frame_region_end s = region_end s"

subsection \<open>Invariant and abstraction\<close>

definition fa_inv :: "frame_state \<Rightarrow> bool" where
  "fa_inv s \<longleftrightarrow> length (fbitmap s) = MAX_BITMAP_BYTES \<and> bitmap_len s \<le> MAX_BITMAP_BYTES \<and>
     unat (region_start s) mod 4096 = 0 \<and>
     unat (region_end s) = unat (region_start s) + 8 * bitmap_len s * 4096"

text \<open>The indices of the frames in use, and their addresses.\<close>

definition frame_set :: "u8 list \<Rightarrow> nat \<Rightarrow> nat set" where
  "frame_set bm n = {i. i < 8 * n \<and> bit (bm ! (i div 8)) (i mod 8)}"

abbreviation fa_frames :: "frame_state \<Rightarrow> nat set" where
  "fa_frames s \<equiv> frame_set (fbitmap s) (bitmap_len s)"

definition frame_addr :: "frame_state \<Rightarrow> nat \<Rightarrow> u64" where
  "frame_addr s i = region_start s + of_nat i * PAGE_SIZE"

definition fa_used :: "frame_state \<Rightarrow> u64 set" where
  "fa_used s = frame_addr s ` fa_frames s"

subsection \<open>Bits of a byte\<close>

lemma and_bit_zero: "(w AND push_bit b 1 = 0) = (\<not> bit w b)" for w :: u8
  by (simp add: and_exp_eq_0_iff_not_bit)

lemma full_byte: "w = 0xFF \<longleftrightarrow> (\<forall>b < 8. bit w b)" for w :: u8
proof -
  have "w = mask 8 \<longleftrightarrow> (\<forall>b < 8. bit w b)"
    by (auto simp: bit_eq_iff [of w] bit_simps)
  then show ?thesis by (simp add: mask_eq_exp_minus_1)
qed

lemma find_upt: "find p [m..<n] = Some i \<longleftrightarrow> m \<le> i \<and> i < n \<and> p i \<and> (\<forall>j. m \<le> j \<and> j < i \<longrightarrow> \<not> p j)"
proof -
  have "find p [m..<n] = Some i \<longleftrightarrow>
      (\<exists>k < n - m. p (m + k) \<and> i = m + k \<and> (\<forall>j < k. \<not> p (m + j)))"
    by (auto simp: find_Some_iff)
  also have "\<dots> \<longleftrightarrow> m \<le> i \<and> i < n \<and> p i \<and> (\<forall>j. m \<le> j \<and> j < i \<longrightarrow> \<not> p j)"
    (is "?L \<longleftrightarrow> ?R")
  proof
    assume ?L
    then obtain k where k: "k < n - m" "p (m + k)" "i = m + k" "\<forall>j < k. \<not> p (m + j)"
      by blast
    have "\<not> p j" if "m \<le> j" "j < i" for j
      using k(4) [rule_format, of "j - m"] that k(3) by simp
    with k show ?R by auto
  next
    assume R: ?R
    then have "i - m < n - m" "p (m + (i - m))" "i = m + (i - m)" "\<forall>j < i - m. \<not> p (m + j)"
      by auto
    then show ?L by blast
  qed
  finally show ?thesis .
qed

lemma find_upt_None: "find p [m..<n] = None \<longleftrightarrow> (\<forall>j. m \<le> j \<and> j < n \<longrightarrow> \<not> p j)"
  by (auto simp: find_None_iff)

text \<open>The scan finds the lowest clear bit at or after byte \<open>m\<close>.\<close>

lemma alloc_scan_upt:
  assumes "n \<le> length bm" and "m \<le> n"
  shows "(alloc_scan bm [m..<n] = Some None \<and> (\<forall>i. 8 * m \<le> i \<and> i < 8 * n \<longrightarrow> bit (bm ! (i div 8)) (i mod 8))) \<or>
     (\<exists>i b. alloc_scan bm [m..<n] = Some (Some (i, b)) \<and> b < 8 \<and> m \<le> i \<and> i < n \<and>
        \<not> bit (bm ! i) b \<and>
        (\<forall>j. 8 * m \<le> j \<and> j < i * 8 + b \<longrightarrow> bit (bm ! (j div 8)) (j mod 8)))"
  using assms(2)
proof (induction "n - m" arbitrary: m)
  case 0
  then have "m = n" by simp
  then show ?case by auto
next
  case (Suc k)
  then have mn: "m < n" by simp
  then have upt: "[m..<n] = m # [Suc m..<n]" by (simp add: upt_conv_Cons)
  show ?case
  proof (cases "bm ! m = 0xFF")
    case True
    then have full: "8 * m \<le> j \<Longrightarrow> j < 8 * Suc m \<Longrightarrow> bit (bm ! (j div 8)) (j mod 8)" for j
      using full_byte [of "bm ! m"] by (auto simp: div_nat_eqI)
    have eq: "alloc_scan bm [m..<n] = alloc_scan bm [Suc m..<n]"
      using True mn assms(1) by (simp add: upt)
    have low: "\<forall>j. 8 * m \<le> j \<and> j < e \<longrightarrow> bit (bm ! (j div 8)) (j mod 8)"
      if "\<forall>j. 8 * Suc m \<le> j \<and> j < e \<longrightarrow> bit (bm ! (j div 8)) (j mod 8)" for e
      using full that by (meson linorder_not_le)
    have "k = n - Suc m" "Suc m \<le> n" using Suc.hyps(2) mn by simp_all
    from Suc.hyps(1) [OF this] show ?thesis
      unfolding eq using low by (meson Suc_leD)
  next
    case False
    then have "\<not> (\<forall>b < 8. bit (bm ! m) b)" using full_byte by blast
    then have "find (\<lambda>b. bm ! m AND push_bit b 1 = 0) [0..<8] \<noteq> None"
      unfolding find_upt_None and_bit_zero by auto
    then obtain b where b: "find (\<lambda>b. bm ! m AND push_bit b 1 = 0) [0..<8] = Some b"
      by blast
    then have b': "b < 8" "\<not> bit (bm ! m) b" "\<And>j. j < b \<Longrightarrow> bit (bm ! m) j"
      unfolding find_upt and_bit_zero by auto
    have "bit (bm ! (j div 8)) (j mod 8)" if "8 * m \<le> j" "j < m * 8 + b" for j
    proof -
      from that b'(1) obtain r where "j = 8 * m + r" "r < b" "r < 8"
        using le_Suc_ex [of "8 * m" j] by auto
      then show ?thesis using b'(3) by simp
    qed
    then show ?thesis
      using False b b' mn assms(1) by (auto simp: upt simp del: push_bit_of_1)
  qed
qed

subsection \<open>Addresses of frames\<close>

lemma unat_offset:
  assumes "i < 8192"
  shows "unat (of_nat i * PAGE_SIZE :: u64) = 4096 * i"
    and "mul_c (of_nat i :: u64) PAGE_SIZE = Some (of_nat i * PAGE_SIZE)"
proof -
  have "unat (of_nat i :: u64) = i" using assms by (simp add: unat_of_nat_small)
  then show "unat (of_nat i * PAGE_SIZE :: u64) = 4096 * i"
    and "mul_c (of_nat i :: u64) PAGE_SIZE = Some (of_nat i * PAGE_SIZE)"
    using assms by (simp_all add: unat_word_ariths mul_c_def)
qed

lemma fa_inv_index:
  assumes "fa_inv s" and "i < 8 * bitmap_len s"
  shows "i < 8192" and "unat (region_start s) + 4096 * i < unat (region_end s)"
    and "unat (region_start s) + 4096 * i < 2 ^ LENGTH(64)"
proof -
  show "i < 8192" using assms by (simp add: fa_inv_def MAX_BITMAP_BYTES_def)
  show 1: "unat (region_start s) + 4096 * i < unat (region_end s)"
    using assms by (simp add: fa_inv_def)
  also have "\<dots> < 2 ^ LENGTH(64)" by (rule unsigned_less)
  finally show "unat (region_start s) + 4096 * i < 2 ^ LENGTH(64)" .
qed

lemma unat_frame_addr:
  assumes "fa_inv s" and "i < 8 * bitmap_len s"
  shows "unat (frame_addr s i) = unat (region_start s) + 4096 * i"
proof -
  have "unat (frame_addr s i) = (unat (region_start s) + unat (of_nat i * PAGE_SIZE :: u64)) mod 2 ^ LENGTH(64)"
    unfolding frame_addr_def by (rule unat_word_ariths(1))
  also have "\<dots> = (unat (region_start s) + 4096 * i) mod 2 ^ LENGTH(64)"
    by (simp only: unat_offset(1) [OF fa_inv_index(1) [OF assms]])
  also have "\<dots> = unat (region_start s) + 4096 * i"
    by (rule mod_less) (rule fa_inv_index(3) [OF assms])
  finally show ?thesis .
qed

lemma frame_addr_inj:
  assumes "fa_inv s" "i < 8 * bitmap_len s" "j < 8 * bitmap_len s" "frame_addr s i = frame_addr s j"
  shows "i = j"
proof -
  have "unat (region_start s) + 4096 * i = unat (region_start s) + 4096 * j"
    unfolding unat_frame_addr [OF assms(1,2), symmetric] unat_frame_addr [OF assms(1,3), symmetric]
    by (simp only: assms(4))
  then show ?thesis by simp
qed

lemma frame_addr_index:
  assumes "fa_inv s" and "i < 8 * bitmap_len s"
  shows "\<not> (frame_addr s i < region_start s \<or> frame_addr s i \<ge> region_end s)"
    and "unat ((frame_addr s i - region_start s) div PAGE_SIZE) = i"
proof -
  note u = unat_frame_addr [OF assms]
  show "\<not> (frame_addr s i < region_start s \<or> frame_addr s i \<ge> region_end s)"
    using u fa_inv_index(2) [OF assms] by (simp add: word_less_nat_alt word_le_nat_alt)
  then have "region_start s \<le> frame_addr s i" by (simp add: not_less)
  then have "unat (frame_addr s i - region_start s) = 4096 * i"
    using u by (simp add: unat_sub)
  then show "unat ((frame_addr s i - region_start s) div PAGE_SIZE) = i"
    by (simp add: unat_div)
qed

text \<open>Every page-aligned address of the region is the address of a frame.\<close>

lemma frame_addr_surj:
  assumes "fa_inv s" and "region_start s \<le> a" and "a < region_end s"
  obtains i where "i < 8 * bitmap_len s" and "i = unat ((a - region_start s) div PAGE_SIZE)"
    and "unat a mod 4096 = 0 \<Longrightarrow> a = frame_addr s i"
proof
  let ?i = "unat ((a - region_start s) div PAGE_SIZE)"
  have d: "unat (a - region_start s) = unat a - unat (region_start s)"
    using assms(2) by (simp add: unat_sub)
  then have i: "?i = (unat a - unat (region_start s)) div 4096" by (simp add: unat_div)
  have le: "unat (region_start s) \<le> unat a" "unat a < unat (region_end s)"
    using assms(2,3) by (simp_all add: word_less_nat_alt word_le_nat_alt)
  then show "?i < 8 * bitmap_len s"
    using assms(1) unfolding i fa_inv_def by (intro less_mult_imp_div_less) auto
  then have "unat (frame_addr s ?i) = unat (region_start s) + 4096 * ?i"
    by (rule unat_frame_addr [OF assms(1)])
  moreover have "unat a = unat (region_start s) + 4096 * ?i" if "unat a mod 4096 = 0"
  proof -
    have "(unat a - unat (region_start s)) mod 4096 = 0"
      using that assms(1) le(1) by (simp add: fa_inv_def mod_eq_0_iff_dvd dvd_diff_nat)
    then show ?thesis using le(1) unfolding i by (simp add: mod_eq_0_iff_dvd)
  qed
  ultimately show "unat a mod 4096 = 0 \<Longrightarrow> a = frame_addr s ?i"
    by (simp flip: word_unat_eq_iff)
qed simp

subsection \<open>Setting and clearing a bit\<close>

lemma frame_set_update:
  assumes "i < 8 * n" and "n \<le> length bm"
    and w: "\<And>b. b < 8 \<Longrightarrow> bit w b = (if b = i mod 8 then v else bit (bm ! (i div 8)) b)"
  shows "frame_set (bm[i div 8 := w]) n = (if v then insert i (frame_set bm n) else frame_set bm n - {i})"
proof (rule set_eqI)
  fix j
  have len: "i div 8 < length bm" using assms(1,2) by auto
  show "j \<in> frame_set (bm[i div 8 := w]) n \<longleftrightarrow>
      j \<in> (if v then insert i (frame_set bm n) else frame_set bm n - {i})"
  proof (cases "j div 8 = i div 8")
    case same: True
    show ?thesis
    proof (cases "j mod 8 = i mod 8")
      case True
      then have "j = i" using same by (metis div_mult_mod_eq)
      then show ?thesis using assms(1) len w [of "i mod 8"] by (auto simp: frame_set_def)
    next
      case False
      then have "j \<noteq> i" by auto
      then show ?thesis using False same len w [of "j mod 8"] by (auto simp: frame_set_def)
    qed
  next
    case False
    then have "j \<noteq> i" by auto
    then show ?thesis using False by (auto simp: frame_set_def)
  qed
qed

lemma frame_set_set:
  assumes "i < 8 * n" and "n \<le> length bm"
  shows "frame_set (bm[i div 8 := bm ! (i div 8) OR push_bit (i mod 8) 1]) n = insert i (frame_set bm n)"
  by (subst frame_set_update [OF assms, where v = True]) (auto simp: bit_simps simp del: push_bit_of_1)

lemma frame_set_clear:
  assumes "i < 8 * n" and "n \<le> length bm"
  shows "frame_set (bm[i div 8 := bm ! (i div 8) AND NOT (push_bit (i mod 8) 1)]) n = frame_set bm n - {i}"
  by (subst frame_set_update [OF assms, where v = False]) (auto simp: bit_simps simp del: push_bit_of_1)

subsection \<open>The contract of the operations\<close>

lemma fa_inv_update:
  "fa_inv s \<Longrightarrow> length bm = length (fbitmap s) \<Longrightarrow> fa_inv (s\<lparr>fbitmap := bm\<rparr>)"
  by (simp add: fa_inv_def)

lemma fa_inv_len: "fa_inv s \<Longrightarrow> bitmap_len s \<le> length (fbitmap s)"
  by (simp add: fa_inv_def)

text \<open>Marking frame \<open>i\<close> as used, and as free.\<close>

definition mark_frame :: "frame_state \<Rightarrow> nat \<Rightarrow> frame_state" where
  "mark_frame s i = s\<lparr>fbitmap := (fbitmap s)[i div 8 := fbitmap s ! (i div 8) OR push_bit (i mod 8) 1]\<rparr>"

definition unmark_frame :: "frame_state \<Rightarrow> nat \<Rightarrow> frame_state" where
  "unmark_frame s i =
     s\<lparr>fbitmap := (fbitmap s)[i div 8 := fbitmap s ! (i div 8) AND NOT (push_bit (i mod 8) 1)]\<rparr>"

lemma mark_simps [simp]:
  "region_start (mark_frame s i) = region_start s" "region_end (mark_frame s i) = region_end s"
  "bitmap_len (mark_frame s i) = bitmap_len s"
  "region_start (unmark_frame s i) = region_start s" "region_end (unmark_frame s i) = region_end s"
  "bitmap_len (unmark_frame s i) = bitmap_len s"
  "frame_addr (mark_frame s i) = frame_addr s" "frame_addr (unmark_frame s i) = frame_addr s"
  by (simp_all add: mark_frame_def unmark_frame_def frame_addr_def fun_eq_iff)

lemma mark_frames:
  assumes "fa_inv s" and "i < 8 * bitmap_len s"
  shows "fa_frames (mark_frame s i) = insert i (fa_frames s)"
    and "fa_frames (unmark_frame s i) = fa_frames s - {i}"
    and "fa_inv (mark_frame s i)" and "fa_inv (unmark_frame s i)"
  using frame_set_set [OF assms(2) fa_inv_len [OF assms(1)]]
    frame_set_clear [OF assms(2) fa_inv_len [OF assms(1)]] assms(1)
  by (simp_all add: mark_frame_def unmark_frame_def fa_inv_update)

lemma mark_used:
  assumes "fa_inv s" and "i < 8 * bitmap_len s"
  shows "fa_used (mark_frame s i) = insert (frame_addr s i) (fa_used s)"
    and "fa_used (unmark_frame s i) = fa_used s - {frame_addr s i}"
proof -
  show "fa_used (mark_frame s i) = insert (frame_addr s i) (fa_used s)"
    using mark_frames(1) [OF assms] by (simp add: fa_used_def)
  have "inj_on (frame_addr s) {..<8 * bitmap_len s}"
    using frame_addr_inj [OF assms(1)] by (auto intro: inj_onI)
  moreover have "fa_frames s \<subseteq> {..<8 * bitmap_len s}"
    by (auto simp: frame_set_def)
  ultimately have "frame_addr s ` (fa_frames s - {i}) = frame_addr s ` fa_frames s - frame_addr s ` {i}"
    using assms(2) by (intro inj_on_image_set_diff [where C = "{..<8 * bitmap_len s}"]) auto
  then show "fa_used (unmark_frame s i) = fa_used s - {frame_addr s i}"
    using mark_frames(2) [OF assms] by (simp add: fa_used_def)
qed

lemma alloc_frame_cases:
  assumes "fa_inv s"
  shows "(alloc_frame s = Some (None, s) \<and> fa_frames s = {..<8 * bitmap_len s}) \<or>
    (\<exists>i < 8 * bitmap_len s. i \<notin> fa_frames s \<and> (\<forall>j < i. j \<in> fa_frames s) \<and>
       alloc_frame s = Some (Some (frame_addr s i), mark_frame s i))"
proof -
  have len: "bitmap_len s \<le> length (fbitmap s)" using assms by (rule fa_inv_len)
  show ?thesis
    using alloc_scan_upt [OF len le0]
  proof (elim disjE exE conjE)
    assume "alloc_scan (fbitmap s) [0..<bitmap_len s] = Some None"
      and "\<forall>i. 8 * 0 \<le> i \<and> i < 8 * bitmap_len s \<longrightarrow> bit (fbitmap s ! (i div 8)) (i mod 8)"
    then show ?thesis by (auto simp: alloc_frame_def frame_set_def)
  next
    fix i b
    assume scan: "alloc_scan (fbitmap s) [0..<bitmap_len s] = Some (Some (i, b))"
      and b: "b < 8" "i < bitmap_len s" "\<not> bit (fbitmap s ! i) b"
      and low: "\<forall>j. 8 * 0 \<le> j \<and> j < i * 8 + b \<longrightarrow> bit (fbitmap s ! (j div 8)) (j mod 8)"
    let ?k = "i * 8 + b"
    have k: "?k < 8 * bitmap_len s" "?k div 8 = i" "?k mod 8 = b" using b by auto
    note ix = fa_inv_index [OF assms k(1)]
    have "add_c (region_start s) (of_nat ?k * PAGE_SIZE) = Some (frame_addr s ?k)"
      unfolding add_c_def unat_offset(1) [OF ix(1)] using ix(3) by (simp only: frame_addr_def if_True)
    then have "alloc_frame s = Some (Some (frame_addr s ?k), mark_frame s ?k)"
      using frame_addr_index(1) [OF assms k(1)] k unat_offset(2) [OF ix(1)]
      by (simp add: alloc_frame_def scan assert_p_bind mark_frame_def not_less
          del: push_bit_of_1 of_nat_add of_nat_mult)
    moreover have "?k \<notin> fa_frames s" "\<forall>j < ?k. j \<in> fa_frames s"
      using b k low by (auto simp: frame_set_def)
    ultimately show ?thesis using k(1) by blast
  qed
qed

lemma free_frame_in_region:
  assumes "fa_inv s" and "i < 8 * bitmap_len s"
  shows "region_start s \<le> a \<Longrightarrow> a < region_end s \<Longrightarrow> i = unat ((a - region_start s) div PAGE_SIZE) \<Longrightarrow>
    free_frame s a = (if i \<in> fa_frames s then Some (unmark_frame s i) else None)"
  using assms fa_inv_len [OF assms(1)]
  by (auto simp: free_frame_def Let_def and_bit_zero assert_p_bind frame_set_def unmark_frame_def not_less not_le
      simp del: push_bit_of_1)

lemma free_frame_addr:
  assumes "fa_inv s" and "i < 8 * bitmap_len s"
  shows "free_frame s (frame_addr s i) = (if i \<in> fa_frames s then Some (unmark_frame s i) else None)"
proof (rule free_frame_in_region [OF assms])
  show "region_start s \<le> frame_addr s i" "frame_addr s i < region_end s"
    using frame_addr_index(1) [OF assms] by (simp_all add: not_less not_le)
qed (simp only: frame_addr_index(2) [OF assms])

text \<open>The frames the allocator manages.\<close>

definition fa_pool :: "frame_state \<Rightarrow> u64 set" where
  "fa_pool s = frame_addr s ` {..<8 * bitmap_len s}"

lemma fa_pool_mark [simp]: "fa_pool (mark_frame s i) = fa_pool s" "fa_pool (unmark_frame s i) = fa_pool s"
  by (simp_all add: fa_pool_def)

lemma fa_used_pool: "fa_used s \<subseteq> fa_pool s"
  by (auto simp: fa_used_def fa_pool_def frame_set_def)

lemma fa_used_iff:
  assumes "fa_inv s" and "i < 8 * bitmap_len s"
  shows "frame_addr s i \<in> fa_used s \<longleftrightarrow> i \<in> fa_frames s"
  using frame_addr_inj [OF assms(1)] assms(2) by (auto simp: fa_used_def frame_set_def)

lemma fa_used_obtain:
  assumes "a \<in> fa_used s"
  obtains i where "i < 8 * bitmap_len s" "i \<in> fa_frames s" "a = frame_addr s i"
  using assms by (auto simp: fa_used_def frame_set_def)

lemma alloc_frame_law:
  assumes "fa_inv s"
  shows "(alloc_frame s = Some (None, s) \<and> fa_used s = fa_pool s) \<or>
    (\<exists>a s'. alloc_frame s = Some (Some a, s') \<and> fa_inv s' \<and> a \<in> fa_pool s - fa_used s \<and>
       fa_used s' = insert a (fa_used s) \<and> fa_pool s' = fa_pool s)"
  using alloc_frame_cases [OF assms]
proof (elim disjE exE conjE)
  fix i assume i: "i < 8 * bitmap_len s" "i \<notin> fa_frames s"
    and "alloc_frame s = Some (Some (frame_addr s i), mark_frame s i)"
  then show ?thesis
    using mark_used(1) [OF assms i(1)] mark_frames(3) [OF assms i(1)] fa_used_iff [OF assms i(1)]
    by (auto simp: fa_pool_def)
qed (simp add: fa_used_def fa_pool_def)

lemma free_frame_law:
  assumes "fa_inv s" and "a \<in> fa_used s"
  shows "\<exists>s'. free_frame s a = Some s' \<and> fa_inv s' \<and> fa_used s' = fa_used s - {a} \<and> fa_pool s' = fa_pool s"
proof -
  obtain i where i: "i < 8 * bitmap_len s" "i \<in> fa_frames s" "a = frame_addr s i"
    using assms(2) by (rule fa_used_obtain)
  have "free_frame s a = Some (unmark_frame s i)"
    using free_frame_addr [OF assms(1) i(1)] i(2,3) by simp
  then show ?thesis
    using mark_used(2) [OF assms(1) i(1)] mark_frames(4) [OF assms(1) i(1)] i(3) by simp
qed

subsection \<open>The interface of the allocator\<close>

text \<open>A client that keeps the documented contract: it frees only frames it holds. \<open>Give_back n\<close>
  frees the \<open>n\<close>-th frame held, if there is one.\<close>

datatype frame_op = Take | Give_back nat

fun frame_client ::
  "('s \<Rightarrow> (u64 option \<times> 's) panics) \<Rightarrow> ('s \<Rightarrow> u64 \<Rightarrow> 's panics) \<Rightarrow> frame_op list \<Rightarrow>
   u64 list \<Rightarrow> 's \<Rightarrow> (u64 list \<times> 's) panics" where
  "frame_client alloc free [] held s = Some (held, s)"
| "frame_client alloc free (Take # ops) held s = do {
     (r, s') \<leftarrow> alloc s;
     frame_client alloc free ops (case r of None \<Rightarrow> held | Some a \<Rightarrow> a # held) s'
   }"
| "frame_client alloc free (Give_back n # ops) held s =
     (if n < length held then do {
        s' \<leftarrow> free s (held ! n);
        frame_client alloc free ops (remove_at n held) s'
      } else frame_client alloc free ops held s)"

locale frame_allocator =
  fixes alloc :: "'s \<Rightarrow> (u64 option \<times> 's) panics"
    and free :: "'s \<Rightarrow> u64 \<Rightarrow> 's panics"
    and used :: "'s \<Rightarrow> u64 set"
    and pool :: "'s \<Rightarrow> u64 set"
    and inv :: "'s \<Rightarrow> bool"
  assumes alloc_law: "inv s \<Longrightarrow> (alloc s = Some (None, s) \<and> used s = pool s) \<or>
      (\<exists>a s'. alloc s = Some (Some a, s') \<and> inv s' \<and> a \<in> pool s - used s \<and>
         used s' = insert a (used s) \<and> pool s' = pool s)"
    and free_law: "inv s \<Longrightarrow> a \<in> used s \<Longrightarrow>
      \<exists>s'. free s a = Some s' \<and> inv s' \<and> used s' = used s - {a} \<and> pool s' = pool s"
    and used_pool: "used s \<subseteq> pool s"
    and finite_pool: "finite (pool s)"
begin

lemma client_exclusive:
  assumes "inv s" and "distinct held" and "used s = base \<union> set held" and "base \<inter> set held = {}"
  shows "\<exists>held' s'. frame_client alloc free ops held s = Some (held', s') \<and> inv s' \<and> distinct held' \<and>
    used s' = base \<union> set held' \<and> base \<inter> set held' = {} \<and> pool s' = pool s"
  using assms
proof (induction ops arbitrary: held s)
  case Nil
  then show ?case by simp
next
  case (Cons oper ops)
  show ?case
  proof (cases oper)
    case Take
    from alloc_law [OF Cons.prems(1)] show ?thesis
    proof (elim disjE exE conjE)
      fix a s' assume a: "alloc s = Some (Some a, s')" "inv s'" "a \<in> pool s - used s"
        "used s' = insert a (used s)" "pool s' = pool s"
      then show ?thesis
        using Cons.IH [OF a(2), of "a # held"] Cons.prems used_pool [of s] Take by simp
    next
      assume "alloc s = Some (None, s)"
      then show ?thesis using Cons.IH [OF Cons.prems] Take by simp
    qed
  next
    case (Give_back n)
    show ?thesis
    proof (cases "n < length held")
      case True
      then obtain s' where s': "free s (held ! n) = Some s'" "inv s'" "used s' = used s - {held ! n}"
        "pool s' = pool s"
        using free_law [OF Cons.prems(1), of "held ! n"] Cons.prems(3) by auto
      have "set (remove_at n held) = set held - {held ! n}"
        using Cons.prems(2) True by (rule set_remove_at_distinct)
      then have "used s' = base \<union> set (remove_at n held)" "base \<inter> set (remove_at n held) = {}"
        "distinct (remove_at n held)"
        using Cons.prems True s'(3) by (auto simp: distinct_remove_at)
      then show ?thesis
        using Cons.IH [OF s'(2)] s' True Give_back by simp
    next
      case False
      then show ?thesis using Cons.IH [OF Cons.prems] Give_back by simp
    qed
  qed
qed

end

interpretation fa: frame_allocator alloc_frame free_frame fa_used fa_pool fa_inv
proof unfold_locales
  show "fa_used s \<subseteq> fa_pool s" for s by (rule fa_used_pool)
  show "finite (fa_pool s)" for s by (simp add: fa_pool_def)
qed (rule alloc_frame_law free_frame_law, assumption+)+

subsection \<open>Initialisation\<close>

text \<open>What the scan keeps of its candidate: at least 32 MiB inside \<open>[1 MiB, 1 GiB)\<close>, and either the
  default region or inside a usable entry of the map.\<close>

definition map_candidate :: "(u64 \<times> u64 \<times> u32) list \<Rightarrow> u64 \<times> u64 \<times> u64 \<Rightarrow> bool" where
  "map_candidate m c \<longleftrightarrow> (case c of (bs, be, sz) \<Rightarrow>
     bs < be \<and> sz = be - bs \<and> 0x02000000 \<le> sz \<and> 0x00100000 \<le> bs \<and> be \<le> 0x40000000 \<and>
     ((bs, be) = (0x02000000, 0x04000000) \<or>
      (\<exists>st en. (st, en, 1) \<in> set m \<and> st \<le> bs \<and> be \<le> en \<and>
         (bs = st \<or> bs = 0x00100000) \<and> (be = en \<or> be = 0x40000000))))"

lemma best_region_cases:
  fixes st en :: u64
  defines "ms \<equiv> max st 0x00100000" and "me \<equiv> min en 0x40000000"
  shows "best_region (bs, be, sz) (st, en, ty) = (bs, be, sz) \<or>
    ty = 1 \<and> ms < me \<and> sz < me - ms \<and> best_region (bs, be, sz) (st, en, ty) = (ms, me, me - ms)"
  unfolding best_region.simps ms_def [symmetric] me_def [symmetric] Let_def by auto

lemma map_candidate_step:
  assumes "map_candidate m c" and "e \<in> set m"
  shows "map_candidate m (best_region c e)"
proof -
  obtain bs be sz where c: "c = (bs, be, sz)" by (cases c)
  obtain st en ty where e: "e = (st, en, ty)" by (cases e)
  consider "best_region c e = c" |
    "ty = 1" "max st 0x00100000 < min en 0x40000000"
    "sz < min en 0x40000000 - max st 0x00100000"
    "best_region c e = (max st 0x00100000, min en 0x40000000, min en 0x40000000 - max st 0x00100000)"
    using best_region_cases [of bs be sz st en ty] unfolding c e by blast
  then show ?thesis
  proof cases
    case 1
    then show ?thesis using assms(1) by simp
  next
    case 2
    have "0x02000000 \<le> sz" using assms(1) by (auto simp: c map_candidate_def)
    then have "0x02000000 \<le> min en 0x40000000 - max st 0x00100000" using 2(3) by (rule order.trans [OF _ less_imp_le])
    moreover have "(st, en, 1) \<in> set m" using assms(2) e 2(1) by simp
    moreover have "st \<le> max st 0x00100000" "0x00100000 \<le> max st 0x00100000"
      "min en 0x40000000 \<le> en" "min en 0x40000000 \<le> 0x40000000"
      "max st 0x00100000 = st \<or> max st 0x00100000 = 0x00100000"
      "min en 0x40000000 = en \<or> min en 0x40000000 = 0x40000000"
      by (simp_all, simp_all add: max_def min_def)
    ultimately show ?thesis
      unfolding 2(4) map_candidate_def prod.case using 2(2) by blast
  qed
qed

lemma map_candidate_fold:
  "set es \<subseteq> set m \<Longrightarrow> map_candidate m c \<Longrightarrow> map_candidate m (foldl best_region c es)"
  by (induction es arbitrary: c) (auto simp: map_candidate_step)

lemma map_candidate_default: "map_candidate m (0x02000000, 0x04000000, 0x04000000 - 0x02000000)"
  by (simp add: map_candidate_def)

text \<open>A candidate holds at least 8191 whole frames, so the bitmap is always used in full.\<close>

lemma candidate_frames:
  fixes a b :: nat
  assumes "a + 0x2000000 \<le> b"
  shows "8191 \<le> (b div 4096 * 4096 - (a + 4095) div 4096 * 4096) div 4096"
proof -
  have "(a + 4095) div 4096 + 8191 \<le> b div 4096"
    using assms by linarith
  moreover have "(b div 4096 * 4096 - (a + 4095) div 4096 * 4096) div 4096 = b div 4096 - (a + 4095) div 4096"
    by (simp flip: diff_mult_distrib)
  ultimately show ?thesis by linarith
qed

lemma page_up_small:
  assumes "x < 0x40000000"
  shows "\<exists>y. page_up x = Some y \<and> unat y = (unat x + 4095) div 4096 * 4096"
proof -
  have "unat x < 0x40000000" using assms by (simp add: word_less_nat_alt)
  then have "unat x + unat PAGE_SIZE < 2 ^ LENGTH(64)" by simp
  then have y: "add_c x PAGE_SIZE = Some (x + PAGE_SIZE)" by (simp only: add_c_def if_True)
  let ?y = "x + PAGE_SIZE"
  have "unat ?y = unat x + 4096" using add_c_unat [OF y] unat_PAGE_SIZE by (simp only:)
  then have "1 \<le> ?y" by (simp add: word_le_nat_alt)
  then have "page_up x = Some (page_down (?y - 1))" by (simp only: page_up_def y sub_c_def if_True bind.bind_lunit)
  then show ?thesis using page_up_unat(1) by blast
qed

lemma map_candidate_size:
  assumes "map_candidate m (bs, be, sz)"
  shows "unat bs + 0x2000000 \<le> unat be" and "bs < 0x40000000" and "be \<le> 0x40000000"
    and "0x00100000 \<le> bs"
proof -
  have c: "bs < be" "sz = be - bs" "0x02000000 \<le> sz" "0x00100000 \<le> bs" "be \<le> 0x40000000"
    using assms by (auto simp: map_candidate_def)
  then show "be \<le> 0x40000000" "0x00100000 \<le> bs" by blast+
  show "bs < 0x40000000" using c(1,5) by (rule less_le_trans)
  have "unat sz = unat be - unat bs" using c(1,2) by (simp add: unat_sub)
  moreover have "0x02000000 \<le> unat sz" using c(3) by (simp add: word_le_nat_alt)
  ultimately show "unat bs + 0x2000000 \<le> unat be" by linarith
qed

definition region_at :: "u64 \<Rightarrow> frame_state" where
  "region_at a = \<lparr>region_start = a, region_end = a + 0x2000000,
     fbitmap = reserved_bitmap (if a < 0x00200000 then 32 else 0),
     bitmap_len = 1024, total_frames_count = 8192, fa_initialized = True\<rparr>"

lemma unat_region_end:
  assumes "unat a \<le> 0x40000000"
  shows "unat (a + 0x2000000 :: u64) = unat a + 0x2000000"
    and "add_c a 0x2000000 = Some (a + 0x2000000)"
proof -
  have "unat a + unat (0x2000000 :: u64) < 2 ^ LENGTH(64)" using assms by simp
  then show 1: "add_c a 0x2000000 = Some (a + 0x2000000)" by (simp only: add_c_def if_True)
  show "unat (a + 0x2000000 :: u64) = unat a + 0x2000000" using add_c_unat [OF 1] by simp
qed

lemma memory_map_region:
  assumes "\<not> fa_initialized s"
  shows "\<exists>bs be sz a. map_candidate m (bs, be, sz) \<and> unat a = (unat bs + 4095) div 4096 * 4096 \<and>
    init_from_memory_map s m = Some (region_at a)"
proof -
  obtain bs be sz where f:
    "foldl best_region (0x02000000, 0x04000000, 0x04000000 - 0x02000000) m = (bs, be, sz)"
    by (metis prod_cases3)
  have cand: "map_candidate m (bs, be, sz)"
    using map_candidate_fold [OF subset_refl map_candidate_default, of m] f by simp
  note c = map_candidate_size [OF cand]
  obtain a where a: "page_up bs = Some a" "unat a = (unat bs + 4095) div 4096 * 4096"
    using page_up_small [OF c(2)] by blast
  let ?tf = "unat ((page_down be - a) div PAGE_SIZE)"
  have "8191 \<le> (unat (page_down be) - unat a) div 4096"
    using candidate_frames [OF c(1)] by (simp add: a(2) unat_page_down)
  then have lt: "unat a < unat (page_down be)" by (cases "unat a < unat (page_down be)") auto
  then have "unat (page_down be - a) = unat (page_down be) - unat a"
    by (intro unat_sub) (simp add: word_le_nat_alt)
  then have "8191 \<le> ?tf" using \<open>8191 \<le> _\<close> by (simp add: unat_div)
  then have len: "min (div_ceil8 ?tf) MAX_BITMAP_BYTES = 1024"
    by (simp add: div_ceil8_def MAX_BITMAP_BYTES_def)
  have "unat a \<le> 0x40000000"
  proof -
    have "unat (page_down be) \<le> unat be" by (simp add: unat_page_down)
    moreover have "unat be \<le> 0x40000000" using c(3) by (simp add: word_le_nat_alt)
    ultimately show ?thesis using lt by linarith
  qed
  note add = unat_region_end(2) [OF this]
  have mul: "mul_c (of_nat (1024 * 8)) PAGE_SIZE = Some 0x2000000"
    by (simp add: mul_c_def PAGE_SIZE_def)
  have "init_from_memory_map s m = Some (region_at a)"
    unfolding init_from_memory_map_def f prod.case a(1) bind.bind_lunit Let_def len mul add
    using assms lt by (simp add: word_le_nat_alt region_at_def min_def)
  then show ?thesis using cand a(2) by blast
qed

lemma region_at_inv:
  assumes "unat a \<le> 0x40000000" and "unat a mod 4096 = 0"
  shows "fa_inv (region_at a)"
  using unat_region_end(1) [OF assms(1)] assms
  by (simp add: fa_inv_def region_at_def reserved_bitmap_def MAX_BITMAP_BYTES_def)

subsection \<open>Properties\<close>

lemma unmark_mark:
  assumes "fa_inv s" and "i < 8 * bitmap_len s" and "i \<notin> fa_frames s"
  shows "unmark_frame (mark_frame s i) i = s"
proof -
  let ?w = "fbitmap s ! (i div 8)"
  have "\<not> bit ?w (i mod 8)" using assms(2,3) by (simp add: frame_set_def)
  then have w: "(?w OR push_bit (i mod 8) 1) AND NOT (push_bit (i mod 8) 1) = ?w"
    by (intro bit_word_eqI) (auto simp: bit_simps simp del: push_bit_of_1)
  have "i div 8 < length (fbitmap s)" using assms(2) fa_inv_len [OF assms(1)] by auto
  then show ?thesis
    using w by (simp add: mark_frame_def unmark_frame_def del: push_bit_of_1)
qed

lemma fa_pool_frame:
  assumes "fa_inv s" and "a \<in> fa_pool s"
  shows "region_start s \<le> a" and "a < region_end s" and "unat a mod 4096 = 0"
proof -
  obtain i where i: "i < 8 * bitmap_len s" "a = frame_addr s i"
    using assms(2) by (auto simp: fa_pool_def)
  then show "region_start s \<le> a" "a < region_end s"
    using frame_addr_index(1) [OF assms(1) i(1)] by (simp_all add: not_less not_le)
  have "unat (region_start s) mod 4096 = 0" using assms(1) by (simp add: fa_inv_def)
  then show "unat a mod 4096 = 0"
    unfolding i(2) unat_frame_addr [OF assms(1) i(1)] by simp
qed

text \<open>C23: \<open>alloc_frame\<close> never panics on a well-formed allocator. It reports exhaustion only when every
  frame is in use, and then changes nothing. Otherwise it returns the lowest free frame of the
  region, page-aligned and inside the bounds, marks exactly that frame, and freeing it at once gives
  back the state before.\<close>

theorem alloc_frame_spec:
  assumes "fa_inv s"
  shows "case alloc_frame s of
      None \<Rightarrow> False
    | Some (None, s') \<Rightarrow> s' = s \<and> fa_used s = fa_pool s
    | Some (Some a, s') \<Rightarrow> fa_inv s' \<and> a \<in> fa_pool s - fa_used s \<and>
        (\<forall>b \<in> fa_pool s - fa_used s. a \<le> b) \<and> fa_used s' = insert a (fa_used s) \<and>
        region_start s \<le> a \<and> a < region_end s \<and> unat a mod 4096 = 0 \<and> free_frame s' a = Some s"
  using alloc_frame_cases [OF assms]
proof (elim disjE exE conjE)
  assume "alloc_frame s = Some (None, s)" "fa_frames s = {..<8 * bitmap_len s}"
  then show ?thesis by (simp add: fa_used_def fa_pool_def)
next
  fix i assume i: "i < 8 * bitmap_len s" "i \<notin> fa_frames s" "\<forall>j < i. j \<in> fa_frames s"
    "alloc_frame s = Some (Some (frame_addr s i), mark_frame s i)"
  have pool: "frame_addr s i \<in> fa_pool s - fa_used s"
    using i(1,2) fa_used_iff [OF assms i(1)] by (auto simp: fa_pool_def)
  have "frame_addr s i \<le> b" if b: "b \<in> fa_pool s - fa_used s" for b
  proof -
    obtain j where j: "j < 8 * bitmap_len s" "b = frame_addr s j"
      using b by (auto simp: fa_pool_def)
    then have "i \<le> j" using b i(3) fa_used_iff [OF assms j(1)] by (auto simp: not_less [symmetric])
    then show ?thesis
      unfolding j(2) word_le_nat_alt unat_frame_addr [OF assms i(1)] unat_frame_addr [OF assms j(1)] by simp
  qed
  moreover have "free_frame (mark_frame s i) (frame_addr s i) = Some s"
    using free_frame_addr [OF mark_frames(3) [OF assms i(1)], of i] mark_frames(1) [OF assms i(1)]
      unmark_mark [OF assms i(1,2)] i(1) by simp
  ultimately show ?thesis
    using i(4) pool fa_pool_frame [OF assms, of "frame_addr s i"] mark_used(1) [OF assms i(1)]
      mark_frames(3) [OF assms i(1)] by simp
qed

lemma region_at_example_inv: "fa_inv (region_at 0x02000000)"
  by (rule region_at_inv) simp_all

theorem alloc_frame_spec_witness:
  "fa_inv (region_at 0x02000000) \<and> (case alloc_frame (region_at 0x02000000) of None \<Rightarrow> False | Some _ \<Rightarrow> True)"
  using alloc_frame_spec [OF region_at_example_inv] region_at_example_inv
  by (auto split: option.splits)

lemma page_down_frame:
  assumes "fa_inv s" and "region_start s \<le> a" and "a < region_end s"
  shows "page_down a = frame_addr s (unat ((a - region_start s) div PAGE_SIZE))"
    and "unat ((a - region_start s) div PAGE_SIZE) < 8 * bitmap_len s"
proof -
  let ?i = "unat ((a - region_start s) div PAGE_SIZE)"
  show i: "?i < 8 * bitmap_len s"
    using frame_addr_surj [OF assms] by blast
  have le: "unat (region_start s) \<le> unat a" using assms(2) by (simp add: word_le_nat_alt)
  have "?i = (unat a - unat (region_start s)) div 4096"
    using assms(2) by (simp add: unat_div unat_sub)
  moreover obtain k where k: "unat (region_start s) = 4096 * k"
    using assms(1) by (auto simp: fa_inv_def)
  moreover obtain r where "unat a = 4096 * k + r" using le k le_Suc_ex by metis
  ultimately have "unat (region_start s) + 4096 * ?i = unat a div 4096 * 4096" by simp
  then have "unat (page_down a) = unat (frame_addr s ?i)"
    by (simp only: unat_page_down unat_frame_addr [OF assms(1) i])
  then show "page_down a = frame_addr s ?i" by (simp only: word_unat_eq_iff)
qed

text \<open>\<open>free_frame\<close> on every branch. An address outside the region is ignored; inside it, a frame in
  use is given back and nothing else changes, and a frame that is not in use (a double free) stops
  the kernel. An address inside a page frees the frame that contains it.\<close>

theorem free_frame_spec:
  assumes "fa_inv s"
  shows "case free_frame s a of
      None \<Rightarrow> region_start s \<le> a \<and> a < region_end s \<and> page_down a \<notin> fa_used s
    | Some s' \<Rightarrow> fa_inv s' \<and>
        (if region_start s \<le> a \<and> a < region_end s
         then page_down a \<in> fa_used s \<and> fa_used s' = fa_used s - {page_down a}
         else s' = s)"
proof (cases "region_start s \<le> a \<and> a < region_end s")
  case True
  let ?i = "unat ((a - region_start s) div PAGE_SIZE)"
  note p = page_down_frame [OF assms True [THEN conjunct1] True [THEN conjunct2]]
  have "free_frame s a = (if ?i \<in> fa_frames s then Some (unmark_frame s ?i) else None)"
    using True by (intro free_frame_in_region [OF assms p(2)]) auto
  then show ?thesis
    using True mark_used(2) [OF assms p(2)] mark_frames(4) [OF assms p(2)] fa_used_iff [OF assms p(2)]
    by (simp add: p(1))
next
  case False
  then have "free_frame s a = Some s" by (auto simp: free_frame_def not_le not_less)
  then show ?thesis using assms False by auto
qed

theorem free_frame_spec_witness:
  "fa_inv (region_at 0x02000000) \<and>
   (case free_frame (region_at 0x02000000) 0x1000 of None \<Rightarrow> False | Some s' \<Rightarrow> s' = region_at 0x02000000)"
  using free_frame_spec [OF region_at_example_inv, where a = "0x1000"] region_at_example_inv
  by (simp add: region_at_def split: option.splits)

text \<open>C2: Frames are never handed out twice. Whatever sequence of allocations and frees a client that
  keeps the contract makes, the allocator does not panic, the frames the client holds are pairwise
  different and differ from every frame that was in use before, and the frames in use are exactly
  those two groups.\<close>

theorem frames_exclusive:
  assumes "fa_inv s"
  shows "\<exists>held s'. frame_client alloc_frame free_frame ops [] s = Some (held, s') \<and> fa_inv s' \<and>
    distinct held \<and> fa_used s' = fa_used s \<union> set held \<and> fa_used s \<inter> set held = {}"
  using fa.client_exclusive [of s "[]" "fa_used s" ops] assms by auto

theorem frames_exclusive_witness:
  "fa_inv (region_at 0x02000000) \<and>
   (\<exists>held s'. frame_client alloc_frame free_frame [Take, Take, Give_back 0, Take] [] (region_at 0x02000000) =
      Some (held, s') \<and> distinct held)"
  using frames_exclusive [OF region_at_example_inv, where ops = "[Take, Take, Give_back 0, Take]"] region_at_example_inv
  by blast

text \<open>\<open>init_from_memory_map\<close> on a page-aligned memory map. It does not panic, establishes the
  invariant with all 8192 frames of the bitmap, and the region it manages lies between 1 MiB and
  1 GiB, inside one usable entry of the map or equal to the default 32-64 MiB region.\<close>

theorem memory_map_usable:
  assumes "\<not> fa_initialized s"
    and "\<forall>(st, en, ty) \<in> set m. unat st mod 4096 = 0 \<and> unat en mod 4096 = 0"
  shows "\<exists>s'. init_from_memory_map s m = Some s' \<and> fa_inv s' \<and> frame_count s' = 8192 \<and>
    0x00100000 \<le> frame_region_start s' \<and> frame_region_end s' \<le> 0x40000000 \<and>
    ((frame_region_start s', frame_region_end s') = (0x02000000, 0x04000000) \<or>
     (\<exists>st en. (st, en, 1) \<in> set m \<and> st \<le> frame_region_start s' \<and> frame_region_end s' \<le> en))"
proof -
  obtain bs be sz a where m: "map_candidate m (bs, be, sz)" "unat a = (unat bs + 4095) div 4096 * 4096"
    "init_from_memory_map s m = Some (region_at a)"
    using memory_map_region [OF assms(1)] by blast
  note c = map_candidate_size [OF m(1)]
  have "unat bs mod 4096 = 0"
    using m(1) assms(2) by (auto simp: map_candidate_def)
  then have "unat a = unat bs" unfolding m(2) by auto
  then have a: "a = bs" by (simp only: word_unat_eq_iff)
  have lim: "unat bs \<le> 0x40000000" using c(2) by (simp add: word_less_nat_alt)
  note e = unat_region_end(1) [OF lim]
  have "bs + 0x2000000 \<le> be" using c(1) e by (simp add: word_le_nat_alt)
  moreover have "(bs, be) = (0x02000000, 0x04000000) \<or> (\<exists>st en. (st, en, 1) \<in> set m \<and> st \<le> bs \<and> be \<le> en)"
    using m(1) by (auto simp: map_candidate_def)
  moreover have "fa_inv (region_at bs)"
    using lim \<open>unat bs mod 4096 = 0\<close> by (rule region_at_inv)
  ultimately show ?thesis
    using m(3) a c(3,4)
    by (auto simp: region_at_def frame_count_def frame_region_start_def frame_region_end_def
        intro: order_trans)
qed

theorem memory_map_usable_witness:
  "\<not> fa_initialized frame_statics \<and>
   (\<exists>s'. init_from_memory_map frame_statics [(0x100000, 0x8000000, 1), (0, 0x9F000, 1)] = Some s' \<and> fa_inv s')"
  using memory_map_usable [of frame_statics "[(0x100000, 0x8000000, 1), (0, 0x9F000, 1)]"]
  by (simp add: frame_statics_def) blast

text \<open>On a map whose usable entry is not page-aligned the managed region can run past that entry:
  rounding the number of frames up to a multiple of eight gives back the frame that rounding the end
  down had removed. Here usable memory ends at \<open>0x2100002\<close> and the allocator manages the whole page
  at \<open>0x2100000\<close>.\<close>

theorem memory_map_overshoot:
  "\<exists>s'. init_from_memory_map frame_statics [(0x100001, 0x2100002, 1)] = Some s' \<and>
     0x2100000 \<in> fa_pool s' \<and> frame_region_end s' = 0x2101000"
proof -
  have up: "page_up 0x100001 = Some 0x101000" and down: "page_down 0x2100002 = 0x2100000"
    by (simp_all add: page_up_def page_down_def add_c_def sub_c_def PAGE_SIZE_def)
  have best: "best_region (0x02000000, 0x04000000, 0x04000000 - 0x02000000) (0x100001, 0x2100002, 1) =
      (0x100001, 0x2100002, 0x2000001)"
    by (simp add: Let_def max_def min_def)
  have "init_from_memory_map frame_statics [(0x100001, 0x2100002, 1)] = Some (region_at 0x101000)"
    unfolding init_from_memory_map_def foldl.simps best
    by (simp add: up down Let_def frame_statics_def region_at_def PAGE_SIZE_def div_ceil8_def
        MAX_BITMAP_BYTES_def mul_c_def add_c_def)
  moreover have "frame_addr (region_at 0x101000) 8191 = 0x2100000"
    by (simp add: frame_addr_def region_at_def PAGE_SIZE_def)
  then have "0x2100000 \<in> fa_pool (region_at 0x101000)"
    unfolding fa_pool_def by (intro image_eqI [where x = 8191]) (simp_all add: region_at_def)
  ultimately show ?thesis by (simp add: frame_region_end_def region_at_def)
qed

end
