(* ===== verification/Vma.thy ===== *)
theory Vma
  imports Kernel_Prelude
begin

text \<open>
  Virtual memory areas: \<open>kernel/src/memory/vma.rs\<close>. A process keeps a vector of regions. \<open>add\<close> refuses
  a region that overlaps one of the list, \<open>validate_access\<close> walks the pages of a user buffer, and
  \<open>extend_heap\<close> moves the program break. The end of a region is computed with a checked addition, so
  the operations that look at it can stop the kernel. The file system behind a mapping is an
  \<open>Arc<dyn FileSystem>\<close>; the module never calls it, so it is only an identity here.
\<close>

record vma_flags =
  vf_read :: bool
  vf_write :: bool
  vf_execute :: bool

definition RDONLY :: vma_flags where
  "RDONLY = \<lparr>vf_read = True, vf_write = False, vf_execute = False\<rparr>"

definition RW :: vma_flags where
  "RW = \<lparr>vf_read = True, vf_write = True, vf_execute = False\<rparr>"

definition RX :: vma_flags where
  "RX = \<lparr>vf_read = True, vf_write = False, vf_execute = True\<rparr>"

datatype vma_type = Code | Data | Stack | Heap | Mmap | FileMmap

datatype mmap_flags = MmapFlags u64

definition MAP_ANONYMOUS :: mmap_flags where "MAP_ANONYMOUS = MmapFlags 0x10"
definition MAP_FIXED :: mmap_flags where "MAP_FIXED = MmapFlags 0x100"
definition MAP_POPULATE :: mmap_flags where "MAP_POPULATE = MmapFlags 0x200"
definition MAP_PRIVATE :: mmap_flags where "MAP_PRIVATE = MmapFlags 0x02"
definition MAP_SHARED :: mmap_flags where "MAP_SHARED = MmapFlags 0x01"

fun mmap_raw :: "mmap_flags \<Rightarrow> u64" where
  "mmap_raw (MmapFlags raw) = raw"

definition mmap_contains :: "mmap_flags \<Rightarrow> mmap_flags \<Rightarrow> bool" where
  "mmap_contains f g \<longleftrightarrow> mmap_raw f AND mmap_raw g \<noteq> 0"

record file_backing =
  fb_fs :: nat
  fb_ino :: u64
  fb_file_offset :: u64
  fb_file_size :: u64
  fb_mmap_flags :: mmap_flags
  fb_dirty_pages :: "u64 list"

record vma_region =
  vma_start :: u64
  vma_size :: u64
  vma_flags :: vma_flags
  vma_kind :: vma_type
  vma_backing :: "file_backing option"

definition new_anon :: "u64 \<Rightarrow> u64 \<Rightarrow> vma_flags \<Rightarrow> vma_region" where
  "new_anon start sz flags =
     \<lparr>vma_start = start, vma_size = sz, vma_flags = flags, vma_kind = Mmap, vma_backing = None\<rparr>"

text \<open>\<open>(size + PAGE_SIZE_U64 - 1) / PAGE_SIZE_U64\<close>.\<close>

definition page_count :: "u64 \<Rightarrow> u64 panics" where
  "page_count sz = do { y \<leftarrow> add_c sz PAGE_SIZE; z \<leftarrow> sub_c y 1; Some (z div PAGE_SIZE) }"

definition new_file ::
  "u64 \<Rightarrow> u64 \<Rightarrow> vma_flags \<Rightarrow> nat \<Rightarrow> u64 \<Rightarrow> u64 \<Rightarrow> u64 \<Rightarrow> mmap_flags \<Rightarrow> vma_region panics" where
  "new_file start sz flags fs ino file_offset file_size mflags = do {
     num_pages \<leftarrow> page_count sz;
     bl \<leftarrow> add_c num_pages 63;
     let bitmap_len = bl div 64;
     Some \<lparr>vma_start = start, vma_size = sz, vma_flags = flags, vma_kind = FileMmap,
       vma_backing = Some \<lparr>fb_fs = fs, fb_ino = ino, fb_file_offset = file_offset,
         fb_file_size = file_size, fb_mmap_flags = mflags,
         fb_dirty_pages = replicate (unat bitmap_len) 0\<rparr>\<rparr>
   }"

definition mark_dirty :: "vma_region \<Rightarrow> u64 \<Rightarrow> vma_region" where
  "mark_dirty r page_offset =
     (case vma_backing r of
        None \<Rightarrow> r
      | Some b \<Rightarrow>
          let page_idx = page_offset div PAGE_SIZE;
              w = unat (page_idx div 64); i = unat (page_idx mod 64) in
          if w < length (fb_dirty_pages b)
          then r\<lparr>vma_backing := Some (b\<lparr>fb_dirty_pages :=
                 (fb_dirty_pages b)[w := fb_dirty_pages b ! w OR push_bit i 1]\<rparr>)\<rparr>
          else r)"

definition is_dirty :: "vma_region \<Rightarrow> u64 \<Rightarrow> bool" where
  "is_dirty r page_offset =
     (case vma_backing r of
        None \<Rightarrow> False
      | Some b \<Rightarrow>
          let page_idx = page_offset div PAGE_SIZE;
              w = unat (page_idx div 64); i = unat (page_idx mod 64) in
          w < length (fb_dirty_pages b) \<and> fb_dirty_pages b ! w AND push_bit i 1 \<noteq> 0)"

definition file_offset_for_page :: "vma_region \<Rightarrow> u64 \<Rightarrow> u64 option panics" where
  "file_offset_for_page r virt =
     (case vma_backing r of
        None \<Rightarrow> Some None
      | Some b \<Rightarrow> do {
          page_offset \<leftarrow> sub_c virt (vma_start r);
          off \<leftarrow> add_c (fb_file_offset b) page_offset;
          Some (Some off)
        })"

definition vma_end :: "vma_region \<Rightarrow> u64 panics" where
  "vma_end r = add_c (vma_start r) (vma_size r)"

definition vma_num_pages :: "vma_region \<Rightarrow> u64 panics" where
  "vma_num_pages r = page_count (vma_size r)"

definition vma_contains :: "vma_region \<Rightarrow> u64 \<Rightarrow> bool panics" where
  "vma_contains r addr =
     (if addr \<ge> vma_start r then do { e \<leftarrow> vma_end r; Some (addr < e) } else Some False)"

definition vma_contains_range :: "vma_region \<Rightarrow> u64 \<Rightarrow> u64 \<Rightarrow> bool panics" where
  "vma_contains_range r addr len =
     (if addr \<ge> vma_start r then do { e \<leftarrow> vma_end r; Some (sat_add addr len \<le> e) } else Some False)"

subsection \<open>The list of regions\<close>

type_synonym vma_list = "vma_region list"

definition vma_list_new :: vma_list where
  "vma_list_new = []"

text \<open>The loop of \<open>add\<close>: does some region of the list overlap the new one?\<close>

fun vma_overlap_scan :: "vma_list \<Rightarrow> vma_region \<Rightarrow> bool panics" where
  "vma_overlap_scan [] r = Some False"
| "vma_overlap_scan (x # xs) r = do {
     xe \<leftarrow> vma_end x;
     if vma_start r < xe then do {
       re \<leftarrow> vma_end r;
       if vma_start x < re then Some True else vma_overlap_scan xs r
     } else vma_overlap_scan xs r
   }"

datatype vma_error = VmaOverlap

definition vma_add :: "vma_list \<Rightarrow> vma_region \<Rightarrow> ((vma_error + unit) \<times> vma_list) panics" where
  "vma_add l r = do {
     o' \<leftarrow> vma_overlap_scan l r;
     Some (if o' then (Inl VmaOverlap, l) else (Inr (), l @ [r]))
   }"

definition vma_remove :: "vma_list \<Rightarrow> u64 \<Rightarrow> bool \<times> vma_list" where
  "vma_remove l addr =
     (case position (\<lambda>r. vma_start r = addr) l of
        Some p \<Rightarrow> (True, remove_at p l)
      | None \<Rightarrow> (False, l))"

fun vma_find :: "vma_list \<Rightarrow> u64 \<Rightarrow> vma_region option panics" where
  "vma_find [] addr = Some None"
| "vma_find (r # rs) addr = do {
     c \<leftarrow> vma_contains r addr;
     if c then Some (Some r) else vma_find rs addr
   }"

text \<open>\<open>find_mut\<close>: the caller's change \<open>f\<close> is applied to the region found.\<close>

fun vma_find_mut :: "vma_list \<Rightarrow> u64 \<Rightarrow> (vma_region \<Rightarrow> vma_region) \<Rightarrow> (bool \<times> vma_list) panics" where
  "vma_find_mut [] addr f = Some (False, [])"
| "vma_find_mut (r # rs) addr f = do {
     c \<leftarrow> vma_contains r addr;
     if c then Some (True, f r # rs)
     else do { (b, rs') \<leftarrow> vma_find_mut rs addr f; Some (b, r # rs') }
   }"

definition vma_is_writable :: "vma_list \<Rightarrow> u64 \<Rightarrow> bool panics" where
  "vma_is_writable l addr = do {
     r \<leftarrow> vma_find l addr;
     Some (case r of None \<Rightarrow> False | Some r \<Rightarrow> vf_write (vma_flags r))
   }"

definition vma_is_executable :: "vma_list \<Rightarrow> u64 \<Rightarrow> bool panics" where
  "vma_is_executable l addr = do {
     r \<leftarrow> vma_find l addr;
     Some (case r of None \<Rightarrow> False | Some r \<Rightarrow> vf_execute (vma_flags r))
   }"

text \<open>The \<open>while\<close> loop of \<open>validate_access\<close>.\<close>

function validate_loop :: "vma_list \<Rightarrow> bool \<Rightarrow> bool \<Rightarrow> u64 \<Rightarrow> u64 \<Rightarrow> bool panics" where
  "validate_loop l write execute cur end =
     (if cur < end then
        (case vma_find l cur of
           None \<Rightarrow> None
         | Some None \<Rightarrow> Some False
         | Some (Some r) \<Rightarrow>
             if write \<and> \<not> vf_write (vma_flags r) then Some False
             else if execute \<and> \<not> vf_execute (vma_flags r) then Some False
             else (case add_c cur PAGE_SIZE of
                     None \<Rightarrow> None
                   | Some cur' \<Rightarrow> validate_loop l write execute cur' end))
      else Some True)"
  by pat_completeness auto
termination
  by (relation "measure (\<lambda>(l, w, x, cur, e). unat e - unat cur)")
    (auto dest!: add_c_unat simp: word_less_nat_alt)

declare validate_loop.simps [simp del]

definition validate_access :: "vma_list \<Rightarrow> u64 \<Rightarrow> u64 \<Rightarrow> bool \<Rightarrow> bool \<Rightarrow> bool panics" where
  "validate_access l addr len write execute =
     (if len = 0 then Some True
      else do {
        let cur = page_down addr;
        end \<leftarrow> add_c addr len;
        validate_loop l write execute cur end
      })"

definition vma_len :: "vma_list \<Rightarrow> nat" where
  "vma_len l = length l"

definition vma_is_empty :: "vma_list \<Rightarrow> bool" where
  "vma_is_empty l \<longleftrightarrow> l = []"

fun extend_heap :: "vma_list \<Rightarrow> u64 \<Rightarrow> (u64 option \<times> vma_list) panics" where
  "extend_heap [] new_end = Some (None, [])"
| "extend_heap (r # rs) new_end =
     (if vma_kind r = Heap then do {
        old_end \<leftarrow> vma_end r;
        aligned \<leftarrow> page_up new_end;
        if aligned > old_end then do {
          sz \<leftarrow> sub_c aligned (vma_start r);
          Some (Some old_end, r\<lparr>vma_size := sz\<rparr> # rs)
        }
        else if aligned < vma_start r then Some (None, r # rs)
        else do {
          sz \<leftarrow> sub_c aligned (vma_start r);
          Some (Some old_end, r\<lparr>vma_size := sz\<rparr> # rs)
        }
      } else do {
        (res, rs') \<leftarrow> extend_heap rs new_end;
        Some (res, r # rs')
      })"

subsection \<open>Regions as sets of addresses\<close>

definition vma_bytes :: "vma_region \<Rightarrow> nat set" where
  "vma_bytes r = {unat (vma_start r)..<unat (vma_start r) + unat (vma_size r)}"

definition vma_ok :: "vma_region \<Rightarrow> bool" where
  "vma_ok r \<longleftrightarrow> unat (vma_start r) + unat (vma_size r) < 2 ^ 64"

definition vma_aligned :: "vma_region \<Rightarrow> bool" where
  "vma_aligned r \<longleftrightarrow> unat (vma_start r) mod 4096 = 0 \<and> unat (vma_size r) mod 4096 = 0"

definition vma_overlap :: "vma_region \<Rightarrow> vma_region \<Rightarrow> bool" where
  "vma_overlap x y \<longleftrightarrow> unat (vma_start y) < unat (vma_start x) + unat (vma_size x) \<and>
     unat (vma_start x) < unat (vma_start y) + unat (vma_size y)"

definition vma_inv :: "vma_list \<Rightarrow> bool" where
  "vma_inv l \<longleftrightarrow> sorted_wrt (\<lambda>x y. \<not> vma_overlap x y) l"

lemma vma_overlap_bytes: "\<not> vma_overlap x y \<Longrightarrow> vma_bytes x \<inter> vma_bytes y = {}"
  by (auto simp: vma_overlap_def vma_bytes_def)

lemma vma_end_Some: "vma_end r = Some e \<Longrightarrow> unat e = unat (vma_start r) + unat (vma_size r)"
  unfolding vma_end_def by (rule add_c_unat)

lemma vma_end_ok: "vma_ok r \<Longrightarrow> \<exists>e. vma_end r = Some e"
  by (simp add: vma_end_def vma_ok_def add_c_def)

lemma vma_contains_ok:
  assumes "vma_ok r"
  shows "vma_contains r a = Some (unat a \<in> vma_bytes r)"
proof -
  obtain e where e: "vma_end r = Some e" using vma_end_ok [OF assms] by blast
  then show ?thesis
    using vma_end_Some [OF e] by (simp add: vma_contains_def vma_bytes_def word_le_nat_alt word_less_nat_alt)
qed

lemma vma_find_ok:
  "\<forall>r \<in> set l. vma_ok r \<Longrightarrow> vma_find l a = Some (find (\<lambda>r. unat a \<in> vma_bytes r) l)"
  by (induction l) (auto simp: vma_contains_ok)

subsection \<open>Regions stay disjoint\<close>

lemma overlap_scan_False:
  "vma_overlap_scan l r = Some False \<Longrightarrow> \<forall>x \<in> set l. \<not> vma_overlap x r"
proof (induction l)
  case (Cons x xs)
  from Cons.prems obtain xe where xe: "vma_end x = Some xe"
    by (auto simp: bind_eq_Some_conv)
  note u = vma_end_Some [OF xe]
  have "\<not> vma_overlap x r \<and> vma_overlap_scan xs r = Some False"
  proof (cases "vma_start r < xe")
    case True
    with Cons.prems xe obtain re where re: "vma_end r = Some re"
      by (auto simp: bind_eq_Some_conv)
    then show ?thesis
      using Cons.prems xe True u vma_end_Some [OF re]
      by (auto simp: vma_overlap_def word_less_nat_alt split: if_splits)
  next
    case False
    then show ?thesis
      using Cons.prems xe u by (auto simp: vma_overlap_def word_less_nat_alt)
  qed
  then show ?case using Cons.IH by simp
qed simp

lemma overlap_scan_ok:
  "\<forall>x \<in> set l. vma_ok x \<Longrightarrow> vma_ok r \<Longrightarrow> vma_overlap_scan l r = Some (\<exists>x \<in> set l. vma_overlap x r)"
proof (induction l)
  case (Cons x xs)
  then obtain xe re where e: "vma_end x = Some xe" "vma_end r = Some re"
    using vma_end_ok by (meson list.set_intros(1))
  then show ?case
    using Cons vma_end_Some [OF e(1)] vma_end_Some [OF e(2)]
    by (auto simp: vma_overlap_def word_less_nat_alt)
qed simp

datatype vma_op = Vma_add vma_region | Vma_remove u64 | Vma_mark_dirty u64 u64

fun vma_step :: "vma_list \<Rightarrow> vma_op \<Rightarrow> vma_list panics" where
  "vma_step l (Vma_add r) = map_option snd (vma_add l r)"
| "vma_step l (Vma_remove a) = Some (snd (vma_remove l a))"
| "vma_step l (Vma_mark_dirty a off) = map_option snd (vma_find_mut l a (\<lambda>r. mark_dirty r off))"

lemma mark_dirty_fields [simp]:
  "vma_start (mark_dirty r p) = vma_start r" "vma_size (mark_dirty r p) = vma_size r"
  "vma_flags (mark_dirty r p) = vma_flags r" "vma_kind (mark_dirty r p) = vma_kind r"
  by (simp_all add: mark_dirty_def Let_def split: option.split)

lemma vma_inv_cong:
  "map vma_start l = map vma_start l' \<Longrightarrow> map vma_size l = map vma_size l' \<Longrightarrow> vma_inv l = vma_inv l'"
proof -
  have *: "vma_inv l = sorted_wrt (\<lambda>x y. \<not> (unat (fst y) < unat (fst x) + unat (snd x) \<and>
     unat (fst x) < unat (fst y) + unat (snd y))) (zip (map vma_start l) (map vma_size l))" for l
    by (simp add: vma_inv_def vma_overlap_def zip_map_map zip_same_conv_map sorted_wrt_map)
  show "map vma_start l = map vma_start l' \<Longrightarrow> map vma_size l = map vma_size l' \<Longrightarrow> ?thesis"
    by (simp add: *)
qed

lemma find_mut_mark_dirty:
  "vma_find_mut l a (\<lambda>r. mark_dirty r p) = Some (b, l') \<Longrightarrow>
   map vma_start l' = map vma_start l \<and> map vma_size l' = map vma_size l"
  by (induction l arbitrary: l' b) (auto simp: bind_eq_Some_conv split: if_splits)

lemma vma_inv_step: "vma_inv l \<Longrightarrow> vma_step l a = Some l' \<Longrightarrow> vma_inv l'"
proof (cases a)
  case (Vma_add r)
  assume "vma_inv l" "vma_step l a = Some l'"
  then show ?thesis
    using Vma_add overlap_scan_False [of l r]
    by (auto simp: vma_add_def bind_eq_Some_conv vma_inv_def sorted_wrt_append split: if_splits)
next
  case (Vma_remove addr)
  assume "vma_inv l" "vma_step l a = Some l'"
  then show ?thesis
    using Vma_remove
    by (auto simp: vma_remove_def vma_inv_def sorted_wrt_remove_at split: option.splits)
next
  case (Vma_mark_dirty addr off)
  assume l: "vma_inv l" "vma_step l a = Some l'"
  then obtain b where "vma_find_mut l addr (\<lambda>r. mark_dirty r off) = Some (b, l')"
    using Vma_mark_dirty by auto
  then show ?thesis using l(1) find_mut_mark_dirty vma_inv_cong by blast
qed

interpretation vmas: component vma_step vma_inv
  by unfold_locales (rule vma_inv_step)

lemma vma_inv_nth:
  "vma_inv l \<Longrightarrow> i < j \<Longrightarrow> j < length l \<Longrightarrow> vma_bytes (l ! i) \<inter> vma_bytes (l ! j) = {}"
  by (auto simp: vma_inv_def sorted_wrt_iff_nth_less dest!: vma_overlap_bytes)

text \<open>In a disjoint list the first region with an address is the only one.\<close>

lemma vma_find_unique:
  assumes "vma_inv l" and "r \<in> set l" and "a \<in> vma_bytes r"
  shows "find (\<lambda>r. a \<in> vma_bytes r) l = Some r"
  using assms
proof (induction l)
  case (Cons x xs)
  then have "\<not> vma_overlap x r" if "r \<in> set xs" using that by (auto simp: vma_inv_def)
  then have "r = x" if "a \<in> vma_bytes x"
    using that Cons.prems(2,3) vma_overlap_bytes by auto
  then show ?case using Cons by (auto simp: vma_inv_def)
qed simp

subsection \<open>The walk over the pages of a buffer\<close>

definition vma_allowed :: "vma_list \<Rightarrow> bool \<Rightarrow> bool \<Rightarrow> nat \<Rightarrow> bool" where
  "vma_allowed l w x a \<longleftrightarrow> (case find (\<lambda>r. a \<in> vma_bytes r) l of
     None \<Rightarrow> False
   | Some r \<Rightarrow> (w \<longrightarrow> vf_write (vma_flags r)) \<and> (x \<longrightarrow> vf_execute (vma_flags r)))"

definition vma_pages :: "vma_list \<Rightarrow> bool" where
  "vma_pages l \<longleftrightarrow> (\<forall>r \<in> set l. vma_ok r \<and> vma_aligned r)"

lemma vma_bytes_page:
  assumes "vma_aligned r"
  shows "a \<in> vma_bytes r \<longleftrightarrow> a div 4096 * 4096 \<in> vma_bytes r"
proof -
  obtain j k where "unat (vma_start r) = 4096 * j" "unat (vma_size r) = 4096 * k"
    using assms by (auto simp: vma_aligned_def elim!: dvdE)
  then have b: "vma_bytes r = {4096 * j..<4096 * (j + k)}" by (simp add: vma_bytes_def algebra_simps)
  have "4096 * m \<le> a \<longleftrightarrow> 4096 * m \<le> a div 4096 * 4096" for m
    by (simp add: less_eq_div_iff_mult_less_eq mult.commute)
  then show ?thesis unfolding b atLeastLessThan_iff not_le [symmetric] by blast
qed

lemma vma_allowed_page:
  assumes "vma_pages l"
  shows "vma_allowed l w x a = vma_allowed l w x (a div 4096 * 4096)"
proof -
  have "find (\<lambda>r. a \<in> vma_bytes r) l = find (\<lambda>r. a div 4096 * 4096 \<in> vma_bytes r) l"
    using assms by (intro find_cong refl vma_bytes_page) (simp add: vma_pages_def)
  then show ?thesis by (simp add: vma_allowed_def)
qed

text \<open>The page of an address of a page-aligned region has a successor.\<close>

lemma vma_next_page:
  assumes "vma_pages l" and "find (\<lambda>r. unat cur \<in> vma_bytes r) l = Some r" and "unat cur mod 4096 = 0"
  shows "\<exists>nxt. add_c cur PAGE_SIZE = Some nxt \<and> unat nxt = unat cur + 4096"
proof -
  have r: "r \<in> set l" "unat cur \<in> vma_bytes r"
    using assms(2) by (auto simp: find_Some_iff)
  then obtain j k where jk: "unat (vma_start r) = 4096 * j" "unat (vma_size r) = 4096 * k"
    using assms(1) by (fastforce simp: vma_pages_def vma_aligned_def elim!: dvdE)
  obtain c where c: "unat cur = 4096 * c" using assms(3) by auto
  have "c < j + k" using r(2) unfolding vma_bytes_def jk c by auto
  then have "4096 * c + 4096 \<le> unat (vma_start r) + unat (vma_size r)"
    unfolding jk by linarith
  also have "\<dots> < 2 ^ 64" using r(1) assms(1) by (auto simp: vma_pages_def vma_ok_def)
  finally have "unat cur + unat PAGE_SIZE < 2 ^ LENGTH(64)" by (simp add: c)
  then have "add_c cur PAGE_SIZE = Some (cur + PAGE_SIZE)" by (simp only: add_c_def if_True)
  then show ?thesis using add_c_unat unat_PAGE_SIZE by metis
qed

lemma validate_loop_spec:
  assumes "vma_pages l" and "unat cur mod 4096 = 0"
  shows "validate_loop l w x cur e = Some (\<forall>a. unat cur \<le> a \<and> a < unat e \<longrightarrow> vma_allowed l w x a)"
  using assms(2)
proof (induction "unat e - unat cur" arbitrary: cur rule: less_induct)
  case less
  have ok: "\<forall>r \<in> set l. vma_ok r" using assms(1) by (simp add: vma_pages_def)
  note find = vma_find_ok [OF ok, of cur]
  show ?case
  proof (cases "cur < e")
    case False
    then show ?thesis by (subst validate_loop.simps) (auto simp: word_less_nat_alt)
  next
    case True
    then have lt: "unat cur < unat e" by (simp add: word_less_nat_alt)
    show ?thesis
    proof (cases "vma_allowed l w x (unat cur)")
      case False
      then have "validate_loop l w x cur e = Some False"
        by (subst validate_loop.simps) (use True find in \<open>auto simp: vma_allowed_def split: option.splits\<close>)
      then show ?thesis using False lt by auto
    next
      case allowed: True
      then obtain r where r: "find (\<lambda>r. unat cur \<in> vma_bytes r) l = Some r"
        by (auto simp: vma_allowed_def split: option.splits)
      obtain nxt where nxt: "add_c cur PAGE_SIZE = Some nxt" "unat nxt = unat cur + 4096"
        using vma_next_page [OF assms(1) r less.prems] by blast
      have "validate_loop l w x cur e = validate_loop l w x nxt e"
        by (subst validate_loop.simps) (use True find r nxt(1) allowed in \<open>auto simp: vma_allowed_def\<close>)
      also have "\<dots> = Some (\<forall>a. unat nxt \<le> a \<and> a < unat e \<longrightarrow> vma_allowed l w x a)"
        using less.prems lt nxt(2) by (intro less.hyps) auto
      also have "vma_allowed l w x a" if "unat cur \<le> a" "a < unat nxt" for a
      proof -
        obtain c where c: "unat cur = 4096 * c" using less.prems by auto
        have "a div 4096 = c" using that unfolding nxt(2) c by (intro div_nat_eqI) auto
        then have "a div 4096 * 4096 = unat cur" by (simp add: c)
        then show ?thesis using allowed by (simp only: vma_allowed_page [OF assms(1), of w x a])
      qed
      then have "(\<forall>a. unat nxt \<le> a \<and> a < unat e \<longrightarrow> vma_allowed l w x a) =
          (\<forall>a. unat cur \<le> a \<and> a < unat e \<longrightarrow> vma_allowed l w x a)"
        unfolding nxt(2) by (meson le_add1 linorder_not_le order_trans)
      finally show ?thesis .
    qed
  qed
qed

subsection \<open>Dirty pages\<close>

definition dirty_words :: "vma_region \<Rightarrow> nat" where
  "dirty_words r = (case vma_backing r of None \<Rightarrow> 0 | Some b \<Rightarrow> length (fb_dirty_pages b))"

lemma dirty_words_mark [simp]: "dirty_words (mark_dirty r p) = dirty_words r"
  by (simp add: dirty_words_def mark_dirty_def Let_def split: option.split)

lemma and_push_bit_1: "(w AND push_bit n 1 \<noteq> 0) = bit w n" for w :: u64
  by (simp add: and_exp_eq_0_iff_not_bit)

lemma dirty_index: "unat (x div 64) = unat x div 64" "unat (x mod 64) = unat x mod 64" for x :: u64
  by (simp_all add: unat_div unat_mod)

lemma is_dirty_bit:
  "is_dirty r q \<longleftrightarrow> (\<exists>b. vma_backing r = Some b \<and> unat (q div PAGE_SIZE) div 64 < length (fb_dirty_pages b) \<and>
     bit (fb_dirty_pages b ! (unat (q div PAGE_SIZE) div 64)) (unat (q div PAGE_SIZE) mod 64))"
  unfolding is_dirty_def Let_def and_push_bit_1 dirty_index by (simp split: option.split)

lemma is_dirty_mark:
  assumes "unat (p div PAGE_SIZE) div 64 < dirty_words r"
  shows "is_dirty (mark_dirty r p) q \<longleftrightarrow> q div PAGE_SIZE = p div PAGE_SIZE \<or> is_dirty r q"
proof -
  let ?p = "unat (p div PAGE_SIZE)" and ?q = "unat (q div PAGE_SIZE)"
  obtain b where b: "vma_backing r = Some b" "?p div 64 < length (fb_dirty_pages b)"
    using assms by (auto simp: dirty_words_def split: option.splits)
  have m: "vma_backing (mark_dirty r p) = Some (b\<lparr>fb_dirty_pages :=
      (fb_dirty_pages b)[?p div 64 := fb_dirty_pages b ! (?p div 64) OR push_bit (?p mod 64) 1]\<rparr>)"
    unfolding mark_dirty_def Let_def dirty_index using b by simp
  have eq: "q div PAGE_SIZE = p div PAGE_SIZE \<longleftrightarrow> ?q div 64 = ?p div 64 \<and> ?q mod 64 = ?p mod 64"
    by (metis div_mult_mod_eq word_unat_eq_iff)
  have push: "bit (push_bit (?p mod 64) 1 :: u64) (?q mod 64) \<longleftrightarrow> ?q mod 64 = ?p mod 64"
    by (auto simp: bit_simps simp del: push_bit_of_1)
  show ?thesis
    unfolding is_dirty_bit m b(1) eq
    using b(2) push by (auto simp: nth_list_update bit_or_iff)
qed

lemma is_dirty_marks:
  assumes "\<forall>p \<in> set ps. unat (p div PAGE_SIZE) div 64 < dirty_words r"
  shows "is_dirty (foldl mark_dirty r ps) q \<longleftrightarrow> (\<exists>p \<in> set ps. q div PAGE_SIZE = p div PAGE_SIZE) \<or> is_dirty r q"
  using assms by (induction ps arbitrary: r) (auto simp: is_dirty_mark)

lemma new_file_dirty:
  assumes "new_file start sz fl fs ino off fsz mf = Some r"
  shows "\<not> is_dirty r q" and "unat p < unat sz \<Longrightarrow> unat (p div PAGE_SIZE) div 64 < dirty_words r"
proof -
  obtain n bl where n: "page_count sz = Some n" "add_c n 63 = Some bl"
    and b: "vma_backing r = Some \<lparr>fb_fs = fs, fb_ino = ino, fb_file_offset = off, fb_file_size = fsz,
      fb_mmap_flags = mf, fb_dirty_pages = replicate (unat (bl div 64)) 0\<rparr>"
    using assms by (auto simp: new_file_def bind_eq_Some_conv)
  then show "\<not> is_dirty r q" by (auto simp: is_dirty_bit dirty_index)
  obtain y where y: "add_c sz PAGE_SIZE = Some y" "1 \<le> y" "n = (y - 1) div PAGE_SIZE"
    using n(1) by (auto simp: page_count_def bind_eq_Some_conv sub_c_Some)
  have "unat n = (unat sz + 4095) div 4096"
    using add_c_unat [OF y(1)] y(2,3) by (simp add: unat_div unat_sub)
  moreover have "unat bl = unat n + 63" using add_c_unat [OF n(2)] by simp
  ultimately have len: "dirty_words r = ((unat sz + 4095) div 4096 + 63) div 64"
    using b by (simp add: dirty_words_def unat_div)
  assume "unat p < unat sz"
  then show "unat (p div PAGE_SIZE) div 64 < dirty_words r"
    unfolding len by (simp add: unat_div)
qed

subsection \<open>Properties\<close>

text \<open>C19: The regions of a process never overlap: after any sequence of \<open>add\<close>, \<open>remove\<close> and
  \<open>mark_dirty\<close> calls on an empty list, two different regions share no address.\<close>

theorem vma_regions_disjoint:
  assumes "run_ops vma_step vma_list_new ops = Some l" and "i < j" and "j < length l"
  shows "vma_bytes (l ! i) \<inter> vma_bytes (l ! j) = {}"
proof -
  have "vma_inv vma_list_new" by (simp add: vma_inv_def vma_list_new_def)
  then show ?thesis using vmas.inv_run [OF _ assms(1)] vma_inv_nth assms(2,3) by blast
qed

definition vma_example :: vma_list where
  "vma_example = [new_anon 0x4000 0x2000 RW, new_anon 0x6000 0x1000 RX]"

theorem vma_regions_disjoint_witness:
  "run_ops vma_step vma_list_new [Vma_add (new_anon 0x4000 0x2000 RW), Vma_add (new_anon 0x5000 0x3000 RW),
     Vma_add (new_anon 0x6000 0x1000 RX)] = Some vma_example \<and>
   vma_bytes (vma_example ! 0) \<inter> vma_bytes (vma_example ! 1) = {}"
proof -
  have run: "run_ops vma_step vma_list_new [Vma_add (new_anon 0x4000 0x2000 RW), Vma_add (new_anon 0x5000 0x3000 RW),
     Vma_add (new_anon 0x6000 0x1000 RX)] = Some vma_example"
    by (simp add: vma_add_def vma_list_new_def vma_end_def add_c_def new_anon_def vma_example_def)
  have "length vma_example = 2" by (simp add: vma_example_def)
  then show ?thesis using run vma_regions_disjoint [OF run, of 0 1] by (simp del: run_ops.simps)
qed

lemma vma_allowed_iff:
  assumes "vma_inv l"
  shows "vma_allowed l w x a \<longleftrightarrow> (\<exists>r \<in> set l. a \<in> vma_bytes r \<and> (w \<longrightarrow> vf_write (vma_flags r)) \<and>
    (x \<longrightarrow> vf_execute (vma_flags r)))"
proof (cases "find (\<lambda>r. a \<in> vma_bytes r) l")
  case None
  then have "\<forall>r \<in> set l. a \<notin> vma_bytes r" by (simp add: find_None_iff)
  then show ?thesis using None by (auto simp: vma_allowed_def)
next
  case (Some r)
  then have "r \<in> set l" "a \<in> vma_bytes r" by (auto simp: find_Some_iff)
  moreover have "r' = r" if "r' \<in> set l" "a \<in> vma_bytes r'" for r'
    using vma_find_unique [OF assms that] Some by simp
  moreover have "vma_allowed l w x a \<longleftrightarrow> (w \<longrightarrow> vf_write (vma_flags r)) \<and> (x \<longrightarrow> vf_execute (vma_flags r))"
    using Some by (simp add: vma_allowed_def)
  ultimately show ?thesis by blast
qed


lemma vma_example_inv: "vma_inv vma_example" "vma_pages vma_example"
  by (simp_all add: vma_inv_def vma_pages_def vma_example_def new_anon_def vma_overlap_def vma_ok_def
      vma_aligned_def)


text \<open>The dirty bitmap of a file mapping is exactly the set of pages marked: after marking any
  offsets inside the mapping, \<open>is_dirty\<close> answers true for the offsets of those pages and no others.\<close>

theorem dirty_pages_exact:
  assumes "new_file start sz fl fs ino off fsz mf = Some r" and "\<forall>p \<in> set ps. unat p < unat sz"
  shows "is_dirty (foldl mark_dirty r ps) q \<longleftrightarrow> (\<exists>p \<in> set ps. q div PAGE_SIZE = p div PAGE_SIZE)"
  using is_dirty_marks [of ps r q] new_file_dirty [OF assms(1)] assms(2) by blast

theorem dirty_pages_exact_witness:
  "(\<exists>r. new_file 0x10000 0x50000 RW 0 7 0 0x50000 MAP_SHARED = Some r \<and>
     is_dirty (foldl mark_dirty r [0x4f010]) 0x4f800 \<and> \<not> is_dirty (foldl mark_dirty r [0x4f010]) 0x4e800)"
proof -
  obtain r where r: "new_file 0x10000 0x50000 RW 0 7 0 0x50000 MAP_SHARED = Some r"
    by (simp add: new_file_def page_count_def add_c_def sub_c_def PAGE_SIZE_def)
  show ?thesis
    using r dirty_pages_exact [OF r, of "[0x4f010]" "0x4f800"] dirty_pages_exact [OF r, of "[0x4f010]" "0x4e800"]
    by (simp add: PAGE_SIZE_def)
qed

text \<open>C4: \<open>extend_heap\<close> does not look at the other regions. Growing the heap over the code region that
  follows it succeeds, and from then on the addresses of the code validate as writable.\<close>

definition heap_region :: "u64 \<Rightarrow> u64 \<Rightarrow> vma_region" where
  "heap_region start sz =
     \<lparr>vma_start = start, vma_size = sz, vma_flags = RW, vma_kind = Heap, vma_backing = None\<rparr>"


end
