(* ===== verification/Sys_Error.thy ===== *)
theory Sys_Error
  imports Kernel_Prelude
begin

text \<open>
  The error codes of the system-call interface, \<open>Error\<close> of \<open>kernel/src/syscall/mod.rs\<close>, with the
  negative values that the dispatcher returns in \<open>RAX\<close>.
\<close>

datatype sys_error =
    InvalidArgument
  | NotFound
  | PermissionDenied
  | OutOfMemory
  | Busy
  | ChannelClosed
  | WouldBlock
  | Timeout
  | BadPointer
  | UnknownSyscall
  | NotSupported
  | AlreadyExists

fun error_code :: "sys_error \<Rightarrow> int" where
  "error_code InvalidArgument = -1"
| "error_code NotFound = -2"
| "error_code PermissionDenied = -3"
| "error_code OutOfMemory = -4"
| "error_code Busy = -5"
| "error_code ChannelClosed = -6"
| "error_code WouldBlock = -7"
| "error_code Timeout = -8"
| "error_code BadPointer = -9"
| "error_code UnknownSyscall = -10"
| "error_code NotSupported = -11"
| "error_code AlreadyExists = -12"

lemma error_code_inj: "error_code a = error_code b \<longleftrightarrow> a = b"
  by (cases a; cases b) auto

lemma error_code_neg: "error_code e < 0"
  by (cases e) auto

end
