(* ===== verification/Shm.thy ===== *)
theory Shm
  imports BTree_Map Frame_Alloc Vma Sys_Error
begin

text \<open>
  System V shared memory: \<open>kernel/src/ipc/shm.rs\<close>, a client of the frame allocator, together with the
  search for free user pages of \<open>kernel/src/memory/pagetable.rs\<close>. The state holds the global
  segment table, the identifier counter, the frame allocator and, per task, the attachments, the
  list of regions and the pages mapped in its page table (a map from page address to frame; the four
  levels of the hardware table are not represented, and a task's own table is the active one while it
  runs). The contents of the frames are not modelled.
\<close>

definition MIN_SHM_SIZE :: u64 where "MIN_SHM_SIZE = 1"
definition MAX_SHM_SIZE :: u64 where "MAX_SHM_SIZE = 16 * 1024 * 1024"
definition IPC_CREAT :: u32 where "IPC_CREAT = 512"
definition IPC_EXCL :: u32 where "IPC_EXCL = 1024"
definition USER_SPACE_MAX :: u64 where "USER_SPACE_MAX = 0x0000800000000000"

record shm_segment =
  seg_id :: u32
  seg_key :: u32
  seg_size :: u64
  seg_refcount :: u32
  seg_pages :: "u64 list"
  seg_marked :: bool

record shm_attachment =
  att_shmid :: u32
  att_virt :: u64
  att_size :: u64

record shm_task =
  sht_attachments :: "shm_attachment list"
  sht_vmas :: vma_list
  sht_pages :: "u64 \<rightharpoonup> u64"

record shm_state =
  shm_table :: "(u32, shm_segment) btree"
  shm_next_id :: u32
  shm_frames :: frame_state
  shm_tasks :: "(u64, shm_task) btree"

subsection \<open>Free user pages\<close>

text \<open>The \<open>while\<close> loop of \<open>PageTable::find_free_range\<close>; \<open>mapped\<close> is \<open>translate(addr).is_some()\<close>.\<close>

function free_range_loop :: "(u64 \<Rightarrow> bool) \<Rightarrow> nat \<Rightarrow> u64 \<Rightarrow> u64 \<Rightarrow> nat \<Rightarrow> u64 option panics" where
  "free_range_loop mapped cnt addr run_start run_len =
     (if addr < USER_SPACE_MAX then
        if mapped addr then
          (case add_c addr PAGE_SIZE of
             None \<Rightarrow> None
           | Some addr' \<Rightarrow> free_range_loop mapped cnt addr' addr' 0)
        else
          let run_start' = (if run_len = 0 then addr else run_start); run_len' = run_len + 1 in
          if run_len' \<ge> cnt then Some (Some run_start')
          else
            (case add_c addr PAGE_SIZE of
               None \<Rightarrow> None
             | Some addr' \<Rightarrow> free_range_loop mapped cnt addr' run_start' run_len')
      else Some None)"
  by pat_completeness auto
termination
  by (relation "measure (\<lambda>(m, c, addr, rs, rl). unat USER_SPACE_MAX - unat addr)")
    (auto dest!: add_c_unat simp: word_less_nat_alt)

declare free_range_loop.simps [simp del]

definition find_free_range :: "(u64 \<Rightarrow> bool) \<Rightarrow> u64 \<Rightarrow> nat \<Rightarrow> u64 option panics" where
  "find_free_range mapped hint cnt = do {
     addr \<leftarrow> page_up hint;
     free_range_loop mapped cnt addr addr 0
   }"

subsection \<open>Operations\<close>

text \<open>The allocation loop of \<open>shmget\<close>. \<open>Inl\<close>: the allocator ran out; the frames taken so far stay
  taken, since dropping the vector of their addresses does not free them.\<close>

fun alloc_pages ::
  "('s \<Rightarrow> (u64 option \<times> 's) panics) \<Rightarrow> nat \<Rightarrow> u64 list \<Rightarrow> 's \<Rightarrow> ((sys_error + u64 list) \<times> 's) panics" where
  "alloc_pages alloc 0 pages s = Some (Inr pages, s)"
| "alloc_pages alloc (Suc n) pages s = do {
     (r, s') \<leftarrow> alloc s;
     case r of None \<Rightarrow> Some (Inl OutOfMemory, s') | Some a \<Rightarrow> alloc_pages alloc n (pages @ [a]) s'
   }"

text \<open>\<open>for &frame in &seg.pages { free_frame(frame) }\<close>.\<close>

fun free_pages :: "('s \<Rightarrow> u64 \<Rightarrow> 's panics) \<Rightarrow> u64 list \<Rightarrow> 's \<Rightarrow> 's panics" where
  "free_pages free [] s = Some s"
| "free_pages free (a # as) s = free s a \<bind> free_pages free as"

definition div_ceil_page :: "u64 \<Rightarrow> nat" where
  "div_ceil_page sz = (unat sz + 4095) div 4096"

definition shmget :: "shm_state \<Rightarrow> u32 \<Rightarrow> u64 \<Rightarrow> u32 \<Rightarrow> ((sys_error + u32) \<times> shm_state) panics" where
  "shmget s key sz flags =
     (if \<not> (MIN_SHM_SIZE \<le> sz \<and> sz \<le> MAX_SHM_SIZE) then Some (Inl InvalidArgument, s)
      else
        let create = (key = 0 \<or> flags AND IPC_CREAT \<noteq> 0);
            exclusive = (flags AND IPC_EXCL \<noteq> 0);
            existing = (if key \<noteq> 0
                        then find (\<lambda>seg. seg_key seg = key \<and> \<not> seg_marked seg) (bt_values (shm_table s))
                        else None)
        in case existing of
          Some seg \<Rightarrow>
            if exclusive \<and> create then Some (Inl AlreadyExists, s) else Some (Inr (seg_id seg), s)
        | None \<Rightarrow>
            if \<not> create then Some (Inl NotFound, s)
            else do {
              aligned_size \<leftarrow> page_up sz;
              let num_pages = unat (aligned_size div PAGE_SIZE);
              (r, fr) \<leftarrow> alloc_pages alloc_frame num_pages [] (shm_frames s);
              case r of
                Inl e \<Rightarrow> Some (Inl e, s\<lparr>shm_frames := fr\<rparr>)
              | Inr pages \<Rightarrow>
                  let id = shm_next_id s in
                  Some (Inr id, s\<lparr>shm_next_id := id + 1, shm_frames := fr,
                    shm_table := bt_insert id \<lparr>seg_id = id, seg_key = key, seg_size = aligned_size,
                      seg_refcount = 0, seg_pages = pages, seg_marked = False\<rparr> (shm_table s)\<rparr>)
            })"

text \<open>Mapping the pages of a segment one after the other, and unmapping \<open>n\<close> pages.\<close>

fun map_pages :: "u64 \<Rightarrow> nat \<Rightarrow> u64 list \<Rightarrow> (u64 \<rightharpoonup> u64) \<Rightarrow> (u64 \<rightharpoonup> u64) panics" where
  "map_pages virt i [] pm = Some pm"
| "map_pages virt i (phys # pages) pm = do {
     off \<leftarrow> mul_c (of_nat i) PAGE_SIZE;
     page_virt \<leftarrow> add_c virt off;
     map_pages virt (i + 1) pages (pm(page_virt \<mapsto> phys))
   }"

fun unmap_pages :: "u64 \<Rightarrow> nat list \<Rightarrow> (u64 \<rightharpoonup> u64) \<Rightarrow> (u64 \<rightharpoonup> u64) panics" where
  "unmap_pages virt [] pm = Some pm"
| "unmap_pages virt (i # is) pm = do {
     off \<leftarrow> mul_c (of_nat i) PAGE_SIZE;
     page_virt \<leftarrow> add_c virt off;
     unmap_pages virt is (pm(page_virt := None))
   }"

definition shmat :: "shm_state \<Rightarrow> u64 \<Rightarrow> u32 \<Rightarrow> ((sys_error + u64) \<times> shm_state) panics" where
  "shmat s tid segment_id =
     (case bt_get (shm_table s) segment_id of
        None \<Rightarrow> Some (Inl NotFound, s)
      | Some seg \<Rightarrow>
          if seg_marked seg then Some (Inl NotFound, s)
          else (case bt_get (shm_tasks s) tid of
            None \<Rightarrow> Some (Inl OutOfMemory, s)
          | Some task \<Rightarrow> do {
              r \<leftarrow> find_free_range (\<lambda>a. sht_pages task a \<noteq> None) 0x70000000 (div_ceil_page (seg_size seg));
              case r of
                None \<Rightarrow> Some (Inl OutOfMemory, s)
              | Some virt \<Rightarrow> do {
                  pm \<leftarrow> map_pages virt 0 (seg_pages seg) (sht_pages task);
                  rc \<leftarrow> add_c (seg_refcount seg) 1;
                  Some (Inr virt, s\<lparr>
                    shm_table := bt_modify segment_id (\<lambda>g. g\<lparr>seg_refcount := rc\<rparr>) (shm_table s),
                    shm_tasks := bt_modify tid (\<lambda>t. t\<lparr>sht_pages := pm, sht_attachments := sht_attachments t @
                      [\<lparr>att_shmid = segment_id, att_virt = virt, att_size = seg_size seg\<rparr>]\<rparr>) (shm_tasks s)\<rparr>)
                }
            }))"

text \<open>The end of \<open>shmdt\<close> and of one round of \<open>cleanup_task_attachments\<close>: one reference less, and
  a segment marked for removal goes with its last reference.\<close>

definition drop_reference :: "shm_state \<Rightarrow> u32 \<Rightarrow> shm_state panics" where
  "drop_reference s shmid =
     (case bt_get (shm_table s) shmid of
        None \<Rightarrow> Some s
      | Some seg \<Rightarrow>
          let rc = sat_sub (seg_refcount seg) 1;
              table = bt_modify shmid (\<lambda>g. g\<lparr>seg_refcount := rc\<rparr>) (shm_table s)
          in if seg_marked seg \<and> rc = 0
             then do {
               fr \<leftarrow> free_pages free_frame (seg_pages seg) (shm_frames s);
               Some (s\<lparr>shm_table := bt_remove shmid table, shm_frames := fr\<rparr>)
             }
             else Some (s\<lparr>shm_table := table\<rparr>))"

definition shmdt :: "shm_state \<Rightarrow> u64 \<Rightarrow> u64 \<Rightarrow> ((sys_error + unit) \<times> shm_state) panics" where
  "shmdt s tid virt_addr =
     (if virt_addr = 0 \<or> virt_addr mod PAGE_SIZE \<noteq> 0 then Some (Inl InvalidArgument, s)
      else case bt_get (shm_tasks s) tid of
        None \<Rightarrow> Some (Inl NotFound, s)
      | Some task \<Rightarrow>
          (case position (\<lambda>a. att_virt a = virt_addr) (sht_attachments task) of
             None \<Rightarrow> Some (Inl NotFound, s)
           | Some idx \<Rightarrow>
               let att = sht_attachments task ! idx in do {
                 pm \<leftarrow> unmap_pages (att_virt att) [0..<div_ceil_page (att_size att)] (sht_pages task);
                 s' \<leftarrow> drop_reference (s\<lparr>shm_tasks := bt_modify tid (\<lambda>t. t\<lparr>
                     sht_attachments := remove_at idx (sht_attachments t),
                     sht_vmas := snd (vma_remove (sht_vmas t) (att_virt att)), sht_pages := pm\<rparr>)
                   (shm_tasks s)\<rparr>) (att_shmid att);
                 Some (Inr (), s')
               }))"

definition shm_mark_removal :: "shm_state \<Rightarrow> u32 \<Rightarrow> ((sys_error + unit) \<times> shm_state) panics" where
  "shm_mark_removal s shmid =
     (case bt_get (shm_table s) shmid of
        None \<Rightarrow> Some (Inl NotFound, s)
      | Some seg \<Rightarrow>
          let table = bt_modify shmid (\<lambda>g. g\<lparr>seg_marked := True\<rparr>) (shm_table s)
          in if seg_refcount seg = 0
             then do {
               fr \<leftarrow> free_pages free_frame (seg_pages seg) (shm_frames s);
               Some (Inr (), s\<lparr>shm_table := bt_remove shmid table, shm_frames := fr\<rparr>)
             }
             else Some (Inr (), s\<lparr>shm_table := table\<rparr>))"

text \<open>\<open>pm\<close>: the page table active while the task is cleaned up.\<close>

fun cleanup_task_attachments ::
  "shm_attachment list \<Rightarrow> (u64 \<rightharpoonup> u64) \<Rightarrow> shm_state \<Rightarrow> ((u64 \<rightharpoonup> u64) \<times> shm_state) panics" where
  "cleanup_task_attachments [] pm s = Some (pm, s)"
| "cleanup_task_attachments (att # atts) pm s = do {
     pm' \<leftarrow> unmap_pages (att_virt att) [0..<div_ceil_page (att_size att)] pm;
     s' \<leftarrow> drop_reference s (att_shmid att);
     cleanup_task_attachments atts pm' s'
   }"

subsection \<open>The search for free pages\<close>

definition free_run :: "(u64 \<Rightarrow> bool) \<Rightarrow> nat \<Rightarrow> u64 \<Rightarrow> bool" where
  "free_run mapped n v \<longleftrightarrow> 4096 dvd unat v \<and> unat v + 4096 * n \<le> unat USER_SPACE_MAX \<and>
     (\<forall>p. 4096 dvd unat p \<and> unat v \<le> unat p \<and> unat p < unat v + 4096 * n \<longrightarrow> \<not> mapped p)"

lemma free_run_mono: "free_run mapped m v \<Longrightarrow> n \<le> m \<Longrightarrow> free_run mapped n v"
  by (auto simp: free_run_def)

lemma unat_USER_SPACE_MAX: "unat USER_SPACE_MAX = 4096 * 0x800000000"
  by (simp add: USER_SPACE_MAX_def)

text \<open>A free page extends a run that ends there, or starts one.\<close>

lemma free_run_extend:
  assumes "4096 dvd unat addr" and "addr < USER_SPACE_MAX" and "\<not> mapped addr"
    and "run_len = 0 \<or> free_run mapped run_len run_start \<and> unat addr = unat run_start + 4096 * run_len"
  defines "run_start' \<equiv> if run_len = 0 then addr else run_start"
  shows "free_run mapped (run_len + 1) run_start' \<and> unat addr + 4096 = unat run_start' + 4096 * (run_len + 1)"
proof -
  obtain c where c: "unat addr = 4096 * c" using assms(1) by auto
  have "unat addr < 4096 * 0x800000000"
    using assms(2) by (simp add: word_less_nat_alt unat_USER_SPACE_MAX)
  then have "c + 1 \<le> 0x800000000" unfolding c by simp
  then have "unat addr + 4096 \<le> 4096 * 0x800000000" unfolding c by simp
  moreover have "p = addr" if p: "4096 dvd unat p" "unat addr \<le> unat p" "unat p < unat addr + 4096" for p
  proof -
    obtain d where d: "unat p = 4096 * d" using p(1) by auto
    then have "4096 * c \<le> 4096 * d" "4096 * d < 4096 * (c + 1)" using p(2,3) c by simp_all
    then have "d = c" unfolding mult_le_cancel1 mult_less_cancel1 by simp
    then show ?thesis using c d by (simp add: word_unat_eq_iff)
  qed
  ultimately have new: "free_run mapped 1 addr"
    using assms(1,3) unfolding free_run_def unat_USER_SPACE_MAX by auto
  show ?thesis
  proof (cases "run_len = 0")
    case True
    then show ?thesis using new by (simp add: run_start'_def)
  next
    case False
    with assms(4) have old: "free_run mapped run_len run_start" "unat addr = unat run_start + 4096 * run_len"
      by blast+
    have "\<not> mapped p" if p: "4096 dvd unat p" "unat run_start \<le> unat p"
        "unat p < unat run_start + 4096 * (run_len + 1)" for p
      using p old new unfolding free_run_def by (cases "unat p < unat addr") auto
    then have "free_run mapped (run_len + 1) run_start"
      using old new unfolding free_run_def by auto
    then show ?thesis using False old(2) by (simp add: run_start'_def)
  qed
qed

lemma free_range_loop_spec:
  assumes "4096 dvd unat addr"
    and "run_len = 0 \<or> free_run mapped run_len run_start \<and> unat addr = unat run_start + 4096 * run_len"
  shows "\<exists>r. free_range_loop mapped cnt addr run_start run_len = Some r \<and>
    (\<forall>v. r = Some v \<longrightarrow> free_run mapped cnt v)"
  using assms
proof (induction "unat USER_SPACE_MAX - unat addr" arbitrary: addr run_start run_len rule: less_induct)
  case less
  show ?case
  proof (cases "addr < USER_SPACE_MAX")
    case False
    then show ?thesis by (subst free_range_loop.simps) simp
  next
    case True
    then have lt: "unat addr < unat USER_SPACE_MAX" by (simp add: word_less_nat_alt)
    then have "unat addr + unat PAGE_SIZE < 2 ^ LENGTH(64)" by (simp add: USER_SPACE_MAX_def)
    then have add: "add_c addr PAGE_SIZE = Some (addr + PAGE_SIZE)" by (simp only: add_c_def if_True)
    let ?a = "addr + PAGE_SIZE"
    have a: "unat ?a = unat addr + 4096" using add_c_unat [OF add] unat_PAGE_SIZE by (simp only:)
    then have al: "4096 dvd unat ?a" using less.prems(1) by simp
    have dec: "unat USER_SPACE_MAX - unat ?a < unat USER_SPACE_MAX - unat addr" using lt a by linarith
    show ?thesis
    proof (cases "mapped addr")
      case m: True
      have "free_range_loop mapped cnt addr run_start run_len = free_range_loop mapped cnt ?a ?a 0"
        by (subst free_range_loop.simps) (simp add: True m add)
      then show ?thesis using less.hyps [OF dec al, of 0 ?a] by simp
    next
      case False
      let ?rs = "if run_len = 0 then addr else run_start"
      note ext = free_run_extend [OF less.prems(1) True False less.prems(2)]
      show ?thesis
      proof (cases "cnt \<le> run_len + 1")
        case le: True
        then have "free_range_loop mapped cnt addr run_start run_len = Some (Some ?rs)"
          by (subst free_range_loop.simps) (simp add: True False Let_def)
        then show ?thesis using free_run_mono [OF conjunct1 [OF ext] le] by simp
      next
        case gt: False
        then have "free_range_loop mapped cnt addr run_start run_len =
            free_range_loop mapped cnt ?a ?rs (run_len + 1)"
          by (subst free_range_loop.simps) (simp add: True False Let_def add)
        moreover have "run_len + 1 = 0 \<or> free_run mapped (run_len + 1) ?rs \<and>
            unat ?a = unat ?rs + 4096 * (run_len + 1)"
          using ext a by simp
        ultimately show ?thesis using less.hyps [OF dec al] by simp
      qed
    qed
  qed
qed

lemma find_free_range_spec:
  "\<exists>r. find_free_range mapped 0x70000000 cnt = Some r \<and> (\<forall>v. r = Some v \<longrightarrow> free_run mapped cnt v)"
proof -
  have y: "page_up 0x70000000 = Some 0x70000000"
    by (simp add: page_up_def page_down_def add_c_def sub_c_def PAGE_SIZE_def)
  have "4096 dvd unat (0x70000000 :: u64)" by simp
  from free_range_loop_spec [OF this, of 0] show ?thesis by (simp add: find_free_range_def y)
qed

subsection \<open>Taking and giving back the frames of a segment\<close>

context frame_allocator
begin

lemma finite_used: "finite (used s)"
  using used_pool finite_pool by (rule finite_subset)

lemma alloc_pages_spec:
  assumes "inv s"
  shows "\<exists>r s'. alloc_pages alloc n acc s = Some (r, s') \<and> inv s' \<and> pool s' = pool s \<and>
    (case r of Inl e \<Rightarrow> e = OutOfMemory \<and> used s' = pool s
     | Inr pages \<Rightarrow> \<exists>new. pages = acc @ new \<and> length new = n \<and>
         mset_set (used s') = mset_set (used s) + mset new)"
  using assms
proof (induction n arbitrary: acc s)
  case (Suc n)
  from alloc_law [OF Suc.prems] show ?case
  proof (elim disjE exE conjE)
    fix a s' assume a: "alloc s = Some (Some a, s')" "inv s'" "a \<in> pool s - used s"
      "used s' = insert a (used s)" "pool s' = pool s"
    have ms: "mset_set (used s') = add_mset a (mset_set (used s))"
      using a(3,4) finite_used [of s] by simp
    obtain r s'' where r: "alloc_pages alloc n (acc @ [a]) s' = Some (r, s'')" "inv s''" "pool s'' = pool s'"
      "case r of Inl e \<Rightarrow> e = OutOfMemory \<and> used s'' = pool s'
       | Inr pages \<Rightarrow> \<exists>new. pages = (acc @ [a]) @ new \<and> length new = n \<and>
           mset_set (used s'') = mset_set (used s') + mset new"
      using Suc.IH [OF a(2), of "acc @ [a]"] by blast
    show ?thesis
    proof (cases r)
      case (Inl e)
      then show ?thesis using a r by simp
    next
      case (Inr pages)
      then obtain new where "pages = acc @ a # new" "length new = n"
        "mset_set (used s'') = mset_set (used s) + mset (a # new)"
        using r(4) ms by auto
      then show ?thesis using Inr a(1,5) r(1-3) by (auto intro: exI [of _ "a # new"])
    qed
  qed (use Suc.prems in simp)
qed simp

lemma free_pages_spec:
  assumes "inv s" and "mset pages \<subseteq># mset_set (used s)"
  shows "\<exists>s'. free_pages free pages s = Some s' \<and> inv s' \<and> pool s' = pool s \<and>
    used s' = used s - set pages \<and> mset_set (used s') = mset_set (used s) - mset pages"
  using assms
proof (induction pages arbitrary: s)
  case (Cons a as)
  then have "a \<in># mset_set (used s)" by (auto simp: insert_subset_eq_iff)
  then have "a \<in> used s" using finite_used by simp
  then obtain s' where s': "free s a = Some s'" "inv s'" "used s' = used s - {a}" "pool s' = pool s"
    using free_law [OF Cons.prems(1)] by blast
  have ms: "mset_set (used s') = mset_set (used s) - {#a#}"
    using s'(3) \<open>a \<in> used s\<close> finite_used [of s] by (simp add: mset_set_Diff)
  then have "mset as \<subseteq># mset_set (used s')"
    using Cons.prems(2) by (simp add: insert_subset_eq_iff)
  then show ?case
    using Cons.IH [OF s'(2)] s' ms by auto
qed simp

end

subsection \<open>Invariant\<close>

text \<open>The pieces: well-formed segments; every frame of a segment is in use and belongs to no other
  segment (as multisets, so that a frame listed twice would be excluded too); reference counts are
  the number of attachments, where \<open>M\<close> counts references of attachments already taken from a task
  but not yet dropped; attachments lie in user space.\<close>

definition seg_ok :: "u32 \<Rightarrow> u32 \<Rightarrow> shm_segment \<Rightarrow> bool" where
  "seg_ok nxt k g \<longleftrightarrow> seg_id g = k \<and> k < nxt \<and> unat (seg_size g) = 4096 * length (seg_pages g) \<and>
     length (seg_pages g) \<le> 4096"

definition att_ok :: "shm_attachment \<Rightarrow> bool" where
  "att_ok a \<longleftrightarrow> unat (att_virt a) + 4096 * div_ceil_page (att_size a) \<le> unat USER_SPACE_MAX"

definition att_refs :: "u32 \<Rightarrow> shm_task \<Rightarrow> nat" where
  "att_refs k t = length (filter (\<lambda>a. att_shmid a = k) (sht_attachments t))"

definition seg_frames :: "shm_state \<Rightarrow> u64 multiset" where
  "seg_frames s = bt_sum (\<lambda>g. mset (seg_pages g)) (shm_table s)"

definition shm_refs :: "shm_state \<Rightarrow> u32 \<Rightarrow> nat" where
  "shm_refs s k = bt_sum (att_refs k) (shm_tasks s)"

definition seg_refs :: "shm_state \<Rightarrow> u32 \<Rightarrow> nat" where
  "seg_refs s k = (case bt_get (shm_table s) k of None \<Rightarrow> 0 | Some g \<Rightarrow> unat (seg_refcount g))"

definition shm_wf :: "shm_state \<Rightarrow> bool" where
  "shm_wf s \<longleftrightarrow> fa_inv (shm_frames s) \<and> bt_wf (shm_table s) \<and> bt_wf (shm_tasks s) \<and>
     (\<forall>k g. bt_get (shm_table s) k = Some g \<longrightarrow> seg_ok (shm_next_id s) k g) \<and>
     (\<forall>tid t. bt_get (shm_tasks s) tid = Some t \<longrightarrow> (\<forall>a \<in> set (sht_attachments t). att_ok a)) \<and>
     seg_frames s \<subseteq># mset_set (fa_used (shm_frames s))"

definition shm_inv_pending :: "shm_state \<Rightarrow> u32 multiset \<Rightarrow> bool" where
  "shm_inv_pending s M \<longleftrightarrow> shm_wf s \<and> (\<forall>k. shm_refs s k + count M k = seg_refs s k)"

abbreviation shm_inv :: "shm_state \<Rightarrow> bool" where
  "shm_inv s \<equiv> shm_inv_pending s {#}"

lemma seg_frames_remove:
  assumes "shm_wf s" and "bt_get (shm_table s) k = Some g"
  shows "mset (seg_pages g) \<subseteq># mset_set (fa_used (shm_frames s))"
    and "bt_sum (\<lambda>g. mset (seg_pages g)) (bt_remove k (shm_table s)) = seg_frames s - mset (seg_pages g)"
proof -
  have sum: "seg_frames s = mset (seg_pages g) + bt_sum (\<lambda>g. mset (seg_pages g)) (bt_remove k (shm_table s))"
    unfolding seg_frames_def using assms by (intro bt_sum_remove) (auto simp: shm_wf_def)
  have "seg_frames s \<subseteq># mset_set (fa_used (shm_frames s))" using assms(1) by (simp add: shm_wf_def)
  then show "mset (seg_pages g) \<subseteq># mset_set (fa_used (shm_frames s))"
    unfolding sum using mset_subset_eq_add_left subset_mset.order_trans by blast
  show "bt_sum (\<lambda>g. mset (seg_pages g)) (bt_remove k (shm_table s)) = seg_frames s - mset (seg_pages g)"
    unfolding sum by simp
qed

text \<open>Removing a segment frees its frames and keeps the state well-formed.\<close>

lemma remove_segment:
  assumes "shm_wf s" and "bt_get (shm_table s) k = Some g"
  shows "\<exists>fr. free_pages free_frame (seg_pages g) (shm_frames s) = Some fr \<and>
    fa_used fr = fa_used (shm_frames s) - set (seg_pages g) \<and>
    shm_wf (s\<lparr>shm_table := bt_remove k (shm_table s), shm_frames := fr\<rparr>)"
proof -
  have "fa_inv (shm_frames s)" using assms(1) by (simp add: shm_wf_def)
  then obtain fr where fr: "free_pages free_frame (seg_pages g) (shm_frames s) = Some fr" "fa_inv fr"
    "fa_used fr = fa_used (shm_frames s) - set (seg_pages g)"
    "mset_set (fa_used fr) = mset_set (fa_used (shm_frames s)) - mset (seg_pages g)"
    using fa.free_pages_spec seg_frames_remove(1) [OF assms] by blast
  have "seg_frames s - mset (seg_pages g) \<subseteq># mset_set (fa_used fr)"
    unfolding fr(4) using assms(1) by (intro subset_eq_diff_conv [THEN iffD2])
      (auto simp: shm_wf_def subset_eq_diff_conv seg_frames_remove(1) [OF assms])
  then have "shm_wf (s\<lparr>shm_table := bt_remove k (shm_table s), shm_frames := fr\<rparr>)"
    using assms(1) fr(2) seg_frames_remove(2) [OF assms]
    by (auto simp: shm_wf_def seg_frames_def split: if_splits)
  then show ?thesis using fr(1,3) by blast
qed

text \<open>Changing only the reference count and the mark of a segment.\<close>

lemma shm_wf_modify:
  assumes "shm_wf s" and "\<And>g. seg_id (f g) = seg_id g" "\<And>g. seg_pages (f g) = seg_pages g"
    "\<And>g. seg_size (f g) = seg_size g"
  shows "shm_wf (s\<lparr>shm_table := bt_modify k f (shm_table s)\<rparr>)"
  using assms by (auto simp: shm_wf_def seg_frames_def bt_sum_same seg_ok_def split: if_splits)

lemma drop_reference_inv:
  assumes "shm_inv_pending s (add_mset k M)"
  shows "\<exists>s'. drop_reference s k = Some s' \<and> shm_inv_pending s' M \<and> shm_tasks s' = shm_tasks s"
proof -
  have wf: "shm_wf s" and refs: "\<And>x. shm_refs s x + count (add_mset k M) x = seg_refs s x"
    using assms by (auto simp: shm_inv_pending_def)
  obtain g where g: "bt_get (shm_table s) k = Some g" "shm_refs s k + count M k + 1 = unat (seg_refcount g)"
    using refs [of k] by (auto simp: seg_refs_def split: option.splits)
  let ?rc = "sat_sub (seg_refcount g) 1"
  have rc: "unat ?rc = shm_refs s k + count M k" using g(2) by (simp add: unat_sat_sub)
  show ?thesis
  proof (cases "seg_marked g \<and> ?rc = 0")
    case True
    then have zero: "shm_refs s k + count M k = 0" using rc by simp
    obtain fr where fr: "free_pages free_frame (seg_pages g) (shm_frames s) = Some fr"
      "shm_wf (s\<lparr>shm_table := bt_remove k (shm_table s), shm_frames := fr\<rparr>)" (is "shm_wf ?s'")
      using remove_segment [OF wf g(1)] by blast
    have "shm_refs ?s' x + count M x = seg_refs ?s' x" for x
      using refs [of x] zero by (auto simp: shm_refs_def seg_refs_def)
    then show ?thesis
      using True fr g(1) by (auto simp: drop_reference_def shm_inv_pending_def Let_def)
  next
    case False
    let ?s' = "s\<lparr>shm_table := bt_modify k (\<lambda>g. g\<lparr>seg_refcount := ?rc\<rparr>) (shm_table s)\<rparr>"
    have "shm_refs ?s' x + count M x = seg_refs ?s' x" for x
      using refs [of x] rc g(1) by (auto simp: shm_refs_def seg_refs_def)
    moreover have "shm_wf ?s'" using wf by (rule shm_wf_modify) simp_all
    moreover have "drop_reference s k = Some ?s'" using False g(1) by (auto simp: drop_reference_def Let_def)
    ultimately show ?thesis by (auto simp: shm_inv_pending_def)
  qed
qed

subsection \<open>Every operation keeps the invariant\<close>

text \<open>What one call adds at most: one reference and one identifier.\<close>

definition shm_grows :: "shm_state \<Rightarrow> shm_state \<Rightarrow> bool" where
  "shm_grows s s' \<longleftrightarrow> (\<forall>x. shm_refs s' x \<le> Suc (shm_refs s x)) \<and>
     unat (shm_next_id s') \<le> Suc (unat (shm_next_id s))"

lemma shm_grows_refl [simp]: "shm_grows s s"
  by (simp add: shm_grows_def)

lemma page_offset:
  assumes "unat virt + 4096 * i \<le> unat USER_SPACE_MAX"
  shows "mul_c (of_nat i) PAGE_SIZE = Some (of_nat i * PAGE_SIZE)"
    and "\<exists>p. add_c virt (of_nat i * PAGE_SIZE) = Some p"
proof -
  have i: "4096 * i \<le> 0x800000000000" "unat virt + 4096 * i \<le> 0x800000000000"
    using assms by (simp_all add: USER_SPACE_MAX_def)
  then have "unat (of_nat i :: u64) = i" by (intro unat_of_nat_small) simp
  then have "unat (of_nat i :: u64) * unat PAGE_SIZE < 2 ^ LENGTH(64)" using i(1) by simp
  then show m: "mul_c (of_nat i) PAGE_SIZE = Some (of_nat i * PAGE_SIZE)" by (simp only: mul_c_def if_True)
  have "unat (of_nat i * PAGE_SIZE) = 4096 * i"
    using mul_c_unat [OF m] \<open>unat (of_nat i :: u64) = i\<close> by simp
  then have "unat virt + unat (of_nat i * PAGE_SIZE) < 2 ^ LENGTH(64)" using i(2) by simp
  then show "\<exists>p. add_c virt (of_nat i * PAGE_SIZE) = Some p" by (simp only: add_c_def if_True) blast
qed

lemma unmap_pages_total:
  "\<forall>i \<in> set is. unat virt + 4096 * i \<le> unat USER_SPACE_MAX \<Longrightarrow> \<exists>pm'. unmap_pages virt is pm = Some pm'"
proof (induction "is" arbitrary: pm)
  case (Cons i "is")
  then show ?case using page_offset [of virt i] by fastforce
qed simp

lemma map_pages_total:
  "unat virt + 4096 * (i + length pages) \<le> unat USER_SPACE_MAX \<Longrightarrow> \<exists>pm'. map_pages virt i pages pm = Some pm'"
proof (induction pages arbitrary: i pm)
  case (Cons a pages)
  then have "unat virt + 4096 * i \<le> unat USER_SPACE_MAX" by simp
  then show ?case
    using page_offset [of virt i] Cons.IH [of "i + 1"] Cons.prems by fastforce
qed simp

lemma unmap_att:
  assumes "att_ok a"
  shows "\<exists>pm'. unmap_pages (att_virt a) [0..<div_ceil_page (att_size a)] pm = Some pm'"
  using assms by (intro unmap_pages_total) (auto simp: att_ok_def)

lemma att_refs_remove_at:
  assumes "i < length (sht_attachments t)"
  shows "att_refs k t = att_refs k (t\<lparr>sht_attachments := remove_at i (sht_attachments t), sht_vmas := v, sht_pages := p\<rparr>) +
    (if att_shmid (sht_attachments t ! i) = k then 1 else 0)"
proof -
  have "sht_attachments t = take i (sht_attachments t) @ sht_attachments t ! i # drop (Suc i) (sht_attachments t)"
    using assms by (rule id_take_nth_drop)
  then have "filter (\<lambda>a. att_shmid a = k) (sht_attachments t) =
      filter (\<lambda>a. att_shmid a = k) (take i (sht_attachments t) @ sht_attachments t ! i # drop (Suc i) (sht_attachments t))"
    by simp
  then show ?thesis by (simp add: att_refs_def remove_at_def)
qed

lemma drop_reference_frame:
  "drop_reference s k = Some s' \<Longrightarrow> shm_tasks s' = shm_tasks s \<and> shm_next_id s' = shm_next_id s"
  by (auto simp: drop_reference_def Let_def bind_eq_Some_conv split: option.splits if_splits)

lemma shmdt_inv:
  assumes "shm_inv s"
  shows "\<exists>r s'. shmdt s tid virt = Some (r, s') \<and> shm_inv s' \<and> shm_grows s s'"
proof (cases "virt = 0 \<or> virt mod PAGE_SIZE \<noteq> 0 \<or> bt_get (shm_tasks s) tid = None \<or>
    position (\<lambda>a. att_virt a = virt) (sht_attachments (the (bt_get (shm_tasks s) tid))) = None")
  case True
  then show ?thesis
    using assms by (cases "bt_get (shm_tasks s) tid") (auto simp: shmdt_def)
next
  case False
  then obtain t i where t: "bt_get (shm_tasks s) tid = Some t"
    and i: "position (\<lambda>a. att_virt a = virt) (sht_attachments t) = Some i"
    and v: "\<not> (virt = 0 \<or> virt mod PAGE_SIZE \<noteq> 0)"
    by auto
  let ?att = "sht_attachments t ! i"
  have len: "i < length (sht_attachments t)" using i by (rule position_lt)
  have wf: "shm_wf s" and refs: "\<And>x. shm_refs s x = seg_refs s x"
    using assms by (auto simp: shm_inv_pending_def)
  have "att_ok ?att" using wf t len by (auto simp: shm_wf_def)
  then obtain pm where pm: "unmap_pages (att_virt ?att) [0..<div_ceil_page (att_size ?att)] (sht_pages t) = Some pm"
    using unmap_att by blast
  let ?f = "\<lambda>t. t\<lparr>sht_attachments := remove_at i (sht_attachments t),
     sht_vmas := snd (vma_remove (sht_vmas t) (att_virt ?att)), sht_pages := pm\<rparr>"
  let ?s' = "s\<lparr>shm_tasks := bt_modify tid ?f (shm_tasks s)\<rparr>"
  have wt: "bt_wf (shm_tasks s)" using wf by (simp add: shm_wf_def)
  have refs': "shm_refs ?s' x + count {#att_shmid ?att#} x = seg_refs s x" for x
    using refs [of x] bt_sum_modify [OF wt t, of "att_refs x" ?f] bt_sum_remove [OF wt t, of "att_refs x"]
      att_refs_remove_at [OF len, where v = "snd (vma_remove (sht_vmas t) (att_virt ?att))" and p = pm and k = x]
    by (auto simp: shm_refs_def seg_refs_def split: if_splits)
  have "shm_wf ?s'"
    using wf t set_remove_at_subset [of i "sht_attachments t"]
    by (auto simp: shm_wf_def seg_frames_def split: if_splits)
  then have "shm_inv_pending ?s' (add_mset (att_shmid ?att) {#})"
    using refs' by (simp add: shm_inv_pending_def seg_refs_def)
  then obtain s'' where s'': "drop_reference ?s' (att_shmid ?att) = Some s''" "shm_inv s''"
    using drop_reference_inv by blast
  moreover have "shm_refs s'' x \<le> Suc (shm_refs s x)" for x
    using drop_reference_frame [OF s''(1)] refs' [of x] refs [of x] by (simp add: shm_refs_def)
  ultimately show ?thesis
    using t i v pm drop_reference_frame [OF s''(1)] by (simp add: shmdt_def Let_def shm_grows_def)
qed

lemma mark_removal_inv:
  assumes "shm_inv s"
  shows "\<exists>r s'. shm_mark_removal s k = Some (r, s') \<and> shm_inv s' \<and> shm_grows s s'"
proof (cases "bt_get (shm_table s) k")
  case None
  then show ?thesis using assms by (simp add: shm_mark_removal_def)
next
  case (Some g)
  have wf: "shm_wf s" and refs: "\<And>x. shm_refs s x = seg_refs s x"
    using assms by (auto simp: shm_inv_pending_def)
  show ?thesis
  proof (cases "seg_refcount g = 0")
    case True
    obtain fr where fr: "free_pages free_frame (seg_pages g) (shm_frames s) = Some fr"
      "shm_wf (s\<lparr>shm_table := bt_remove k (shm_table s), shm_frames := fr\<rparr>)" (is "shm_wf ?s'")
      using remove_segment [OF wf Some] by blast
    have "shm_refs ?s' x = seg_refs ?s' x" for x
      using refs [of x] True Some by (auto simp: shm_refs_def seg_refs_def)
    then show ?thesis
      using True fr Some by (auto simp: shm_mark_removal_def shm_inv_pending_def shm_grows_def shm_refs_def Let_def)
  next
    case False
    let ?s' = "s\<lparr>shm_table := bt_modify k (\<lambda>g. g\<lparr>seg_marked := True\<rparr>) (shm_table s)\<rparr>"
    have "shm_refs ?s' x = seg_refs ?s' x" for x
      using refs [of x] Some by (auto simp: shm_refs_def seg_refs_def)
    moreover have "shm_wf ?s'" using wf by (rule shm_wf_modify) simp_all
    ultimately show ?thesis
      using False Some by (auto simp: shm_mark_removal_def shm_inv_pending_def shm_grows_def shm_refs_def Let_def)
  qed
qed

lemma cleanup_inv:
  assumes "shm_inv_pending s (M + mset (map att_shmid atts))" and "\<forall>a \<in> set atts. att_ok a"
  shows "\<exists>pm' s'. cleanup_task_attachments atts pm s = Some (pm', s') \<and> shm_inv_pending s' M \<and>
    shm_tasks s' = shm_tasks s"
  using assms
proof (induction atts arbitrary: pm s)
  case (Cons a atts)
  obtain pm' where pm': "unmap_pages (att_virt a) [0..<div_ceil_page (att_size a)] pm = Some pm'"
    using unmap_att Cons.prems(2) by (metis list.set_intros(1))
  obtain s' where s': "drop_reference s (att_shmid a) = Some s'"
    "shm_inv_pending s' (M + mset (map att_shmid atts))" "shm_tasks s' = shm_tasks s"
    using drop_reference_inv [of s "att_shmid a" "M + mset (map att_shmid atts)"] Cons.prems(1) by auto
  show ?case
    using Cons.IH [OF s'(2)] Cons.prems(2) pm' s'(1,3) by simp
qed simp

lemma shmat_inv:
  assumes "shm_inv s" and "Suc (shm_refs s k) < 2 ^ 32"
  shows "\<exists>r s'. shmat s tid k = Some (r, s') \<and> shm_inv s' \<and> shm_grows s s'"
proof (cases "\<exists>g t. bt_get (shm_table s) k = Some g \<and> \<not> seg_marked g \<and> bt_get (shm_tasks s) tid = Some t")
  case False
  then show ?thesis using assms(1) by (auto simp: shmat_def split: option.splits)
next
  case True
  then obtain g t where g: "bt_get (shm_table s) k = Some g" "\<not> seg_marked g"
    and t: "bt_get (shm_tasks s) tid = Some t" by blast
  have wf: "shm_wf s" and refs: "\<And>x. shm_refs s x = seg_refs s x"
    using assms(1) by (auto simp: shm_inv_pending_def)
  have gok: "seg_ok (shm_next_id s) k g" using wf g(1) by (simp add: shm_wf_def)
  obtain r where r: "find_free_range (\<lambda>a. sht_pages t a \<noteq> None) 0x70000000 (div_ceil_page (seg_size g)) = Some r"
    "\<forall>v. r = Some v \<longrightarrow> free_run (\<lambda>a. sht_pages t a \<noteq> None) (div_ceil_page (seg_size g)) v"
    using find_free_range_spec by blast
  show ?thesis
  proof (cases r)
    case None
    then show ?thesis using assms(1) g t r(1) by (simp add: shmat_def)
  next
    case (Some virt)
    let ?att = "\<lparr>att_shmid = k, att_virt = virt, att_size = seg_size g\<rparr>"
    have run: "unat virt + 4096 * div_ceil_page (seg_size g) \<le> unat USER_SPACE_MAX"
      using r(2) Some by (simp add: free_run_def)
    moreover have "div_ceil_page (seg_size g) = length (seg_pages g)"
      using gok by (simp add: div_ceil_page_def seg_ok_def)
    ultimately obtain pm where pm: "map_pages virt 0 (seg_pages g) (sht_pages t) = Some pm"
      using map_pages_total [of virt 0 "seg_pages g"] by auto
    have rc': "unat (seg_refcount g) + 1 < 2 ^ 32" using assms(2) refs [of k] g(1) by (simp add: seg_refs_def)
    then have rc: "add_c (seg_refcount g) 1 = Some (seg_refcount g + 1)" by (simp add: add_c_def)
    let ?rc = "seg_refcount g + 1"
    let ?f = "\<lambda>t. t\<lparr>sht_pages := pm, sht_attachments := sht_attachments t @ [?att]\<rparr>"
    let ?s1 = "s\<lparr>shm_table := bt_modify k (\<lambda>g. g\<lparr>seg_refcount := ?rc\<rparr>) (shm_table s)\<rparr>"
    let ?s' = "?s1\<lparr>shm_tasks := bt_modify tid ?f (shm_tasks s)\<rparr>"
    have wt: "bt_wf (shm_tasks s)" using wf by (simp add: shm_wf_def)
    have refs': "shm_refs ?s' x = seg_refs ?s' x" for x
      using refs [of x] bt_sum_modify [OF wt t, of "att_refs x" ?f] bt_sum_remove [OF wt t, of "att_refs x"]
        add_c_unat [OF rc] g(1)
      by (auto simp: shm_refs_def seg_refs_def att_refs_def)
    have "shm_wf ?s1" using wf by (rule shm_wf_modify) simp_all
    then have "shm_wf ?s'"
      using run t wf by (auto simp: shm_wf_def seg_frames_def att_ok_def split: if_splits)
    then have "shm_inv ?s'" using refs' by (simp add: shm_inv_pending_def)
    moreover have "seg_refs ?s' x \<le> Suc (seg_refs s x)" for x
      using g(1) add_c_unat [OF rc] by (simp add: seg_refs_def)
    then have "shm_grows s ?s'" unfolding shm_grows_def refs' refs by simp
    ultimately show ?thesis
      using g t r(1) Some pm rc by (simp add: shmat_def)
  qed
qed

text \<open>The two ways the creating branch of \<open>shmget\<close> ends.\<close>

lemma page_count_shm:
  assumes "sz \<le> MAX_SHM_SIZE"
  obtains a where "page_up sz = Some a" and "unat a = 4096 * div_ceil_page sz"
    and "unat (a div PAGE_SIZE) = div_ceil_page sz" and "div_ceil_page sz \<le> 4096"
proof -
  have sz: "unat sz \<le> 16777216" using assms by (simp add: MAX_SHM_SIZE_def word_le_nat_alt)
  then have "sz < 0x40000000" by (simp add: word_less_nat_alt)
  then obtain a where a: "page_up sz = Some a" "unat a = (unat sz + 4095) div 4096 * 4096"
    using page_up_small by blast
  then show thesis using that sz by (simp add: div_ceil_page_def unat_div)
qed

definition shm_create :: "shm_state \<Rightarrow> u32 \<Rightarrow> u64 \<Rightarrow> u64 list \<Rightarrow> frame_state \<Rightarrow> shm_state" where
  "shm_create s key sz pages fr = s\<lparr>shm_next_id := shm_next_id s + 1, shm_frames := fr,
     shm_table := bt_insert (shm_next_id s) \<lparr>seg_id = shm_next_id s, seg_key = key, seg_size = sz,
       seg_refcount = 0, seg_pages = pages, seg_marked = False\<rparr> (shm_table s)\<rparr>"

lemma shmget_create:
  assumes "MIN_SHM_SIZE \<le> sz" and "sz \<le> MAX_SHM_SIZE" and "fa_inv (shm_frames s)"
    and "key = 0 \<or> flags AND IPC_CREAT \<noteq> 0 \<and> \<not> (\<exists>g \<in> set (bt_values (shm_table s)). seg_key g = key \<and> \<not> seg_marked g)"
  obtains (oom) fr where "shmget s key sz flags = Some (Inl OutOfMemory, s\<lparr>shm_frames := fr\<rparr>)" "fa_inv fr"
      "fa_used fr = fa_pool (shm_frames s)" "fa_pool fr = fa_pool (shm_frames s)"
  | (new) a pages fr where "shmget s key sz flags = Some (Inr (shm_next_id s), shm_create s key a pages fr)"
      "unat a = 4096 * length pages" "length pages = div_ceil_page sz" "length pages \<le> 4096" "fa_inv fr"
      "mset_set (fa_used fr) = mset_set (fa_used (shm_frames s)) + mset pages"
proof -
  obtain a where a: "page_up sz = Some a" "unat a = 4096 * div_ceil_page sz"
    "unat (a div PAGE_SIZE) = div_ceil_page sz" "div_ceil_page sz \<le> 4096"
    using page_count_shm [OF assms(2)] by blast
  obtain r fr where r: "alloc_pages alloc_frame (div_ceil_page sz) [] (shm_frames s) = Some (r, fr)" "fa_inv fr"
    "fa_pool fr = fa_pool (shm_frames s)"
    "case r of Inl e \<Rightarrow> e = OutOfMemory \<and> fa_used fr = fa_pool (shm_frames s)
     | Inr pages \<Rightarrow> \<exists>new. pages = [] @ new \<and> length new = div_ceil_page sz \<and>
         mset_set (fa_used fr) = mset_set (fa_used (shm_frames s)) + mset new"
    using fa.alloc_pages_spec [OF assms(3), of "div_ceil_page sz" "[]"] by blast
  have ex: "(if key \<noteq> 0 then find (\<lambda>seg. seg_key seg = key \<and> \<not> seg_marked seg) (bt_values (shm_table s)) else None) = None"
    using assms(4) by (auto simp: find_None_iff)
  have eq: "shmget s key sz flags = (case r of Inl e \<Rightarrow> Some (Inl e, s\<lparr>shm_frames := fr\<rparr>)
     | Inr pages \<Rightarrow> Some (Inr (shm_next_id s), shm_create s key a pages fr))"
    unfolding shmget_def Let_def ex a(1) bind.bind_lunit a(3) r(1)
    using assms(1,2,4) by (auto simp: shm_create_def split: sum.splits)
  show thesis
  proof (cases r)
    case (Inl e)
    then show ?thesis using oom eq r by simp
  next
    case (Inr pages)
    then show ?thesis using new [of a pages fr] eq r a(2,4) by auto
  qed
qed

lemma shm_create_inv:
  assumes "shm_inv s" and "unat (shm_next_id s) + 1 < 2 ^ 32" and "unat a = 4096 * length pages"
    and "length pages \<le> 4096" and "fa_inv fr"
    and "mset_set (fa_used fr) = mset_set (fa_used (shm_frames s)) + mset pages"
  shows "shm_inv (shm_create s key a pages fr)"
proof -
  have wf: "shm_wf s" and refs: "\<And>x. shm_refs s x = seg_refs s x"
    using assms(1) by (auto simp: shm_inv_pending_def)
  have n: "unat (shm_next_id s + 1) = unat (shm_next_id s) + 1"
    using assms(2) add_c_unat [of "shm_next_id s" 1 "shm_next_id s + 1"] by (simp add: add_c_def)
  have fresh: "bt_get (shm_table s) (shm_next_id s) = None"
    using wf by (cases "bt_get (shm_table s) (shm_next_id s)") (auto simp: shm_wf_def seg_ok_def)
  have ok: "seg_ok (shm_next_id s + 1) k g" if "bt_get (shm_table s) k = Some g" for k g
  proof -
    have "seg_ok (shm_next_id s) k g" using wf that by (simp add: shm_wf_def)
    then show ?thesis using n by (simp add: seg_ok_def word_less_nat_alt)
  qed
  have "seg_frames (shm_create s key a pages fr) = mset pages + seg_frames s"
    by (simp add: seg_frames_def shm_create_def bt_sum_insert [OF fresh])
  then have "seg_frames (shm_create s key a pages fr) \<subseteq># mset_set (fa_used fr)"
    using wf assms(6) by (simp add: shm_wf_def)
  then have "shm_wf (shm_create s key a pages fr)"
    using wf ok n assms(3-5)
    by (auto simp: shm_wf_def shm_create_def seg_ok_def word_less_nat_alt split: if_splits)
  moreover have "shm_refs (shm_create s key a pages fr) x = seg_refs (shm_create s key a pages fr) x" for x
    using refs [of x] fresh by (auto simp: shm_refs_def seg_refs_def shm_create_def)
  ultimately show ?thesis by (simp add: shm_inv_pending_def)
qed

lemma shm_oom_inv:
  assumes "shm_inv s" and "fa_inv fr" and "fa_used fr = fa_pool (shm_frames s)"
  shows "shm_inv (s\<lparr>shm_frames := fr\<rparr>)"
proof -
  have "mset_set (fa_used (shm_frames s)) \<subseteq># mset_set (fa_used fr)"
    unfolding assms(3) using fa_used_pool fa.finite_pool by (rule subset_imp_msubset_mset_set)
  moreover have "seg_frames s \<subseteq># mset_set (fa_used (shm_frames s))"
    using assms(1) by (simp add: shm_inv_pending_def shm_wf_def)
  ultimately have "seg_frames s \<subseteq># mset_set (fa_used fr)" using subset_mset.order_trans by blast
  then show ?thesis
    using assms(1,2) by (simp add: shm_inv_pending_def shm_wf_def seg_frames_def shm_refs_def seg_refs_def)
qed

lemma shmget_inv:
  assumes "shm_inv s" and "unat (shm_next_id s) + 1 < 2 ^ 32"
  shows "\<exists>r s'. shmget s key sz flags = Some (r, s') \<and> shm_inv s' \<and> shm_grows s s'"
proof (cases "MIN_SHM_SIZE \<le> sz \<and> sz \<le> MAX_SHM_SIZE \<and> (key = 0 \<or> flags AND IPC_CREAT \<noteq> 0 \<and>
    \<not> (\<exists>g \<in> set (bt_values (shm_table s)). seg_key g = key \<and> \<not> seg_marked g))")
  case False
  then have "\<exists>r. shmget s key sz flags = Some (r, s)"
    by (auto simp: shmget_def Let_def find_None_iff split: option.splits)
  then show ?thesis using assms(1) by auto
next
  case True
  have fr: "fa_inv (shm_frames s)" using assms(1) by (simp add: shm_inv_pending_def shm_wf_def)
  have sz: "MIN_SHM_SIZE \<le> sz" "sz \<le> MAX_SHM_SIZE" and
    key: "key = 0 \<or> flags AND IPC_CREAT \<noteq> 0 \<and> \<not> (\<exists>g \<in> set (bt_values (shm_table s)). seg_key g = key \<and> \<not> seg_marked g)"
    using True by blast+
  show ?thesis
  proof (rule shmget_create [OF sz fr key])
    fix fr assume "shmget s key sz flags = Some (Inl OutOfMemory, s\<lparr>shm_frames := fr\<rparr>)" "fa_inv fr"
      "fa_used fr = fa_pool (shm_frames s)"
    then show ?thesis using shm_oom_inv [OF assms(1)] by (simp add: shm_grows_def shm_refs_def)
  next
    fix a pages fr
    assume "shmget s key sz flags = Some (Inr (shm_next_id s), shm_create s key a pages fr)"
      "unat a = 4096 * length pages" "length pages \<le> 4096" "fa_inv fr"
      "mset_set (fa_used fr) = mset_set (fa_used (shm_frames s)) + mset pages"
    moreover have "unat (shm_next_id s + 1) = Suc (unat (shm_next_id s))"
      using assms(2) add_c_unat [of "shm_next_id s" 1 "shm_next_id s + 1"] by (simp add: add_c_def)
    ultimately show ?thesis
      using shm_create_inv [OF assms] by (simp add: shm_create_def shm_grows_def shm_refs_def)
  qed
qed

subsection \<open>Sequences of calls\<close>

datatype shm_op =
    Shm_get u32 u64 u32
  | Shm_at u64 u32
  | Shm_dt u64 u64
  | Shm_rmid u32
  | Shm_exit u64

text \<open>\<open>Shm_exit\<close>: the task is gone and its attachments are cleaned up.\<close>

fun shm_step :: "shm_state \<Rightarrow> shm_op \<Rightarrow> shm_state panics" where
  "shm_step s (Shm_get key sz flags) = map_option snd (shmget s key sz flags)"
| "shm_step s (Shm_at tid k) = map_option snd (shmat s tid k)"
| "shm_step s (Shm_dt tid virt) = map_option snd (shmdt s tid virt)"
| "shm_step s (Shm_rmid k) = map_option snd (shm_mark_removal s k)"
| "shm_step s (Shm_exit tid) =
     (case bt_get (shm_tasks s) tid of
        None \<Rightarrow> Some s
      | Some t \<Rightarrow> map_option snd (cleanup_task_attachments (sht_attachments t) (sht_pages t)
          (s\<lparr>shm_tasks := bt_remove tid (shm_tasks s)\<rparr>)))"

definition shm_room :: "shm_state \<Rightarrow> nat \<Rightarrow> bool" where
  "shm_room s n \<longleftrightarrow> unat (shm_next_id s) + n < 2 ^ 32 \<and> (\<forall>k. shm_refs s k + n < 2 ^ 32)"

lemma cleanup_frame:
  "cleanup_task_attachments atts pm s = Some (pm', s') \<Longrightarrow>
   shm_tasks s' = shm_tasks s \<and> shm_next_id s' = shm_next_id s"
  by (induction atts arbitrary: pm s) (auto simp: bind_eq_Some_conv dest: drop_reference_frame)

lemma shm_exit_inv:
  assumes "shm_inv s" and "bt_get (shm_tasks s) tid = Some t"
  shows "\<exists>pm s'. cleanup_task_attachments (sht_attachments t) (sht_pages t)
      (s\<lparr>shm_tasks := bt_remove tid (shm_tasks s)\<rparr>) = Some (pm, s') \<and> shm_inv s' \<and> shm_grows s s'"
proof -
  have wf: "shm_wf s" and refs: "\<And>x. shm_refs s x = seg_refs s x"
    using assms(1) by (auto simp: shm_inv_pending_def)
  have wt: "bt_wf (shm_tasks s)" using wf by (simp add: shm_wf_def)
  let ?s = "s\<lparr>shm_tasks := bt_remove tid (shm_tasks s)\<rparr>"
  have cnt: "count (mset (map att_shmid as)) x = length (filter (\<lambda>a. att_shmid a = x) as)" for x as
    by (induction as) auto
  have "shm_wf ?s" using wf by (auto simp: shm_wf_def seg_frames_def split: if_splits)
  moreover have "shm_refs ?s x + count (mset (map att_shmid (sht_attachments t))) x = seg_refs ?s x" for x
    unfolding cnt using refs [of x] bt_sum_remove [OF wt assms(2), of "att_refs x"]
    by (simp add: shm_refs_def seg_refs_def att_refs_def [of x t])
  ultimately have "shm_inv_pending ?s ({#} + mset (map att_shmid (sht_attachments t)))"
    by (simp add: shm_inv_pending_def)
  moreover have "\<forall>a \<in> set (sht_attachments t). att_ok a" using wf assms(2) by (auto simp: shm_wf_def)
  ultimately obtain pm s' where s': "cleanup_task_attachments (sht_attachments t) (sht_pages t) ?s = Some (pm, s')"
    "shm_inv s'"
    using cleanup_inv by blast
  have "shm_grows s s'"
    using cleanup_frame [OF s'(1)] bt_sum_remove [OF wt assms(2), of "att_refs _"]
    by (simp add: shm_grows_def shm_refs_def trans_le_add2 le_SucI)
  then show ?thesis using s' by blast
qed

lemma shm_room_step:
  assumes "shm_room s (Suc n)" and "shm_grows s s'"
  shows "shm_room s' n"
  unfolding shm_room_def
proof (intro conjI allI)
  show "unat (shm_next_id s') + n < 2 ^ 32" using assms by (auto simp: shm_room_def shm_grows_def)
  fix k
  have "shm_refs s k + Suc n < 2 ^ 32" "shm_refs s' k \<le> Suc (shm_refs s k)"
    using assms by (auto simp: shm_room_def shm_grows_def)
  then show "shm_refs s' k + n < 2 ^ 32" by linarith
qed

lemma shm_step_inv:
  assumes "shm_inv s" and "shm_room s (Suc n)"
  shows "\<exists>s'. shm_step s c = Some s' \<and> shm_inv s' \<and> shm_room s' n"
proof -
  have next_id: "unat (shm_next_id s) + 1 < 2 ^ 32" and refs: "Suc (shm_refs s k) < 2 ^ 32" for k
    using assms(2) by (auto simp: shm_room_def add_less_le_mono dest: spec [of _ k])
  have "\<exists>s'. shm_step s c = Some s' \<and> shm_inv s' \<and> shm_grows s s'"
  proof (cases c)
    case (Shm_get key sz flags)
    then show ?thesis using shmget_inv [OF assms(1) next_id, of key sz flags] by auto
  next
    case (Shm_at tid k)
    then show ?thesis using shmat_inv [OF assms(1) refs, of tid k] by auto
  next
    case (Shm_dt tid virt)
    then show ?thesis using shmdt_inv [OF assms(1), of tid virt] by auto
  next
    case (Shm_rmid k)
    then show ?thesis using mark_removal_inv [OF assms(1), of k] by auto
  next
    case (Shm_exit tid)
    then show ?thesis using shm_exit_inv [OF assms(1), of tid] assms(1) by (auto split: option.splits)
  qed
  then show ?thesis using shm_room_step [OF assms(2)] by blast
qed

lemma shm_run_inv:
  "shm_inv s \<Longrightarrow> shm_room s (length ops) \<Longrightarrow> \<exists>s'. run_ops shm_step s ops = Some s' \<and> shm_inv s'"
proof (induction ops arbitrary: s)
  case (Cons c ops)
  then obtain s' where "shm_step s c = Some s'" "shm_inv s'" "shm_room s' (length ops)"
    using shm_step_inv [of s "length ops" c] by auto
  then show ?case using Cons.IH by simp
qed auto

text \<open>An attachment keeps its segment, and with it the frames, alive.\<close>

lemma att_refs_pos: "a \<in> set (sht_attachments t) \<Longrightarrow> 0 < att_refs (att_shmid a) t"
  by (auto simp: att_refs_def filter_empty_conv)

lemma attached_segment:
  assumes "shm_inv s" and "bt_get (shm_tasks s) tid = Some t" and "a \<in> set (sht_attachments t)"
  shows "\<exists>g. bt_get (shm_table s) (att_shmid a) = Some g \<and> set (seg_pages g) \<subseteq> fa_used (shm_frames s)"
proof -
  have wf: "shm_wf s" and refs: "shm_refs s (att_shmid a) = seg_refs s (att_shmid a)"
    using assms(1) by (auto simp: shm_inv_pending_def)
  have "bt_wf (shm_tasks s)" using wf by (simp add: shm_wf_def)
  then have "0 < shm_refs s (att_shmid a)"
    using bt_sum_remove [OF _ assms(2), of "att_refs (att_shmid a)"] att_refs_pos [OF assms(3)]
    by (simp add: shm_refs_def)
  then obtain g where g: "bt_get (shm_table s) (att_shmid a) = Some g"
    using refs by (auto simp: seg_refs_def split: option.splits)
  then have "set_mset (mset (seg_pages g)) \<subseteq> set_mset (mset_set (fa_used (shm_frames s)))"
    using seg_frames_remove(1) [OF wf] set_mset_mono by blast
  then show ?thesis using g fa.finite_used by auto
qed

subsection \<open>Properties\<close>


definition shm_boot :: shm_state where
  "shm_boot = \<lparr>shm_table = [], shm_next_id = 1, shm_frames = region_at 0x02000000,
     shm_tasks = [(1, \<lparr>sht_attachments = [], sht_vmas = [], sht_pages = Map.empty\<rparr>)]\<rparr>"

lemma shm_boot_inv: "shm_inv shm_boot"
  using region_at_example_inv
  by (simp add: shm_boot_def shm_inv_pending_def shm_wf_def seg_frames_def shm_refs_def seg_refs_def
      bt_wf_Cons bt_get_def bt_sum_def att_refs_def)


text \<open>\<open>IPC_RMID\<close> on every branch: an unknown identifier is \<open>NotFound\<close>; a segment nobody has attached
  leaves the table and exactly its frames become free; an attached one is only marked.\<close>

theorem shm_mark_removal_spec:
  assumes "shm_inv s"
  shows "case bt_get (shm_table s) k of
      None \<Rightarrow> shm_mark_removal s k = Some (Inl NotFound, s)
    | Some g \<Rightarrow> \<exists>s'. shm_mark_removal s k = Some (Inr (), s') \<and>
        (if shm_refs s k = 0
         then bt_get (shm_table s') = (bt_get (shm_table s))(k := None) \<and>
              fa_used (shm_frames s') = fa_used (shm_frames s) - set (seg_pages g)
         else bt_get (shm_table s') = (bt_get (shm_table s))(k \<mapsto> g\<lparr>seg_marked := True\<rparr>) \<and>
              shm_frames s' = shm_frames s)"
proof (cases "bt_get (shm_table s) k")
  case (Some g)
  have wf: "shm_wf s" and "shm_refs s k = seg_refs s k" using assms by (auto simp: shm_inv_pending_def)
  then have refs: "shm_refs s k = 0 \<longleftrightarrow> seg_refcount g = 0"
    using Some by (simp add: seg_refs_def unat_eq_0)
  obtain fr where "free_pages free_frame (seg_pages g) (shm_frames s) = Some fr"
    "fa_used fr = fa_used (shm_frames s) - set (seg_pages g)"
    using remove_segment [OF wf Some] by blast
  then show ?thesis using Some by (simp add: shm_mark_removal_def refs Let_def)
qed (simp add: shm_mark_removal_def)

theorem shm_mark_removal_spec_witness:
  "shm_inv shm_boot \<and> shm_mark_removal shm_boot 3 = Some (Inl NotFound, shm_boot)"
  using shm_mark_removal_spec [OF shm_boot_inv, of 3] shm_boot_inv by (simp add: shm_boot_def bt_get_def)

text \<open>A \<open>shmget\<close> that runs out of memory keeps the frames it had taken: it reports \<open>OutOfMemory\<close>,
  creates no segment, and leaves every frame of the allocator in use, owned by nobody.\<close>

theorem shmget_oom_leaks:
  assumes "shm_inv s" and "shmget s key sz flags = Some (Inl OutOfMemory, s')"
  shows "shm_table s' = shm_table s \<and> fa_used (shm_frames s') = fa_pool (shm_frames s) \<and>
    alloc_frame (shm_frames s') = Some (None, shm_frames s')"
proof -
  have fr: "fa_inv (shm_frames s)" using assms(1) by (simp add: shm_inv_pending_def shm_wf_def)
  have c: "MIN_SHM_SIZE \<le> sz \<and> sz \<le> MAX_SHM_SIZE \<and> (key = 0 \<or> flags AND IPC_CREAT \<noteq> 0 \<and>
    \<not> (\<exists>g \<in> set (bt_values (shm_table s)). seg_key g = key \<and> \<not> seg_marked g))"
    using assms(2)
    by (auto simp: shmget_def Let_def find_None_iff split: option.splits if_splits)
  show ?thesis
  proof (rule shmget_create [of sz s key flags])
    fix f assume f: "shmget s key sz flags = Some (Inl OutOfMemory, s\<lparr>shm_frames := f\<rparr>)" "fa_inv f"
      "fa_used f = fa_pool (shm_frames s)" "fa_pool f = fa_pool (shm_frames s)"
    then have "alloc_frame f = Some (None, f)" using alloc_frame_law [OF f(2)] by auto
    then show ?thesis using f assms(2) by simp
  qed (use assms(2) c fr in auto)
qed

text \<open>A machine with eight frames, of which \<open>w\<close> says which are in use.\<close>

definition eight_frames :: "u8 \<Rightarrow> frame_state" where
  "eight_frames w = \<lparr>region_start = 0x02000000, region_end = 0x02008000, fbitmap = w # replicate 1023 0,
     bitmap_len = 1, total_frames_count = 8, fa_initialized = True\<rparr>"

definition shm_tiny :: shm_state where
  "shm_tiny = \<lparr>shm_table = [], shm_next_id = 1, shm_frames = eight_frames 0x7F, shm_tasks = []\<rparr>"

lemma shm_tiny_inv: "shm_inv shm_tiny"
  by (simp add: shm_tiny_def shm_inv_pending_def shm_wf_def seg_frames_def shm_refs_def seg_refs_def
      fa_inv_def MAX_BITMAP_BYTES_def eight_frames_def)

lemma eight_frames_alloc:
  "alloc_frame (eight_frames 0x7F) = Some (Some 0x02007000, eight_frames 0xFF)"
  "alloc_frame (eight_frames 0xFF) = Some (None, eight_frames 0xFF)"
proof -
  have "find (\<lambda>b. (0x7F :: u8) AND push_bit b 1 = 0) [0..<8] = Some 7"
    by (simp add: upt_rec)
  then have scan: "alloc_scan (fbitmap (eight_frames 0x7F)) [0..<bitmap_len (eight_frames 0x7F)] = Some (Some (0, 7))"
    by (simp add: eight_frames_def del: push_bit_of_1)
  show "alloc_frame (eight_frames 0x7F) = Some (Some 0x02007000, eight_frames 0xFF)"
    unfolding alloc_frame_def scan
    by (simp add: eight_frames_def mul_c_def add_c_def assert_p_def PAGE_SIZE_def)
  show "alloc_frame (eight_frames 0xFF) = Some (None, eight_frames 0xFF)"
    by (simp add: alloc_frame_def eight_frames_def)
qed

lemma shm_tiny_oom:
  "shmget shm_tiny 0 8192 0 = Some (Inl OutOfMemory, shm_tiny\<lparr>shm_frames := eight_frames 0xFF\<rparr>)"
proof -
  have up: "page_up 8192 = Some 8192"
    by (simp add: page_up_def page_down_def add_c_def sub_c_def PAGE_SIZE_def)
  have "unat (8192 div PAGE_SIZE) = Suc (Suc 0)" by (simp add: PAGE_SIZE_def)
  moreover have "shm_frames shm_tiny = eight_frames 0x7F" by (simp add: shm_tiny_def)
  ultimately have "alloc_pages alloc_frame (unat (8192 div PAGE_SIZE)) [] (shm_frames shm_tiny) =
      Some (Inl OutOfMemory, eight_frames 0xFF)"
    by (simp add: eight_frames_alloc)
  then show ?thesis
    by (simp add: shmget_def Let_def up MIN_SHM_SIZE_def MAX_SHM_SIZE_def)
qed

theorem shmget_oom_leaks_witness:
  "shm_inv shm_tiny \<and> alloc_frame (shm_frames shm_tiny) \<noteq> Some (None, shm_frames shm_tiny) \<and>
   (\<exists>s'. shmget shm_tiny 0 8192 0 = Some (Inl OutOfMemory, s') \<and> alloc_frame (shm_frames s') = Some (None, shm_frames s'))"
  using shm_tiny_inv shm_tiny_oom shmget_oom_leaks [OF shm_tiny_inv shm_tiny_oom]
  by (simp add: shm_tiny_def eight_frames_alloc)

end
