(* ===== verification/File_Lock.thy ===== *)
theory File_Lock
  imports BTree_Map "HOL-Library.Product_Lexorder"
begin

text \<open>
  Advisory file locks: \<open>kernel/src/fs/file_lock.rs\<close>. The global table maps \<open>(filesystem, inode)\<close> to a
  count, a lock type and the list of holders. A blocking request that cannot be granted leaves the
  table lock and spins: \<open>acquire_shared\<close> and \<open>acquire_exclusive\<close> return \<open>Wait_shared\<close> or
  \<open>Wait_exclusive\<close> there, and each round of the spin loop is one call of \<open>try_acquire_shared\<close> or
  \<open>try_acquire_exclusive\<close>. The relation \<open>lock_step\<close> interleaves the calls, the rounds of the
  spinning tasks and task exits; \<open>rw_shared\<close>, \<open>rw_exclusive\<close> and \<open>rw_release\<close> are the
  readers-writer lock that the table refines.
\<close>

declare split_paired_All [simp del] split_paired_Ex [simp del]

definition LOCK_SH :: u64 where "LOCK_SH = 1"
definition LOCK_EX :: u64 where "LOCK_EX = 2"
definition LOCK_NB :: u64 where "LOCK_NB = 4"
definition LOCK_UN :: u64 where "LOCK_UN = 8"

datatype lock_type = Shared | Exclusive

record lock_record =
  lr_type :: lock_type
  lr_pid :: u64

record inode_lock =
  il_count :: u32
  il_type :: "lock_type option"
  il_holders :: "lock_record list"

type_synonym lock_key = "u64 \<times> u64"
type_synonym lock_table = "(lock_key, inode_lock) btree"

definition ERR_WOULD_BLOCK :: int where "ERR_WOULD_BLOCK = -7"

text \<open>The end of a call: a result, or the start of a spin loop.\<close>

datatype lock_result = Lock_ok | Lock_err int | Wait_shared | Wait_exclusive

text \<open>The entry of a lock with one holder.\<close>

definition sole_lock :: "lock_type \<Rightarrow> u64 \<Rightarrow> inode_lock" where
  "sole_lock t pid = \<lparr>il_count = 1, il_type = Some t, il_holders = [\<lparr>lr_type = t, lr_pid = pid\<rparr>]\<rparr>"

definition push_holder :: "inode_lock \<Rightarrow> u32 \<Rightarrow> lock_type \<Rightarrow> u64 \<Rightarrow> inode_lock" where
  "push_holder st c t pid = \<lparr>il_count = c, il_type = Some t,
     il_holders = il_holders st @ [\<lparr>lr_type = t, lr_pid = pid\<rparr>]\<rparr>"

definition upgrade_holder :: "inode_lock \<Rightarrow> nat \<Rightarrow> inode_lock" where
  "upgrade_holder st pos = st\<lparr>il_type := Some Exclusive,
     il_holders := (il_holders st)[pos := (il_holders st ! pos)\<lparr>lr_type := Exclusive\<rparr>]\<rparr>"

definition acquire_shared ::
  "lock_table \<Rightarrow> lock_key \<Rightarrow> u64 \<Rightarrow> bool \<Rightarrow> (lock_result \<times> lock_table) panics" where
  "acquire_shared locks key pid nonblocking =
     (case bt_get locks key of
        None \<Rightarrow> Some (Lock_ok, bt_insert key (sole_lock Shared pid) locks)
      | Some st \<Rightarrow>
          if \<exists>r \<in> set (il_holders st). lr_pid r = pid then Some (Lock_ok, locks)
          else (case il_type st of
              None \<Rightarrow> Some (Lock_ok, bt_insert key (push_holder st 1 Shared pid) locks)
            | Some Shared \<Rightarrow> do {
                c \<leftarrow> add_c (il_count st) 1;
                Some (Lock_ok, bt_insert key (push_holder st c Shared pid) locks)
              }
            | Some Exclusive \<Rightarrow>
                if nonblocking then Some (Lock_err ERR_WOULD_BLOCK, locks) else Some (Wait_shared, locks)))"

definition acquire_exclusive ::
  "lock_table \<Rightarrow> lock_key \<Rightarrow> u64 \<Rightarrow> bool \<Rightarrow> (lock_result \<times> lock_table) panics" where
  "acquire_exclusive locks key pid nonblocking =
     (case bt_get locks key of
        None \<Rightarrow> Some (Lock_ok, bt_insert key (sole_lock Exclusive pid) locks)
      | Some st \<Rightarrow>
          (case position (\<lambda>r. lr_pid r = pid) (il_holders st) of
             Some pos \<Rightarrow>
               (case lr_type (il_holders st ! pos) of
                  Exclusive \<Rightarrow> Some (Lock_ok, locks)
                | Shared \<Rightarrow>
                    if il_count st = 1 then Some (Lock_ok, bt_insert key (upgrade_holder st pos) locks)
                    else if nonblocking then Some (Lock_err ERR_WOULD_BLOCK, locks)
                    else Some (Wait_exclusive, locks))
           | None \<Rightarrow>
               (case il_type st of
                  None \<Rightarrow> Some (Lock_ok, bt_insert key (push_holder st 1 Exclusive pid) locks)
                | Some _ \<Rightarrow>
                    if nonblocking then Some (Lock_err ERR_WOULD_BLOCK, locks)
                    else Some (Wait_exclusive, locks))))"

definition release_lock :: "lock_table \<Rightarrow> lock_key \<Rightarrow> u64 \<Rightarrow> (lock_result \<times> lock_table) panics" where
  "release_lock locks key pid =
     (case bt_get locks key of
        None \<Rightarrow> Some (Lock_ok, locks)
      | Some st \<Rightarrow>
          let hs = filter (\<lambda>r. lr_pid r \<noteq> pid) (il_holders st);
              removed = length (il_holders st) - length hs
          in if removed = 0 then Some (Lock_ok, locks)
             else do {
               _ \<leftarrow> assert_p (il_count st \<ge> of_nat removed);
               c \<leftarrow> sub_c (il_count st) (of_nat removed);
               let t = (if c = 0 then None
                        else if hs = [] then None
                        else if \<exists>r \<in> set hs. lr_type r = Exclusive then Some Exclusive
                        else Some Shared);
               Some (Lock_ok, bt_insert key \<lparr>il_count = c, il_type = t, il_holders = hs\<rparr> locks)
             })"

definition flock ::
  "lock_table \<Rightarrow> lock_key \<Rightarrow> u64 \<Rightarrow> u64 \<Rightarrow> (lock_result \<times> lock_table) panics" where
  "flock locks key operation pid =
     (let op = operation AND NOT LOCK_NB; nonblocking = (operation AND LOCK_NB \<noteq> 0) in
      if op = LOCK_SH then acquire_shared locks key pid nonblocking
      else if op = LOCK_EX then acquire_exclusive locks key pid nonblocking
      else if op = LOCK_UN then release_lock locks key pid
      else Some (Lock_err (-1), locks))"

text \<open>One round of the two spin loops. \<open>Inl\<close>: the loop goes on.\<close>

definition try_acquire_shared :: "lock_table \<Rightarrow> lock_key \<Rightarrow> u64 \<Rightarrow> ((int + unit) \<times> lock_table) panics" where
  "try_acquire_shared locks key pid =
     (case bt_get locks key of
        None \<Rightarrow> Some (Inr (), bt_insert key (sole_lock Shared pid) locks)
      | Some st \<Rightarrow>
          if \<exists>r \<in> set (il_holders st). lr_pid r = pid then Some (Inr (), locks)
          else if il_type st = Some Exclusive then Some (Inl ERR_WOULD_BLOCK, locks)
          else do {
            c \<leftarrow> add_c (il_count st) 1;
            Some (Inr (), bt_insert key (push_holder st c Shared pid) locks)
          })"

definition try_acquire_exclusive :: "lock_table \<Rightarrow> lock_key \<Rightarrow> u64 \<Rightarrow> ((int + unit) \<times> lock_table) panics" where
  "try_acquire_exclusive locks key pid =
     (case bt_get locks key of
        None \<Rightarrow> Some (Inr (), bt_insert key (sole_lock Exclusive pid) locks)
      | Some st \<Rightarrow>
          let pos = position (\<lambda>r. lr_pid r = pid) (il_holders st);
              free = (if il_count st = 0
                      then Some (Inr (), bt_insert key (push_holder st 1 Exclusive pid) locks)
                      else Some (Inl ERR_WOULD_BLOCK, locks))
          in (case pos of
                None \<Rightarrow> free
              | Some p \<Rightarrow>
                  if lr_type (il_holders st ! p) = Exclusive then Some (Inr (), locks)
                  else if il_count st = 1 then Some (Inr (), bt_insert key (upgrade_holder st p) locks)
                  else free))"

text \<open>The clean-up of one entry, and of every entry that lists the task.\<close>

definition drop_holder :: "u64 \<Rightarrow> inode_lock \<Rightarrow> inode_lock" where
  "drop_holder pid st =
     (let hs = filter (\<lambda>r. lr_pid r \<noteq> pid) (il_holders st);
          removed = length (il_holders st) - length hs;
          c = sat_sub (il_count st) (of_nat removed)
      in if removed > 0
         then st\<lparr>il_holders := hs, il_count := c, il_type := if c = 0 then None else il_type st\<rparr>
         else st\<lparr>il_holders := hs\<rparr>)"

definition release_all_for_task :: "lock_table \<Rightarrow> u64 \<Rightarrow> lock_table" where
  "release_all_for_task locks pid =
     (let stale_keys = map fst (filter (\<lambda>e. \<exists>r \<in> set (il_holders (snd e)). lr_pid r = pid) locks)
      in foldl (\<lambda>l key. bt_modify key (drop_holder pid) l) locks stale_keys)"

subsection \<open>Interleaving of the tasks\<close>

text \<open>A task that waits is in a spin loop for one lock; it makes no other call until that is granted.\<close>

record lock_sys =
  ls_locks :: lock_table
  ls_waiting :: "u64 \<rightharpoonup> lock_key \<times> lock_type"

datatype lock_event = Call u64 lock_key u64 | Retry u64 | Exit u64

fun try_acquire :: "lock_type \<Rightarrow> lock_table \<Rightarrow> lock_key \<Rightarrow> u64 \<Rightarrow> ((int + unit) \<times> lock_table) panics" where
  "try_acquire Shared = try_acquire_shared"
| "try_acquire Exclusive = try_acquire_exclusive"

inductive lock_step :: "lock_sys \<Rightarrow> lock_event \<Rightarrow> lock_sys \<Rightarrow> bool" where
  call_done: "lock_step s (Call pid key op) (s\<lparr>ls_locks := l\<rparr>)"
    if "ls_waiting s pid = None" "flock (ls_locks s) key op pid = Some (r, l)" "r = Lock_ok \<or> r = Lock_err e"
| call_wait_shared: "lock_step s (Call pid key op) (s\<lparr>ls_locks := l, ls_waiting := (ls_waiting s)(pid \<mapsto> (key, Shared))\<rparr>)"
    if "ls_waiting s pid = None" "flock (ls_locks s) key op pid = Some (Wait_shared, l)"
| call_wait_exclusive: "lock_step s (Call pid key op) (s\<lparr>ls_locks := l, ls_waiting := (ls_waiting s)(pid \<mapsto> (key, Exclusive))\<rparr>)"
    if "ls_waiting s pid = None" "flock (ls_locks s) key op pid = Some (Wait_exclusive, l)"
| retry_granted: "lock_step s (Retry pid) (s\<lparr>ls_locks := l, ls_waiting := (ls_waiting s)(pid := None)\<rparr>)"
    if "ls_waiting s pid = Some (key, t)" "try_acquire t (ls_locks s) key pid = Some (Inr (), l)"
| retry_again: "lock_step s (Retry pid) (s\<lparr>ls_locks := l\<rparr>)"
    if "ls_waiting s pid = Some (key, t)" "try_acquire t (ls_locks s) key pid = Some (Inl e, l)"
| exit: "lock_step s (Exit pid) (s\<lparr>ls_locks := release_all_for_task (ls_locks s) pid\<rparr>)"
    if "ls_waiting s pid = None"

inductive_cases lock_callE: "lock_step s (Call pid key op) s'"
inductive_cases lock_retryE: "lock_step s (Retry pid) s'"
inductive_cases lock_exitE: "lock_step s (Exit pid) s'"

inductive lock_run :: "lock_sys \<Rightarrow> lock_event list \<Rightarrow> lock_sys \<Rightarrow> bool" where
  run_nil: "lock_run s [] s"
| run_cons: "lock_run s (ev # evs) s''" if "lock_step s ev s'" "lock_run s' evs s''"

definition lock_boot :: lock_sys where
  "lock_boot = \<lparr>ls_locks = [], ls_waiting = Map.empty\<rparr>"

subsection \<open>The readers-writer lock behind the table\<close>

type_synonym rw_state = "u64 \<rightharpoonup> lock_type"

definition rw_shared :: "rw_state \<Rightarrow> u64 \<Rightarrow> rw_state option" where
  "rw_shared h pid =
     (if pid \<in> dom h then Some h else if Exclusive \<in> ran h then None else Some (h(pid \<mapsto> Shared)))"

definition rw_exclusive :: "rw_state \<Rightarrow> u64 \<Rightarrow> rw_state option" where
  "rw_exclusive h pid = (if dom h \<subseteq> {pid} then Some (h(pid \<mapsto> Exclusive)) else None)"

definition rw_release :: "rw_state \<Rightarrow> u64 \<Rightarrow> rw_state" where
  "rw_release h pid = h(pid := None)"

definition rw_flock :: "rw_state \<Rightarrow> u64 \<Rightarrow> u64 \<Rightarrow> lock_result \<times> rw_state" where
  "rw_flock h operation pid =
     (let op = operation AND NOT LOCK_NB;
          refuse = (\<lambda>wait. if operation AND LOCK_NB \<noteq> 0 then Lock_err ERR_WOULD_BLOCK else wait) in
      if op = LOCK_SH then
        (case rw_shared h pid of Some h' \<Rightarrow> (Lock_ok, h') | None \<Rightarrow> (refuse Wait_shared, h))
      else if op = LOCK_EX then
        (case rw_exclusive h pid of Some h' \<Rightarrow> (Lock_ok, h') | None \<Rightarrow> (refuse Wait_exclusive, h))
      else if op = LOCK_UN then (Lock_ok, rw_release h pid)
      else (Lock_err (-1), h))"

definition rw_ok :: "rw_state \<Rightarrow> bool" where
  "rw_ok h \<longleftrightarrow> (\<forall>p. h p = Some Exclusive \<longrightarrow> h = [p \<mapsto> Exclusive])"

text \<open>The abstraction and the invariant of an entry.\<close>

definition entry_holders :: "inode_lock \<Rightarrow> rw_state" where
  "entry_holders st = map_of (map (\<lambda>r. (lr_pid r, lr_type r)) (il_holders st))"

definition lock_holders :: "lock_table \<Rightarrow> lock_key \<Rightarrow> rw_state" where
  "lock_holders locks key = (case bt_get locks key of None \<Rightarrow> Map.empty | Some st \<Rightarrow> entry_holders st)"

definition lock_ok :: "inode_lock \<Rightarrow> bool" where
  "lock_ok st \<longleftrightarrow> unat (il_count st) = length (il_holders st) \<and> distinct (map lr_pid (il_holders st)) \<and>
     (case il_type st of
        None \<Rightarrow> il_holders st = []
      | Some Shared \<Rightarrow> il_holders st \<noteq> [] \<and> (\<forall>r \<in> set (il_holders st). lr_type r = Shared)
      | Some Exclusive \<Rightarrow> \<exists>r. il_holders st = [r] \<and> lr_type r = Exclusive)"

definition locks_inv :: "lock_table \<Rightarrow> bool" where
  "locks_inv locks \<longleftrightarrow> bt_wf locks \<and> (\<forall>k st. bt_get locks k = Some st \<longrightarrow> lock_ok st)"

lemma locks_inv_get: "locks_inv l \<Longrightarrow> bt_get l k = Some st \<Longrightarrow> lock_ok st"
  unfolding locks_inv_def by blast

lemma locks_inv_insert: "locks_inv l \<Longrightarrow> lock_ok st \<Longrightarrow> locks_inv (bt_insert k st l)"
  by (simp add: locks_inv_def)

lemma lock_holders_insert: "lock_holders (bt_insert k st l) = (lock_holders l)(k := entry_holders st)"
  by (rule ext) (simp add: lock_holders_def)

lemma lock_holders_self: "bt_get l k = Some st \<Longrightarrow> lock_holders l k = entry_holders st"
  by (simp add: lock_holders_def)

lemma entry_dom: "dom (entry_holders st) = lr_pid ` set (il_holders st)"
  by (auto simp: entry_holders_def dom_map_of_conv_image_fst image_image)

lemma entry_holds: "(\<exists>r \<in> set (il_holders st). lr_pid r = pid) \<longleftrightarrow> pid \<in> dom (entry_holders st)"
  by (auto simp: entry_dom)

lemma entry_Some:
  "lock_ok st \<Longrightarrow> entry_holders st p = Some t \<longleftrightarrow> (\<exists>r \<in> set (il_holders st). lr_pid r = p \<and> lr_type r = t)"
  by (auto simp: entry_holders_def lock_ok_def comp_def intro!: map_of_is_SomeI dest!: map_of_SomeD)

lemma entry_nth:
  "lock_ok st \<Longrightarrow> i < length (il_holders st) \<Longrightarrow>
   entry_holders st (lr_pid (il_holders st ! i)) = Some (lr_type (il_holders st ! i))"
  using entry_Some nth_mem by blast

subsection \<open>Entries\<close>

lemma entry_exclusive:
  assumes "lock_ok st"
  shows "Exclusive \<in> ran (entry_holders st) \<longleftrightarrow> il_type st = Some Exclusive"
proof -
  have "Exclusive \<in> ran (entry_holders st) \<longleftrightarrow> (\<exists>r \<in> set (il_holders st). lr_type r = Exclusive)"
    using entry_Some [OF assms] by (auto simp: ran_def)
  also have "\<dots> \<longleftrightarrow> il_type st = Some Exclusive"
    using assms by (auto simp: lock_ok_def split: option.splits lock_type.splits)
  finally show ?thesis .
qed

lemma entry_rw_ok: "lock_ok st \<Longrightarrow> rw_ok (entry_holders st)"
proof -
  assume st: "lock_ok st"
  have "entry_holders st = [p \<mapsto> Exclusive]" if "entry_holders st p = Some Exclusive" for p
  proof -
    have "il_type st = Some Exclusive" using that entry_exclusive [OF st] by (auto simp: ran_def)
    then obtain r where "il_holders st = [r]" "lr_type r = Exclusive" using st by (auto simp: lock_ok_def)
    then show ?thesis using that by (auto simp: entry_holders_def split: if_splits)
  qed
  then show ?thesis by (simp add: rw_ok_def)
qed

lemma sole_lock_ok: "lock_ok (sole_lock t pid)"
  by (cases t) (simp_all add: lock_ok_def sole_lock_def)

lemma sole_lock_holders: "entry_holders (sole_lock t pid) = [pid \<mapsto> t]"
  by (simp add: entry_holders_def sole_lock_def)

lemma push_holder_holders:
  "pid \<notin> dom (entry_holders st) \<Longrightarrow> entry_holders (push_holder st c t pid) = (entry_holders st)(pid \<mapsto> t)"
  by (auto simp: entry_holders_def push_holder_def fun_eq_iff map_add_def split: option.splits)

lemma push_shared_ok:
  assumes "lock_ok st" and "pid \<notin> dom (entry_holders st)" and "il_type st \<noteq> Some Exclusive"
    and "unat c = Suc (length (il_holders st))"
  shows "lock_ok (push_holder st c Shared pid)"
  using assms unfolding entry_dom
  by (cases "il_type st") (auto simp: lock_ok_def push_holder_def split: lock_type.splits)

lemma push_first_ok: "il_holders st = [] \<Longrightarrow> lock_ok (push_holder st 1 t pid)"
  by (cases t) (simp_all add: lock_ok_def push_holder_def)

lemma upgrade_holder_ok:
  assumes "lock_ok st" and "il_count st = 1" and "pos < length (il_holders st)"
  shows "lock_ok (upgrade_holder st pos)"
    and "entry_holders (upgrade_holder st pos) = [lr_pid (il_holders st ! pos) \<mapsto> Exclusive]"
    and "dom (entry_holders st) = {lr_pid (il_holders st ! pos)}"
proof -
  have "length (il_holders st) = 1" using assms(1,2) by (simp add: lock_ok_def)
  then obtain r where "il_holders st = [r]" "pos = 0" using assms(3) by (auto simp: length_Suc_conv)
  then show "lock_ok (upgrade_holder st pos)"
    and "entry_holders (upgrade_holder st pos) = [lr_pid (il_holders st ! pos) \<mapsto> Exclusive]"
    and "dom (entry_holders st) = {lr_pid (il_holders st ! pos)}"
    using assms(2) by (simp_all add: lock_ok_def upgrade_holder_def entry_holders_def)
qed

lemma entry_other_holder:
  assumes "lock_ok st" and "il_count st \<noteq> 1" and "pos < length (il_holders st)"
  shows "\<not> dom (entry_holders st) \<subseteq> {lr_pid (il_holders st ! pos)}"
proof
  assume sub: "dom (entry_holders st) \<subseteq> {lr_pid (il_holders st ! pos)}"
  have "card (dom (entry_holders st)) = length (il_holders st)"
    using assms(1) distinct_card [of "map lr_pid (il_holders st)"] by (simp add: entry_dom lock_ok_def)
  moreover have "card (dom (entry_holders st)) \<le> 1" using card_mono [OF _ sub] by simp
  ultimately have "length (il_holders st) = 1" using assms(3) by linarith
  then have "unat (il_count st) = unat (1 :: u32)" using assms(1) by (simp add: lock_ok_def)
  then show False using assms(2) by (simp only: word_unat_eq_iff)
qed

subsection \<open>The operations refine the readers-writer lock\<close>

text \<open>\<open>locks_to k h l l'\<close>: \<open>l'\<close> keeps the invariant, lock \<open>k\<close> has the holders \<open>h\<close> there, and the other
  locks are as in \<open>l\<close>.\<close>

definition locks_to :: "lock_key \<Rightarrow> rw_state \<Rightarrow> lock_table \<Rightarrow> lock_table \<Rightarrow> bool" where
  "locks_to k h l l' \<longleftrightarrow> locks_inv l' \<and> lock_holders l' = (lock_holders l)(k := h)"

lemma locks_to_same: "locks_inv l \<Longrightarrow> lock_holders l k = h \<Longrightarrow> locks_to k h l l"
  by (auto simp: locks_to_def)

lemma locks_to_insert:
  "locks_inv l \<Longrightarrow> lock_ok st \<Longrightarrow> entry_holders st = h \<Longrightarrow> locks_to k h l (bt_insert k st l)"
  by (simp add: locks_to_def locks_inv_insert lock_holders_insert)

lemma count_succ: "lock_ok st \<Longrightarrow> add_c (il_count st) 1 = Some c \<Longrightarrow> unat c = Suc (length (il_holders st))"
  using add_c_unat [of "il_count st" 1 c] by (simp add: lock_ok_def)

lemma type_None: "lock_ok st \<Longrightarrow> il_type st = None \<longleftrightarrow> il_holders st = []"
  by (auto simp: lock_ok_def split: option.splits lock_type.splits)

lemma acquire_shared_refines:
  assumes "locks_inv l" and "acquire_shared l k pid nb = Some (r, l')"
  shows "case rw_shared (lock_holders l k) pid of
      Some h \<Rightarrow> r = Lock_ok \<and> locks_to k h l l'
    | None \<Rightarrow> r = (if nb then Lock_err ERR_WOULD_BLOCK else Wait_shared) \<and> l' = l"
proof (cases "bt_get l k")
  case None
  then show ?thesis
    using assms by (auto simp: acquire_shared_def lock_holders_def rw_shared_def
        intro!: locks_to_insert sole_lock_ok sole_lock_holders)
next
  case (Some st)
  note st = locks_inv_get [OF assms(1) Some]
  show ?thesis
  proof (cases "pid \<in> dom (entry_holders st)")
    case True
    then show ?thesis
      using assms Some by (auto simp: acquire_shared_def entry_holds lock_holders_self rw_shared_def intro: locks_to_same)
  next
    case new: False
    note push = locks_to_insert [OF assms(1) _ push_holder_holders [OF new], where k = k]
    consider "il_type st = None" | "il_type st = Some Shared" | "il_type st = Some Exclusive"
      by (metis lock_type.exhaust option.exhaust)
    then show ?thesis
    proof cases
      case 1
      then have "lock_ok (push_holder st 1 Shared pid)" using type_None [OF st] push_first_ok by simp
      then show ?thesis
        using assms(2) Some new 1 push entry_exclusive [OF st]
        by (auto simp: acquire_shared_def entry_holds lock_holders_self rw_shared_def)
    next
      case 2
      then obtain c where c: "add_c (il_count st) 1 = Some c" "r = Lock_ok" "l' = bt_insert k (push_holder st c Shared pid) l"
        using assms(2) Some new by (auto simp: acquire_shared_def entry_holds bind_eq_Some_conv)
      have "lock_ok (push_holder st c Shared pid)"
        using push_shared_ok [OF st new] 2 count_succ [OF st c(1)] by simp
      then show ?thesis
        using c new 2 push entry_exclusive [OF st] Some by (auto simp: lock_holders_self rw_shared_def)
    next
      case 3
      then show ?thesis
        using assms(2) Some new entry_exclusive [OF st]
        by (auto simp: acquire_shared_def entry_holds lock_holders_self rw_shared_def split: if_splits)
    qed
  qed
qed

lemma position_holder:
  assumes "position (\<lambda>r. lr_pid r = pid) (il_holders st) = Some pos"
  shows "pos < length (il_holders st)" and "lr_pid (il_holders st ! pos) = pid"
  using position_lt [OF assms] position_sat [OF assms] by simp_all

lemma position_no_holder:
  "position (\<lambda>r. lr_pid r = pid) (il_holders st) = None \<longleftrightarrow> pid \<notin> dom (entry_holders st)"
  by (auto simp: position_None entry_dom)

lemma upgrade_exclusive:
  assumes "locks_inv l" and "bt_get l k = Some st" and "il_count st = 1"
    and "position (\<lambda>r. lr_pid r = pid) (il_holders st) = Some pos"
  shows "\<exists>h. rw_exclusive (lock_holders l k) pid = Some h \<and> locks_to k h l (bt_insert k (upgrade_holder st pos) l)"
proof -
  note st = locks_inv_get [OF assms(1,2)] and pos = position_holder [OF assms(4)]
  note up = upgrade_holder_ok [OF st assms(3) pos(1)]
  have "rw_exclusive (lock_holders l k) pid = Some [pid \<mapsto> Exclusive]"
    using up(3) pos(2) by (auto simp: rw_exclusive_def lock_holders_self [OF assms(2)] fun_eq_iff)
  then show ?thesis using locks_to_insert [OF assms(1) up(1,2)] pos(2) by simp
qed

lemma exclusive_held:
  assumes "lock_ok st" and "position (\<lambda>r. lr_pid r = pid) (il_holders st) = Some pos"
    and "lr_type (il_holders st ! pos) = Exclusive"
  shows "rw_exclusive (entry_holders st) pid = Some (entry_holders st)"
proof -
  have "entry_holders st pid = Some Exclusive"
    using entry_nth [OF assms(1) position_holder(1) [OF assms(2)]] position_holder(2) [OF assms(2)] assms(3) by simp
  then have "entry_holders st = [pid \<mapsto> Exclusive]" using entry_rw_ok [OF assms(1)] by (simp add: rw_ok_def)
  then show ?thesis by (simp add: rw_exclusive_def)
qed

lemma free_exclusive:
  assumes "locks_inv l" and "bt_get l k = Some st" and "il_holders st = []"
  shows "\<exists>h. rw_exclusive (lock_holders l k) pid = Some h \<and> locks_to k h l (bt_insert k (push_holder st 1 Exclusive pid) l)"
proof -
  have e: "entry_holders st = Map.empty" using assms(3) by (simp add: entry_holders_def)
  then have "entry_holders (push_holder st 1 Exclusive pid) = [pid \<mapsto> Exclusive]"
    by (subst push_holder_holders) auto
  then show ?thesis
    using locks_to_insert [OF assms(1) push_first_ok [OF assms(3)]] e assms(2)
    by (simp add: rw_exclusive_def lock_holders_self)
qed

lemma refused_exclusive:
  assumes "lock_ok st" and "pid \<notin> dom (entry_holders st)" and "il_holders st \<noteq> []"
  shows "rw_exclusive (entry_holders st) pid = None"
  using assms by (auto simp: rw_exclusive_def entry_dom neq_Nil_conv)

lemma acquire_exclusive_refines:
  assumes "locks_inv l" and "acquire_exclusive l k pid nb = Some (r, l')"
  shows "case rw_exclusive (lock_holders l k) pid of
      Some h \<Rightarrow> r = Lock_ok \<and> locks_to k h l l'
    | None \<Rightarrow> r = (if nb then Lock_err ERR_WOULD_BLOCK else Wait_exclusive) \<and> l' = l"
proof (cases "bt_get l k")
  case None
  then show ?thesis
    using assms by (auto simp: acquire_exclusive_def lock_holders_def rw_exclusive_def
        intro!: locks_to_insert sole_lock_ok sole_lock_holders)
next
  case (Some st)
  note st = locks_inv_get [OF assms(1) Some]
  show ?thesis
  proof (cases "position (\<lambda>r. lr_pid r = pid) (il_holders st)")
    case None
    then show ?thesis
      using assms(2) Some free_exclusive [OF assms(1) Some, of pid] type_None [OF st]
        refused_exclusive [OF st] position_no_holder [of pid st]
      by (cases "il_type st") (auto simp: acquire_exclusive_def lock_holders_self split: if_splits)
  next
    case pos: (Some pos)
    consider "lr_type (il_holders st ! pos) = Exclusive" | "lr_type (il_holders st ! pos) = Shared" "il_count st = 1"
      | "lr_type (il_holders st ! pos) = Shared" "il_count st \<noteq> 1"
      by (cases "lr_type (il_holders st ! pos)") auto
    then show ?thesis
    proof cases
      case 1
      then show ?thesis
        using assms Some pos exclusive_held [OF st pos]
        by (auto simp: acquire_exclusive_def lock_holders_self intro: locks_to_same)
    next
      case 2
      then show ?thesis
        using assms(2) Some pos upgrade_exclusive [OF assms(1) Some _ pos] by (auto simp: acquire_exclusive_def)
    next
      case 3
      have "rw_exclusive (entry_holders st) pid = None"
        using entry_other_holder [OF st 3(2) position_holder(1) [OF pos]] position_holder(2) [OF pos]
        by (simp add: rw_exclusive_def)
      then show ?thesis
        using 3 assms(2) Some pos by (auto simp: acquire_exclusive_def lock_holders_self split: if_splits)
    qed
  qed
qed

lemma filter_holders:
  "map_of (map (\<lambda>r. (lr_pid r, lr_type r)) (filter (\<lambda>r. lr_pid r \<noteq> pid) hs)) =
   (map_of (map (\<lambda>r. (lr_pid r, lr_type r)) hs))(pid := None)"
  by (induction hs) (auto simp: fun_eq_iff)

lemma removed_one:
  "distinct (map lr_pid hs) \<Longrightarrow>
   length hs = length (filter (\<lambda>r. lr_pid r \<noteq> pid) hs) + (if \<exists>r \<in> set hs. lr_pid r = pid then 1 else 0)"
proof (induction hs)
  case (Cons r hs)
  show ?case
  proof (cases "lr_pid r = pid")
    case True
    then have "pid \<notin> lr_pid ` set hs" using Cons.prems by auto
    then have "filter (\<lambda>r. lr_pid r \<noteq> pid) hs = hs" by (auto simp: filter_id_conv)
    then show ?thesis using True by simp
  next
    case False
    then show ?thesis using Cons by simp
  qed
qed simp

text \<open>An entry after its holder \<open>pid\<close> has gone.\<close>

lemma released_entry:
  assumes "lock_ok st" and "pid \<in> dom (entry_holders st)"
  defines "hs \<equiv> filter (\<lambda>r. lr_pid r \<noteq> pid) (il_holders st)"
  shows "length (il_holders st) - length hs = 1" and "unat (il_count st) = Suc (length hs)"
    and "unat c = length hs \<Longrightarrow> t = (if hs = [] then None else il_type st) \<Longrightarrow>
      lock_ok \<lparr>il_count = c, il_type = t, il_holders = hs\<rparr> \<and>
      entry_holders \<lparr>il_count = c, il_type = t, il_holders = hs\<rparr> = rw_release (entry_holders st) pid"
    and "hs \<noteq> [] \<Longrightarrow> il_type st = Some Shared \<and> (\<forall>r \<in> set hs. lr_type r = Shared)"
proof -
  have d: "distinct (map lr_pid (il_holders st))" using assms(1) by (simp add: lock_ok_def)
  have one: "length (il_holders st) = Suc (length hs)"
    using removed_one [OF d, of pid] assms(2) unfolding hs_def entry_holds [symmetric] by simp
  then show "length (il_holders st) - length hs = 1" by simp
  show "unat (il_count st) = Suc (length hs)" using assms(1) one by (simp add: lock_ok_def)
  have shared: "il_type st = Some Shared \<and> (\<forall>r \<in> set hs. lr_type r = Shared)" if "hs \<noteq> []"
    using assms(1) that one by (auto simp: lock_ok_def hs_def split: option.splits lock_type.splits)
  then show "hs \<noteq> [] \<Longrightarrow> il_type st = Some Shared \<and> (\<forall>r \<in> set hs. lr_type r = Shared)" .
  assume c: "unat c = length hs" "t = (if hs = [] then None else il_type st)"
  have "distinct (map lr_pid hs)" unfolding hs_def using d by (rule distinct_map_filter)
  then have "lock_ok \<lparr>il_count = c, il_type = t, il_holders = hs\<rparr>"
    using c shared by (auto simp: lock_ok_def)
  moreover have "entry_holders \<lparr>il_count = c, il_type = t, il_holders = hs\<rparr> = rw_release (entry_holders st) pid"
    unfolding entry_holders_def rw_release_def hs_def by (simp add: filter_holders)
  ultimately show "lock_ok \<lparr>il_count = c, il_type = t, il_holders = hs\<rparr> \<and>
      entry_holders \<lparr>il_count = c, il_type = t, il_holders = hs\<rparr> = rw_release (entry_holders st) pid" by blast
qed

lemma no_holder_filter:
  assumes "pid \<notin> dom (entry_holders st)"
  shows "filter (\<lambda>r. lr_pid r \<noteq> pid) (il_holders st) = il_holders st"
  using assms by (auto simp: entry_dom filter_id_conv)

lemma release_lock_refines:
  assumes "locks_inv l"
  shows "\<exists>l'. release_lock l k pid = Some (Lock_ok, l') \<and> locks_to k (rw_release (lock_holders l k) pid) l l'"
proof (cases "\<exists>st. bt_get l k = Some st \<and> pid \<in> dom (entry_holders st)")
  case False
  have "release_lock l k pid = Some (Lock_ok, l)"
  proof (cases "bt_get l k")
    case (Some st)
    then show ?thesis
      using False no_holder_filter [of pid st] by (simp add: release_lock_def Let_def)
  qed (simp add: release_lock_def)
  moreover have "lock_holders l k pid = None"
    using False by (auto simp: lock_holders_def split: option.splits)
  then have "rw_release (lock_holders l k) pid = lock_holders l k" by (auto simp: rw_release_def)
  ultimately show ?thesis using locks_to_same [OF assms] by simp
next
  case True
  then obtain st where st: "bt_get l k = Some st" "pid \<in> dom (entry_holders st)" by blast
  note ok = locks_inv_get [OF assms st(1)]
  let ?hs = "filter (\<lambda>r. lr_pid r \<noteq> pid) (il_holders st)"
  note rel = released_entry [OF ok st(2)]
  have le: "1 \<le> il_count st" using rel(2) by (simp add: word_le_nat_alt)
  let ?c = "il_count st - 1"
  have c: "unat ?c = length ?hs" using rel(2) le by (simp add: unat_sub)
  then have c0: "?c = 0 \<longleftrightarrow> ?hs = []" by (metis length_0_conv unat_eq_zero)
  let ?t = "if ?hs = [] then None else il_type st"
  have "release_lock l k pid = Some (Lock_ok, bt_insert k \<lparr>il_count = ?c, il_type = ?t, il_holders = ?hs\<rparr> l)"
    using st(1) rel(1,4) le c0 by (auto simp: release_lock_def Let_def assert_p_bind sub_c_def)
  moreover have "locks_to k (rw_release (lock_holders l k) pid) l
      (bt_insert k \<lparr>il_count = ?c, il_type = ?t, il_holders = ?hs\<rparr> l)"
    using rel(3) [OF c refl] assms st(1) by (auto simp: lock_holders_self intro: locks_to_insert)
  ultimately show ?thesis by blast
qed

lemma try_shared_refines:
  assumes "locks_inv l" and "try_acquire_shared l k pid = Some (r, l')"
  shows "case rw_shared (lock_holders l k) pid of
      Some h \<Rightarrow> r = Inr () \<and> locks_to k h l l' | None \<Rightarrow> r = Inl ERR_WOULD_BLOCK \<and> l' = l"
proof (cases "bt_get l k")
  case None
  then show ?thesis
    using assms by (auto simp: try_acquire_shared_def lock_holders_def rw_shared_def
        intro!: locks_to_insert sole_lock_ok sole_lock_holders)
next
  case (Some st)
  note st = locks_inv_get [OF assms(1) Some]
  show ?thesis
  proof (cases "pid \<in> dom (entry_holders st) \<or> il_type st = Some Exclusive")
    case True
    then show ?thesis
      using assms Some entry_exclusive [OF st]
      by (auto simp: try_acquire_shared_def entry_holds lock_holders_self rw_shared_def intro: locks_to_same split: if_splits)
  next
    case False
    then obtain c where c: "add_c (il_count st) 1 = Some c" "r = Inr ()" "l' = bt_insert k (push_holder st c Shared pid) l"
      using assms(2) Some by (auto simp: try_acquire_shared_def entry_holds bind_eq_Some_conv)
    have new: "pid \<notin> dom (entry_holders st)" using False by blast
    have "lock_ok (push_holder st c Shared pid)"
      using push_shared_ok [OF st new] False count_succ [OF st c(1)] by simp
    then show ?thesis
      using c new False locks_to_insert [OF assms(1) _ push_holder_holders [OF new], where k = k] entry_exclusive [OF st] Some
      by (auto simp: lock_holders_self rw_shared_def)
  qed
qed

lemma try_exclusive_refines:
  assumes "locks_inv l" and "try_acquire_exclusive l k pid = Some (r, l')"
  shows "case rw_exclusive (lock_holders l k) pid of
      Some h \<Rightarrow> r = Inr () \<and> locks_to k h l l' | None \<Rightarrow> r = Inl ERR_WOULD_BLOCK \<and> l' = l"
proof (cases "bt_get l k")
  case None
  then show ?thesis
    using assms by (auto simp: try_acquire_exclusive_def lock_holders_def rw_exclusive_def
        intro!: locks_to_insert sole_lock_ok sole_lock_holders)
next
  case (Some st)
  note st = locks_inv_get [OF assms(1) Some]
  have zero: "il_count st = 0 \<longleftrightarrow> il_holders st = []"
    using st by (metis length_0_conv lock_ok_def unat_eq_zero)
  show ?thesis
  proof (cases "position (\<lambda>r. lr_pid r = pid) (il_holders st)")
    case None
    then show ?thesis
      using assms(2) Some free_exclusive [OF assms(1) Some, of pid] zero
        refused_exclusive [OF st] position_no_holder [of pid st]
      by (auto simp: try_acquire_exclusive_def lock_holders_self split: if_splits)
  next
    case pos: (Some pos)
    have ne: "il_count st \<noteq> 0" using zero position_holder(1) [OF pos] by auto
    consider "lr_type (il_holders st ! pos) = Exclusive" | "lr_type (il_holders st ! pos) = Shared" "il_count st = 1"
      | "lr_type (il_holders st ! pos) = Shared" "il_count st \<noteq> 1"
      by (cases "lr_type (il_holders st ! pos)") auto
    then show ?thesis
    proof cases
      case 1
      then show ?thesis
        using assms Some pos exclusive_held [OF st pos]
        by (auto simp: try_acquire_exclusive_def lock_holders_self intro: locks_to_same)
    next
      case 2
      then show ?thesis
        using assms(2) Some pos upgrade_exclusive [OF assms(1) Some _ pos] by (auto simp: try_acquire_exclusive_def)
    next
      case 3
      have "rw_exclusive (entry_holders st) pid = None"
        using entry_other_holder [OF st 3(2) position_holder(1) [OF pos]] position_holder(2) [OF pos]
        by (simp add: rw_exclusive_def)
      then show ?thesis
        using 3 ne assms(2) Some pos by (auto simp: try_acquire_exclusive_def lock_holders_self)
    qed
  qed
qed

subsection \<open>Task exit\<close>

lemma drop_holder_ok:
  assumes "lock_ok st" and "pid \<in> dom (entry_holders st)"
  shows "lock_ok (drop_holder pid st) \<and> entry_holders (drop_holder pid st) = rw_release (entry_holders st) pid"
proof -
  let ?hs = "filter (\<lambda>r. lr_pid r \<noteq> pid) (il_holders st)"
  note rel = released_entry [OF assms]
  let ?c = "sat_sub (il_count st) 1"
  have c: "unat ?c = length ?hs" using rel(2) by (simp add: unat_sat_sub)
  then have c0: "?c = 0 \<longleftrightarrow> ?hs = []" by (metis length_0_conv unat_eq_zero)
  have "drop_holder pid st = \<lparr>il_count = ?c, il_type = if ?hs = [] then None else il_type st, il_holders = ?hs\<rparr>"
    using rel(1) c0 by (simp add: drop_holder_def Let_def)
  then show ?thesis using rel(3) [OF c refl] by simp
qed

lemma bt_get_foldl_modify:
  "distinct ks \<Longrightarrow> bt_get (foldl (\<lambda>l key. bt_modify key f l) l ks) k =
     (if k \<in> set ks then map_option f (bt_get l k) else bt_get l k)"
  by (induction ks arbitrary: l) auto

lemma bt_wf_foldl_modify: "bt_wf l \<Longrightarrow> bt_wf (foldl (\<lambda>l key. bt_modify key f l) l ks)"
  by (induction ks arbitrary: l) auto

lemma release_all_get:
  assumes "locks_inv l"
  shows "bt_get (release_all_for_task l pid) k =
    (case bt_get l k of
       None \<Rightarrow> None
     | Some st \<Rightarrow> Some (if pid \<in> dom (entry_holders st) then drop_holder pid st else st))"
proof -
  let ?ks = "map fst (filter (\<lambda>e. \<exists>r \<in> set (il_holders (snd e)). lr_pid r = pid) l)"
  have wf: "bt_wf l" using assms by (simp add: locks_inv_def)
  have "distinct ?ks" using bt_wf_distinct [OF wf] by (rule distinct_map_filter)
  then have get: "bt_get (release_all_for_task l pid) k = (if k \<in> set ?ks then map_option (drop_holder pid) (bt_get l k) else bt_get l k)"
    unfolding release_all_for_task_def Let_def by (rule bt_get_foldl_modify)
  have "k \<in> set ?ks \<longleftrightarrow> (\<exists>st. (k, st) \<in> set l \<and> (\<exists>r \<in> set (il_holders st). lr_pid r = pid))"
    unfolding set_map set_filter image_iff Bex_def mem_Collect_eq by (metis fst_conv prod.collapse snd_conv)
  also have "\<dots> \<longleftrightarrow> (\<exists>st. bt_get l k = Some st \<and> pid \<in> dom (entry_holders st))"
    unfolding bt_get_iff [OF wf, symmetric] entry_holds ..
  finally show ?thesis
    unfolding get by (cases "bt_get l k") simp_all
qed

lemma release_all_refines:
  assumes "locks_inv l"
  shows "locks_inv (release_all_for_task l pid)"
    and "lock_holders (release_all_for_task l pid) k = rw_release (lock_holders l k) pid"
proof -
  have "bt_wf (release_all_for_task l pid)"
    using assms by (simp add: release_all_for_task_def locks_inv_def bt_wf_foldl_modify)
  moreover have "lock_ok st" if g: "bt_get (release_all_for_task l pid) k = Some st" for k st
  proof -
    obtain st' where st': "bt_get l k = Some st'" "st = (if pid \<in> dom (entry_holders st') then drop_holder pid st' else st')"
      using g by (auto simp: release_all_get [OF assms] split: option.splits)
    then show ?thesis using drop_holder_ok [of st' pid] locks_inv_get [OF assms st'(1)] by simp
  qed
  ultimately show "locks_inv (release_all_for_task l pid)" unfolding locks_inv_def by blast
  show "lock_holders (release_all_for_task l pid) k = rw_release (lock_holders l k) pid"
  proof (cases "bt_get l k")
    case (Some st)
    then show ?thesis
      using drop_holder_ok [OF locks_inv_get [OF assms Some], of pid]
      by (auto simp: lock_holders_def release_all_get [OF assms] rw_release_def fun_upd_idem_iff domIff)
  qed (simp add: lock_holders_def release_all_get [OF assms] rw_release_def)
qed

subsection \<open>The whole call\<close>

definition lock_room :: "lock_table \<Rightarrow> bool" where
  "lock_room l \<longleftrightarrow> (\<forall>k st. bt_get l k = Some st \<longrightarrow> Suc (length (il_holders st)) < 2 ^ 32)"

lemma count_room:
  assumes "locks_inv l" and "lock_room l" and "bt_get l k = Some st"
  shows "\<exists>c. add_c (il_count st) 1 = Some c"
proof -
  have "unat (il_count st) + 1 < 2 ^ 32"
    using locks_inv_get [OF assms(1,3)] assms(2,3) unfolding lock_room_def lock_ok_def by auto
  then show ?thesis by (simp add: add_c_def)
qed

lemma flock_total:
  assumes "locks_inv l" and "lock_room l"
  shows "\<exists>r l'. flock l k op pid = Some (r, l')"
proof -
  have "\<exists>r l'. acquire_shared l k pid nb = Some (r, l')" for nb
    using count_room [OF assms]
    by (fastforce simp: acquire_shared_def split: option.splits lock_type.splits)
  moreover have "\<exists>r l'. acquire_exclusive l k pid nb = Some (r, l')" for nb
    by (auto simp: acquire_exclusive_def split: option.splits lock_type.splits)
  moreover have "\<exists>r l'. release_lock l k pid = Some (r, l')"
    using release_lock_refines [OF assms(1)] by blast
  ultimately show ?thesis by (auto simp: flock_def Let_def)
qed

lemma flock_Some_refines:
  assumes "locks_inv l" and "flock l k op pid = Some (r, l')"
  shows "r = fst (rw_flock (lock_holders l k) op pid)"
    and "locks_to k (snd (rw_flock (lock_holders l k) op pid)) l l'"
proof -
  let ?op = "op AND NOT LOCK_NB" and ?nb = "op AND LOCK_NB \<noteq> 0"
  have same: "locks_to k (lock_holders l k) l l" using locks_to_same [OF assms(1)] by simp
  consider "?op = LOCK_SH" | "?op = LOCK_EX" "?op \<noteq> LOCK_SH" | "?op = LOCK_UN" "?op \<noteq> LOCK_SH" "?op \<noteq> LOCK_EX"
    | "?op \<noteq> LOCK_SH" "?op \<noteq> LOCK_EX" "?op \<noteq> LOCK_UN" by blast
  then have "r = fst (rw_flock (lock_holders l k) op pid) \<and> locks_to k (snd (rw_flock (lock_holders l k) op pid)) l l'"
  proof cases
    case 1
    then have "acquire_shared l k pid ?nb = Some (r, l')" using assms(2) by (simp add: flock_def Let_def)
    from acquire_shared_refines [OF assms(1) this] show ?thesis
      using 1 same by (cases "rw_shared (lock_holders l k) pid") (simp_all add: rw_flock_def Let_def)
  next
    case 2
    then have "acquire_exclusive l k pid ?nb = Some (r, l')" using assms(2) by (simp add: flock_def Let_def)
    from acquire_exclusive_refines [OF assms(1) this] show ?thesis
      using 2 same by (cases "rw_exclusive (lock_holders l k) pid") (simp_all add: rw_flock_def Let_def)
  next
    case 3
    then have "release_lock l k pid = Some (r, l')" using assms(2) by (simp add: flock_def Let_def)
    then show ?thesis
      using 3 release_lock_refines [OF assms(1), of k pid] by (simp add: rw_flock_def Let_def)
  next
    case 4
    then show ?thesis using assms(2) same by (simp add: flock_def rw_flock_def Let_def)
  qed
  then show "r = fst (rw_flock (lock_holders l k) op pid)"
    and "locks_to k (snd (rw_flock (lock_holders l k) op pid)) l l'" by blast+
qed

lemma try_acquire_refines:
  assumes "locks_inv l" and "try_acquire t l k pid = Some (r, l')"
  shows "case (case t of Shared \<Rightarrow> rw_shared | Exclusive \<Rightarrow> rw_exclusive) (lock_holders l k) pid of
      Some h \<Rightarrow> r = Inr () \<and> locks_to k h l l' | None \<Rightarrow> r = Inl ERR_WOULD_BLOCK \<and> l' = l"
  using try_shared_refines [OF assms(1), of k pid r l'] try_exclusive_refines [OF assms(1), of k pid r l'] assms(2)
  by (cases t) simp_all

subsection \<open>Every interleaving\<close>

lemma try_acquire_inv:
  assumes "locks_inv l" and "try_acquire t l k pid = Some (r, l')"
  shows "locks_inv l'"
  using try_acquire_refines [OF assms] assms(1) by (auto simp: locks_to_def split: option.splits)

lemma lock_step_inv: "lock_step s ev s' \<Longrightarrow> locks_inv (ls_locks s) \<Longrightarrow> locks_inv (ls_locks s')"
proof (induction rule: lock_step.induct)
  case (call_done s pid key op r l e)
  then show ?case using flock_Some_refines(2) by (fastforce simp: locks_to_def)
next
  case (call_wait_shared s pid key op l)
  then show ?case using flock_Some_refines(2) by (fastforce simp: locks_to_def)
next
  case (call_wait_exclusive s pid key op l)
  then show ?case using flock_Some_refines(2) by (fastforce simp: locks_to_def)
next
  case (retry_granted s pid key t l)
  then show ?case using try_acquire_inv by simp
next
  case (retry_again s pid key t e l)
  then show ?case using try_acquire_inv by simp
next
  case (exit s pid)
  then show ?case using release_all_refines(1) by simp
qed

lemma lock_run_inv: "lock_run s evs s' \<Longrightarrow> locks_inv (ls_locks s) \<Longrightarrow> locks_inv (ls_locks s')"
  by (induction rule: lock_run.induct) (auto intro: lock_step_inv)

lemma lock_boot_inv: "locks_inv (ls_locks lock_boot)"
  by (simp add: lock_boot_def locks_inv_def)

lemma lock_holders_rw_ok: "locks_inv l \<Longrightarrow> rw_ok (lock_holders l k)"
  using entry_rw_ok locks_inv_get [of l k] by (auto simp: lock_holders_def rw_ok_def split: option.splits)

text \<open>Two readers that both ask for the upgrade.\<close>

definition upgrade_stuck :: "lock_key \<Rightarrow> u64 \<Rightarrow> u64 \<Rightarrow> lock_sys \<Rightarrow> bool" where
  "upgrade_stuck k p q s \<longleftrightarrow> p \<noteq> q \<and> locks_inv (ls_locks s) \<and>
     lock_holders (ls_locks s) k p = Some Shared \<and> lock_holders (ls_locks s) k q = Some Shared \<and>
     ls_waiting s p = Some (k, Exclusive) \<and> ls_waiting s q = Some (k, Exclusive)"

text \<open>What another task does to the lock of two readers keeps the two readers.\<close>

lemma rw_flock_keeps:
  assumes "h p = Some Shared" "h q = Some Shared" "p \<noteq> q" "r \<noteq> p" "r \<noteq> q"
  shows "snd (rw_flock h op r) p = Some Shared \<and> snd (rw_flock h op r) q = Some Shared"
proof -
  have "rw_exclusive h r = None" using assms by (auto simp: rw_exclusive_def)
  moreover have "\<forall>h'. rw_shared h r = Some h' \<longrightarrow> h' p = Some Shared \<and> h' q = Some Shared"
    using assms by (auto simp: rw_shared_def)
  ultimately show ?thesis
    using assms by (auto simp: rw_flock_def Let_def rw_release_def split: option.splits)
qed

lemma locks_to_at: "locks_to k' h l l' \<Longrightarrow> lock_holders l' k = (if k = k' then h else lock_holders l k)"
  by (simp add: locks_to_def)

lemma flock_keeps_readers:
  assumes "locks_inv l" "lock_holders l k p = Some Shared" "lock_holders l k q = Some Shared" "p \<noteq> q"
    and "r \<noteq> p" "r \<noteq> q" and "flock l k' op r = Some (res, l')"
  shows "lock_holders l' k p = Some Shared \<and> lock_holders l' k q = Some Shared \<and> locks_inv l'"
  using flock_Some_refines(2) [OF assms(1,7)] rw_flock_keeps [OF assms(2,3,4,5,6)] assms(2,3)
  by (auto simp: locks_to_at locks_to_def)

lemma try_keeps_readers:
  assumes "locks_inv l" "lock_holders l k p = Some Shared" "lock_holders l k q = Some Shared" "p \<noteq> q"
    and "try_acquire t l k' r = Some (res, l')"
  shows "lock_holders l' k p = Some Shared \<and> lock_holders l' k q = Some Shared \<and> locks_inv l'"
    and "t = Exclusive \<Longrightarrow> k' = k \<Longrightarrow> res = Inl ERR_WOULD_BLOCK"
proof -
  have ex: "rw_exclusive (lock_holders l k) r = None" using assms(2-4) by (auto simp: rw_exclusive_def)
  have sh: "\<forall>h. rw_shared (lock_holders l k) r = Some h \<longrightarrow> h p = Some Shared \<and> h q = Some Shared"
    using assms(2,3) by (auto simp: rw_shared_def)
  note ref = try_acquire_refines [OF assms(1,5)]
  show "t = Exclusive \<Longrightarrow> k' = k \<Longrightarrow> res = Inl ERR_WOULD_BLOCK" using ref ex by simp
  show "lock_holders l' k p = Some Shared \<and> lock_holders l' k q = Some Shared \<and> locks_inv l'"
    using ref ex sh assms(1-3)
    by (cases "k' = k") (auto simp: locks_to_def split: option.splits lock_type.splits)
qed

lemma upgrade_stuck_call:
  assumes "upgrade_stuck k p q s" "ls_waiting s pid = None" "flock (ls_locks s) key op pid = Some (r, l)"
  shows "pid \<noteq> p" "pid \<noteq> q" "upgrade_stuck k p q (s\<lparr>ls_locks := l\<rparr>)"
proof -
  show other: "pid \<noteq> p" "pid \<noteq> q" using assms(1,2) by (auto simp: upgrade_stuck_def)
  show "upgrade_stuck k p q (s\<lparr>ls_locks := l\<rparr>)"
    using flock_keeps_readers [OF _ _ _ _ other assms(3), of k] assms(1) by (simp add: upgrade_stuck_def)
qed

lemma upgrade_stuck_try:
  assumes "upgrade_stuck k p q s" "try_acquire t (ls_locks s) key pid = Some (r, l)"
  shows "r = Inr () \<Longrightarrow> (key, t) \<noteq> (k, Exclusive)" "upgrade_stuck k p q (s\<lparr>ls_locks := l\<rparr>)"
proof -
  have pre: "locks_inv (ls_locks s)" "lock_holders (ls_locks s) k p = Some Shared"
    "lock_holders (ls_locks s) k q = Some Shared" "p \<noteq> q"
    using assms(1) by (simp_all add: upgrade_stuck_def)
  note keep = try_keeps_readers [OF pre assms(2)]
  show "r = Inr () \<Longrightarrow> (key, t) \<noteq> (k, Exclusive)" using keep(2) by auto
  show "upgrade_stuck k p q (s\<lparr>ls_locks := l\<rparr>)" using keep(1) assms(1) by (simp add: upgrade_stuck_def)
qed

lemma upgrade_stuck_step: "lock_step s ev s' \<Longrightarrow> upgrade_stuck k p q s \<Longrightarrow> upgrade_stuck k p q s'"
proof (induction rule: lock_step.induct)
  case (call_done s pid key op r l e)
  then show ?case using upgrade_stuck_call(3) by blast
next
  case (call_wait_shared s pid key op l)
  note c = upgrade_stuck_call [OF call_wait_shared.prems call_wait_shared.hyps]
  then show ?case by (simp add: upgrade_stuck_def)
next
  case (call_wait_exclusive s pid key op l)
  note c = upgrade_stuck_call [OF call_wait_exclusive.prems call_wait_exclusive.hyps]
  then show ?case by (simp add: upgrade_stuck_def)
next
  case (retry_granted s pid key t l)
  note c = upgrade_stuck_try [OF retry_granted.prems retry_granted.hyps(2)]
  have "pid \<noteq> p \<and> pid \<noteq> q"
    using c(1) retry_granted.hyps(1) retry_granted.prems by (auto simp: upgrade_stuck_def)
  then show ?case using c(2) by (auto simp: upgrade_stuck_def)
next
  case (retry_again s pid key t e l)
  then show ?case using upgrade_stuck_try(2) by blast
next
  case (exit s pid)
  then have "pid \<noteq> p \<and> pid \<noteq> q" by (auto simp: upgrade_stuck_def)
  moreover have inv: "locks_inv (ls_locks s)" using exit.prems by (simp add: upgrade_stuck_def)
  ultimately show ?case
    using exit.prems release_all_refines [OF inv] by (auto simp: upgrade_stuck_def rw_release_def)
qed

lemma upgrade_stuck_run: "lock_run s evs s' \<Longrightarrow> upgrade_stuck k p q s \<Longrightarrow> upgrade_stuck k p q s'"
  by (induction rule: lock_run.induct) (auto intro: upgrade_stuck_step)

subsection \<open>Properties\<close>

text \<open>C1: The lock table refines a readers-writer lock. On a table that satisfies the invariant, \<open>flock\<close>
  with any operation word does not panic, answers what the readers-writer lock answers (granted, would
  block, starts to wait, invalid argument), changes the holders of that lock as it does, and leaves
  every other lock alone.\<close>

theorem flock_refines:
  assumes "locks_inv l" and "lock_room l"
  shows "\<exists>r l'. flock l k op pid = Some (r, l') \<and> locks_inv l' \<and>
    (r, lock_holders l' k) = rw_flock (lock_holders l k) op pid \<and>
    (\<forall>k'. k' \<noteq> k \<longrightarrow> lock_holders l' k' = lock_holders l k')"
proof -
  obtain r l' where f: "flock l k op pid = Some (r, l')" using flock_total [OF assms] by blast
  then show ?thesis
    using flock_Some_refines [OF assms(1) f] by (auto simp: locks_to_def prod_eq_iff)
qed

theorem flock_refines_witness:
  "locks_inv [] \<and> lock_room [] \<and>
   (\<exists>l'. flock [] (0, 5) LOCK_EX 7 = Some (Lock_ok, l') \<and> lock_holders l' (0, 5) = [7 \<mapsto> Exclusive])"
proof -
  have inv: "locks_inv []" "lock_room []" by (simp_all add: locks_inv_def lock_room_def)
  have "rw_flock (lock_holders [] (0, 5)) LOCK_EX 7 = (Lock_ok, [7 \<mapsto> Exclusive])"
    by (simp add: rw_flock_def lock_holders_def LOCK_EX_def LOCK_NB_def LOCK_SH_def rw_exclusive_def)
  then show ?thesis using flock_refines [OF inv, of "(0, 5)" LOCK_EX 7] inv by auto
qed

text \<open>C21: Mutual exclusion in every interleaving. However the calls, the rounds of the spinning tasks and
  the task exits are ordered, a task that holds a file exclusively is its only holder.\<close>

theorem flock_mutual_exclusion:
  assumes "lock_run lock_boot evs s" and "lock_holders (ls_locks s) k p = Some Exclusive"
  shows "lock_holders (ls_locks s) k = [p \<mapsto> Exclusive]"
  using lock_holders_rw_ok [OF lock_run_inv [OF assms(1) lock_boot_inv], of k] assms(2) by (simp add: rw_ok_def)

text \<open>A task that is given the exclusive lock, seen through the two inductive relations.\<close>

lemma lock_run_single: "lock_step s ev s' \<Longrightarrow> lock_run s [ev] s'"
  by (rule run_cons [OF _ run_nil])

lemma flock_free_exclusive: "flock [] k LOCK_EX p = Some (Lock_ok, [(k, sole_lock Exclusive p)])"
  by (simp add: flock_def acquire_exclusive_def LOCK_EX_def LOCK_NB_def LOCK_SH_def)

theorem flock_mutual_exclusion_witness:
  "\<exists>s. lock_run lock_boot [Call 7 (0, 5) LOCK_EX] s \<and> lock_holders (ls_locks s) (0, 5) = [7 \<mapsto> Exclusive]"
proof -
  let ?s = "lock_boot\<lparr>ls_locks := [((0, 5), sole_lock Exclusive 7)]\<rparr>"
  have "lock_step lock_boot (Call 7 (0, 5) LOCK_EX) ?s"
    using flock_free_exclusive [of "(0, 5)" 7] by (intro call_done [where r = Lock_ok]) (simp_all add: lock_boot_def)
  then have run: "lock_run lock_boot [Call 7 (0, 5) LOCK_EX] ?s" by (rule lock_run_single)
  have "lock_holders (ls_locks ?s) (0, 5) 7 = Some Exclusive"
    by (simp add: lock_holders_def bt_get_def sole_lock_holders)
  from flock_mutual_exclusion [OF run this] run show ?thesis by blast
qed

text \<open>A waiting task is served as soon as it can be. When no other task holds the file, the next round
  of a task that spins for the exclusive lock exists, ends its wait and makes it the holder; so does
  every such round.\<close>

theorem spin_exclusive_progress:
  assumes "locks_inv (ls_locks s)" and "ls_waiting s pid = Some (k, Exclusive)"
    and "dom (lock_holders (ls_locks s) k) \<subseteq> {pid}"
  shows "(\<exists>s'. lock_step s (Retry pid) s') \<and>
    (\<forall>s'. lock_step s (Retry pid) s' \<longrightarrow> ls_waiting s' pid = None \<and> lock_holders (ls_locks s') k pid = Some Exclusive)"
proof -
  have rw: "rw_exclusive (lock_holders (ls_locks s) k) pid = Some ((lock_holders (ls_locks s) k)(pid \<mapsto> Exclusive))"
    using assms(3) by (simp add: rw_exclusive_def)
  have ref: "r = Inr () \<and> locks_to k ((lock_holders (ls_locks s) k)(pid \<mapsto> Exclusive)) (ls_locks s) l"
    if "try_acquire_exclusive (ls_locks s) k pid = Some (r, l)" for r l
    using try_exclusive_refines [OF assms(1) that] rw by simp
  have "\<exists>r l. try_acquire_exclusive (ls_locks s) k pid = Some (r, l)"
    by (auto simp: try_acquire_exclusive_def Let_def split: option.splits)
  then obtain l where l: "try_acquire Exclusive (ls_locks s) k pid = Some (Inr (), l)"
    using ref by auto
  have "\<exists>s'. lock_step s (Retry pid) s'" using retry_granted [OF assms(2) l] by blast
  moreover have "ls_waiting s' pid = None \<and> lock_holders (ls_locks s') k pid = Some Exclusive"
    if step: "lock_step s (Retry pid) s'" for s'
  proof -
    obtain r l where r: "try_acquire Exclusive (ls_locks s) k pid = Some (r, l)" "ls_locks s' = l"
      "r = Inr () \<Longrightarrow> ls_waiting s' pid = None"
      using step assms(2) by (elim lock_retryE) auto
    then show ?thesis using ref [of r l] by (simp add: locks_to_def)
  qed
  ultimately show ?thesis by blast
qed

theorem spin_exclusive_progress_witness:
  "let s = \<lparr>ls_locks = [], ls_waiting = [7 \<mapsto> ((0, 5), Exclusive)]\<rparr> in
   locks_inv (ls_locks s) \<and> ls_waiting s 7 = Some ((0, 5), Exclusive) \<and> (\<exists>s'. lock_step s (Retry 7) s')"
  using spin_exclusive_progress [of "\<lparr>ls_locks = [], ls_waiting = [7 \<mapsto> ((0, 5), Exclusive)]\<rparr>" 7 "(0, 5)"]
  by (simp add: locks_inv_def lock_holders_def)

text \<open>Two readers that both ask for the exclusive lock wait for ever. The state is reached by four
  calls on a fresh table, and from it every continuation, whatever the other tasks do, leaves both
  spinning.\<close>

theorem flock_upgrade_deadlock:
  "\<exists>s. lock_run lock_boot [Call 1 k LOCK_SH, Call 2 k LOCK_SH, Call 1 k LOCK_EX, Call 2 k LOCK_EX] s \<and>
     (\<forall>evs s'. lock_run s evs s' \<longrightarrow>
        ls_waiting s' 1 = Some (k, Exclusive) \<and> ls_waiting s' 2 = Some (k, Exclusive))"
proof -
  define st where "st = \<lparr>il_count = 2, il_type = Some Shared,
    il_holders = [\<lparr>lr_type = Shared, lr_pid = 1\<rparr>, \<lparr>lr_type = Shared, lr_pid = (2 :: u64)\<rparr>]\<rparr>"
  let ?s1 = "lock_boot\<lparr>ls_locks := [(k, sole_lock Shared 1)]\<rparr>"
  let ?s2 = "?s1\<lparr>ls_locks := [(k, st)]\<rparr>"
  let ?s3 = "?s2\<lparr>ls_locks := [(k, st)], ls_waiting := (ls_waiting ?s2)(1 \<mapsto> (k, Exclusive))\<rparr>"
  let ?s4 = "?s3\<lparr>ls_locks := [(k, st)], ls_waiting := (ls_waiting ?s3)(2 \<mapsto> (k, Exclusive))\<rparr>"
  note defs = flock_def acquire_shared_def acquire_exclusive_def LOCK_EX_def LOCK_NB_def LOCK_SH_def
    bt_get_def sole_lock_def push_holder_def add_c_def st_def lock_boot_def
  have c1: "lock_step lock_boot (Call 1 k LOCK_SH) ?s1"
    by (rule call_done [where r = Lock_ok]) (simp_all add: defs)
  have c2: "lock_step ?s1 (Call 2 k LOCK_SH) ?s2"
    by (rule call_done [where r = Lock_ok]) (simp_all add: defs)
  have c3: "lock_step ?s2 (Call 1 k LOCK_EX) ?s3"
    by (rule call_wait_exclusive) (simp_all add: defs)
  have c4: "lock_step ?s3 (Call 2 k LOCK_EX) ?s4"
    by (rule call_wait_exclusive) (simp_all add: defs)
  have run: "lock_run lock_boot [Call 1 k LOCK_SH, Call 2 k LOCK_SH, Call 1 k LOCK_EX, Call 2 k LOCK_EX] ?s4"
    by (rule run_cons [OF c1 run_cons [OF c2 run_cons [OF c3 run_cons [OF c4 run_nil]]]])
  have "upgrade_stuck k 1 2 ?s4"
    using lock_run_inv [OF run lock_boot_inv]
    by (simp add: upgrade_stuck_def lock_holders_def bt_get_def entry_holders_def st_def)
  then have "upgrade_stuck k 1 2 s'" if "lock_run ?s4 evs s'" for evs s'
    using upgrade_stuck_run [OF that] by blast
  then have "\<forall>evs s'. lock_run ?s4 evs s' \<longrightarrow> ls_waiting s' 1 = Some (k, Exclusive) \<and> ls_waiting s' 2 = Some (k, Exclusive)"
    unfolding upgrade_stuck_def by blast
  with run show ?thesis by blast
qed

theorem flock_upgrade_deadlock_witness:
  "\<exists>s. lock_run lock_boot [Call 1 (0, 5) LOCK_SH, Call 2 (0, 5) LOCK_SH, Call 1 (0, 5) LOCK_EX, Call 2 (0, 5) LOCK_EX] s \<and>
     ls_waiting s 1 = Some ((0, 5), Exclusive)"
  using flock_upgrade_deadlock [of "(0, 5)"] run_nil by blast

end
