(* ===== verification/Block_Cache.thy ===== *)
theory Block_Cache
  imports Kernel_Prelude
begin

text \<open>
  The LRU sector cache \<open>kernel/src/fs/block_cache.rs\<close> over the device registry of
  \<open>kernel/src/drivers/block.rs\<close>. A device is a trait object: its \<open>read_sector\<close> and
  \<open>write_sector\<close> are the parameters \<open>rd\<close> and \<open>wr\<close> of the definitions, over a state of all
  devices, and \<open>device_laws\<close> is what the trait documents of them. The abstraction \<open>sector\<close> is the
  sector a reader sees: the cached copy if there is one, the device otherwise.
\<close>

declare split_paired_All [simp del] split_paired_Ex [simp del]

type_synonym 'd sector_read = "'d \<Rightarrow> nat \<Rightarrow> u64 \<Rightarrow> u8 list option"
type_synonym 'd sector_write = "'d \<Rightarrow> nat \<Rightarrow> u64 \<Rightarrow> u8 list \<Rightarrow> bool \<times> 'd"

definition MAX_DEVICES :: nat where "MAX_DEVICES = 4"
definition CACHE_SIZE :: nat where "CACHE_SIZE = 64"
definition SECTOR_SIZE :: nat where "SECTOR_SIZE = 512"

subsection \<open>The registry\<close>

text \<open>A registered device is its identity.\<close>

type_synonym registry = "nat option list"

definition registry_new :: registry where
  "registry_new = replicate MAX_DEVICES None"

definition register_device :: "registry \<Rightarrow> nat \<Rightarrow> registry" where
  "register_device devs dev =
     (case position (\<lambda>s. s = None) devs of None \<Rightarrow> devs | Some i \<Rightarrow> devs[i := Some dev])"

definition get_device :: "registry \<Rightarrow> nat \<Rightarrow> nat option" where
  "get_device devs index = (if index \<ge> MAX_DEVICES then None else devs ! index)"

subsection \<open>The cache\<close>

record cache_entry =
  ce_device_idx :: nat
  ce_lba :: u64
  ce_data :: "u8 list"
  ce_dirty :: bool
  ce_valid :: bool
  ce_access_counter :: u64

definition cache_entry_empty :: cache_entry where
  "cache_entry_empty = \<lparr>ce_device_idx = 0, ce_lba = 0, ce_data = replicate SECTOR_SIZE 0, ce_dirty = False,
     ce_valid = False, ce_access_counter = 0\<rparr>"

record block_cache =
  bc_entries :: "cache_entry list"
  bc_counter :: u64

definition block_cache_new :: block_cache where
  "block_cache_new = \<lparr>bc_entries = replicate CACHE_SIZE cache_entry_empty, bc_counter = 0\<rparr>"

definition next_counter :: "block_cache \<Rightarrow> u64 \<times> block_cache" where
  "next_counter c = (bc_counter c + 1, c\<lparr>bc_counter := bc_counter c + 1\<rparr>)"

definition cache_find :: "block_cache \<Rightarrow> nat \<Rightarrow> u64 \<Rightarrow> nat option" where
  "cache_find c i lba = position (\<lambda>e. ce_valid e \<and> ce_device_idx e = i \<and> ce_lba e = lba) (bc_entries c)"

text \<open>The loop of \<open>find_lru_victim\<close> from slot \<open>i\<close> on, with the best candidate so far.\<close>

fun lru_scan :: "cache_entry list \<Rightarrow> nat \<Rightarrow> nat option \<Rightarrow> u64 \<Rightarrow> nat option" where
  "lru_scan [] i best_idx best_counter = best_idx"
| "lru_scan (e # es) i best_idx best_counter =
     (if \<not> ce_valid e then Some i
      else if \<not> ce_dirty e \<and> ce_access_counter e < best_counter
      then lru_scan es (i + 1) (Some i) (ce_access_counter e)
      else lru_scan es (i + 1) best_idx best_counter)"

definition find_lru_victim :: "block_cache \<Rightarrow> nat option" where
  "find_lru_victim c = lru_scan (bc_entries c) 0 None (- 1)"

record 'd block_sys =
  bs_cache :: block_cache
  bs_devs :: registry
  bs_disk :: 'd

definition entry_at :: "block_cache \<Rightarrow> nat \<Rightarrow> cache_entry" where
  "entry_at c i = bc_entries c ! i"

definition put_entry :: "block_cache \<Rightarrow> nat \<Rightarrow> cache_entry \<Rightarrow> block_cache" where
  "put_entry c i e = c\<lparr>bc_entries := (bc_entries c)[i := e]\<rparr>"

text \<open>\<open>If the victim is dirty, flush it first\<close>: the state of the devices after it.\<close>

definition flush_victim :: "'d sector_write \<Rightarrow> registry \<Rightarrow> cache_entry \<Rightarrow> 'd \<Rightarrow> 'd" where
  "flush_victim wr devs e disk =
     (if ce_valid e \<and> ce_dirty e then
        (case get_device devs (ce_device_idx e) of
           None \<Rightarrow> disk
         | Some dev \<Rightarrow> snd (wr disk dev (ce_lba e) (ce_data e)))
      else disk)"

definition read_cached ::
  "'d sector_read \<Rightarrow> 'd sector_write \<Rightarrow> 'd block_sys \<Rightarrow> nat \<Rightarrow> u64 \<Rightarrow> u8 list option \<times> 'd block_sys" where
  "read_cached rd wr s device_idx lba =
     (case cache_find (bs_cache s) device_idx lba of
        Some idx \<Rightarrow>
          let (counter, c) = next_counter (bs_cache s);
              e = (entry_at c idx)\<lparr>ce_access_counter := counter\<rparr>
          in (Some (ce_data e), s\<lparr>bs_cache := put_entry c idx e\<rparr>)
      | None \<Rightarrow>
          (case get_device (bs_devs s) device_idx of
             None \<Rightarrow> (None, s)
           | Some dev \<Rightarrow>
               (case rd (bs_disk s) dev lba of
                  None \<Rightarrow> (None, s)
                | Some buf \<Rightarrow>
                    (case find_lru_victim (bs_cache s) of
                       None \<Rightarrow> (None, s)
                     | Some victim \<Rightarrow>
                         let (counter, c) = next_counter (bs_cache s);
                             disk = flush_victim wr (bs_devs s) (entry_at c victim) (bs_disk s)
                         in (Some buf, s\<lparr>bs_disk := disk, bs_cache := put_entry c victim
                              \<lparr>ce_device_idx = device_idx, ce_lba = lba, ce_data = buf, ce_dirty = False,
                               ce_valid = True, ce_access_counter = counter\<rparr>\<rparr>)))))"

definition write_cached ::
  "'d sector_write \<Rightarrow> 'd block_sys \<Rightarrow> nat \<Rightarrow> u64 \<Rightarrow> u8 list \<Rightarrow> bool \<times> 'd block_sys" where
  "write_cached wr s device_idx lba data =
     (case cache_find (bs_cache s) device_idx lba of
        Some idx \<Rightarrow>
          let (counter, c) = next_counter (bs_cache s);
              e = (entry_at c idx)\<lparr>ce_data := data, ce_dirty := True, ce_access_counter := counter\<rparr>
          in (True, s\<lparr>bs_cache := put_entry c idx e\<rparr>)
      | None \<Rightarrow>
          (case find_lru_victim (bs_cache s) of
             None \<Rightarrow> (False, s)
           | Some victim \<Rightarrow>
               let (counter, c) = next_counter (bs_cache s);
                   disk = flush_victim wr (bs_devs s) (entry_at c victim) (bs_disk s)
               in (True, s\<lparr>bs_disk := disk, bs_cache := put_entry c victim
                    \<lparr>ce_device_idx = device_idx, ce_lba = lba, ce_data = data, ce_dirty = True,
                     ce_valid = True, ce_access_counter = counter\<rparr>\<rparr>)))"

text \<open>The loop of \<open>flush_all\<close>: failures, entries, devices.\<close>

fun flush_loop ::
  "'d sector_write \<Rightarrow> registry \<Rightarrow> cache_entry list \<Rightarrow> 'd \<Rightarrow> nat \<times> cache_entry list \<times> 'd" where
  "flush_loop wr devs [] disk = (0, [], disk)"
| "flush_loop wr devs (e # es) disk =
     (let (fail, e', disk') =
        (if ce_valid e \<and> ce_dirty e then
           (case get_device devs (ce_device_idx e) of
              None \<Rightarrow> (1, e, disk)
            | Some dev \<Rightarrow>
                (case wr disk dev (ce_lba e) (ce_data e) of
                   (True, disk') \<Rightarrow> (0, e\<lparr>ce_dirty := False\<rparr>, disk')
                 | (False, disk') \<Rightarrow> (1, e, disk')))
         else (0, e, disk));
          (n, es', disk'') = flush_loop wr devs es disk'
      in (fail + n, e' # es', disk''))"

definition flush_all :: "'d sector_write \<Rightarrow> 'd block_sys \<Rightarrow> nat \<times> 'd block_sys" where
  "flush_all wr s =
     (let (failures, es, disk) = flush_loop wr (bs_devs s) (bc_entries (bs_cache s)) (bs_disk s)
      in (failures, s\<lparr>bs_cache := (bs_cache s)\<lparr>bc_entries := es\<rparr>, bs_disk := disk\<rparr>))"

subsection \<open>Laws of the devices\<close>

text \<open>A successful write is what the sector reads from then on; no write touches another sector or
  another device, and a failed write changes nothing.\<close>

definition device_laws :: "'d sector_read \<Rightarrow> 'd sector_write \<Rightarrow> bool" where
  "device_laws rd wr \<longleftrightarrow>
     (\<forall>d dev lba x d'. wr d dev lba x = (True, d') \<longrightarrow>
        rd d' dev lba = Some x \<and> (\<forall>dev' lba'. (dev', lba') \<noteq> (dev, lba) \<longrightarrow> rd d' dev' lba' = rd d dev' lba')) \<and>
     (\<forall>d dev lba x d'. wr d dev lba x = (False, d') \<longrightarrow> (\<forall>dev' lba'. rd d' dev' lba' = rd d dev' lba'))"

text \<open>What a reader of sector \<open>lba\<close> of device \<open>i\<close> sees on the device, and through the cache.\<close>

definition on_disk :: "'d sector_read \<Rightarrow> 'd block_sys \<Rightarrow> nat \<Rightarrow> u64 \<Rightarrow> u8 list option" where
  "on_disk rd s i lba = (case get_device (bs_devs s) i of None \<Rightarrow> None | Some dev \<Rightarrow> rd (bs_disk s) dev lba)"

definition sector :: "'d sector_read \<Rightarrow> 'd block_sys \<Rightarrow> nat \<Rightarrow> u64 \<Rightarrow> u8 list option" where
  "sector rd s i lba =
     (case cache_find (bs_cache s) i lba of
        Some idx \<Rightarrow> Some (ce_data (entry_at (bs_cache s) idx))
      | None \<Rightarrow> on_disk rd s i lba)"

text \<open>Slot \<open>j\<close> holds sector \<open>lba\<close> of device \<open>i\<close>.\<close>

definition slot :: "block_cache \<Rightarrow> nat \<Rightarrow> nat \<Rightarrow> u64 \<Rightarrow> bool" where
  "slot c j i lba \<longleftrightarrow> j < length (bc_entries c) \<and> ce_valid (entry_at c j) \<and>
     ce_device_idx (entry_at c j) = i \<and> ce_lba (entry_at c j) = lba"

text \<open>At most one slot per sector, clean slots equal the device, no device registered twice.\<close>

definition cache_inv :: "'d sector_read \<Rightarrow> 'd block_sys \<Rightarrow> bool" where
  "cache_inv rd s \<longleftrightarrow>
     (\<forall>i lba j j'. slot (bs_cache s) j i lba \<and> slot (bs_cache s) j' i lba \<longrightarrow> j = j') \<and>
     (\<forall>i lba j. slot (bs_cache s) j i lba \<and> \<not> ce_dirty (entry_at (bs_cache s) j) \<longrightarrow>
        on_disk rd s i lba = Some (ce_data (entry_at (bs_cache s) j))) \<and>
     (\<forall>i j dev. get_device (bs_devs s) i = Some dev \<and> get_device (bs_devs s) j = Some dev \<longrightarrow> i = j)"

lemma cache_find_Some: "cache_find c i lba = Some j \<Longrightarrow> slot c j i lba"
  using position_lt position_sat by (fastforce simp: cache_find_def slot_def entry_at_def)

lemma cache_find_None: "cache_find c i lba = None \<longleftrightarrow> (\<forall>j. \<not> slot c j i lba)"
  by (auto simp: cache_find_def slot_def entry_at_def position_None all_set_conv_all_nth)

lemma cache_find_slot:
  assumes "cache_inv rd s" and "slot (bs_cache s) j i lba"
  shows "cache_find (bs_cache s) i lba = Some j"
proof -
  obtain j' where j': "cache_find (bs_cache s) i lba = Some j'"
    using assms(2) cache_find_None by (metis option.exhaust)
  then have "j' = j" using cache_find_Some [OF j'] assms unfolding cache_inv_def by blast
  with j' show ?thesis by simp
qed

lemma sector_slot: "cache_inv rd s \<Longrightarrow> slot (bs_cache s) j i lba \<Longrightarrow>
  sector rd s i lba = Some (ce_data (entry_at (bs_cache s) j))"
  by (simp add: sector_def cache_find_slot)

lemma sector_miss: "\<forall>j. \<not> slot (bs_cache s) j i lba \<Longrightarrow> sector rd s i lba = on_disk rd s i lba"
  by (simp add: sector_def cache_find_None [THEN iffD2])

subsection \<open>The victim\<close>

lemma lru_scan_Some:
  "lru_scan es i best bc = Some v \<Longrightarrow> best = Some v \<or>
   (i \<le> v \<and> v < i + length es \<and> \<not> (ce_valid (es ! (v - i)) \<and> ce_dirty (es ! (v - i))))"
proof (induction es i best bc rule: lru_scan.induct)
  case (2 e es i best bc)
  consider "\<not> ce_valid e" | "ce_valid e" "\<not> ce_dirty e \<and> ce_access_counter e < bc"
    | "ce_valid e" "\<not> (\<not> ce_dirty e \<and> ce_access_counter e < bc)" by blast
  then show ?case
  proof cases
    case 1
    then show ?thesis using 2 by simp
  next
    case b: 2
    then have "Some i = Some v \<or> (i + 1 \<le> v \<and> v < i + 1 + length es \<and>
        \<not> (ce_valid (es ! (v - (i + 1))) \<and> ce_dirty (es ! (v - (i + 1)))))"
      using 2 by simp
    then show ?thesis using b by (auto simp: nth_Cons' Suc_diff_Suc less_eq_Suc_le)
  next
    case c: 3
    then have "best = Some v \<or> (i + 1 \<le> v \<and> v < i + 1 + length es \<and>
        \<not> (ce_valid (es ! (v - (i + 1))) \<and> ce_dirty (es ! (v - (i + 1)))))"
      using 2 by (simp split: if_splits)
    then show ?thesis by (auto simp: nth_Cons' Suc_diff_Suc less_eq_Suc_le)
  qed
qed simp

lemma victim_clean:
  assumes "find_lru_victim c = Some v"
  shows "v < length (bc_entries c)" and "\<not> (ce_valid (entry_at c v) \<and> ce_dirty (entry_at c v))"
  using lru_scan_Some [of "bc_entries c" 0 None "- 1" v] assms by (auto simp: find_lru_victim_def entry_at_def)

text \<open>The flush of a dirty victim is never reached.\<close>

lemma flush_victim_dead: "find_lru_victim c = Some v \<Longrightarrow> flush_victim wr devs (entry_at c v) disk = disk"
  using victim_clean(2) [of c v] by (auto simp: flush_victim_def)

lemma next_counter_simps [simp]:
  "bc_entries (snd (next_counter c)) = bc_entries c" "entry_at (snd (next_counter c)) = entry_at c"
  by (simp_all add: next_counter_def entry_at_def fun_eq_iff)

subsection \<open>Replacing an entry\<close>

lemma entry_at_put: "v < length (bc_entries c) \<Longrightarrow> entry_at (put_entry c v e) j = (if j = v then e else entry_at c j)"
  by (simp add: entry_at_def put_entry_def)

lemma slot_put:
  assumes "v < length (bc_entries c)" and "ce_valid e"
  shows "slot (put_entry c v e) j i lba \<longleftrightarrow>
    (if j = v then ce_device_idx e = i \<and> ce_lba e = lba else slot c j i lba)"
  using assms by (auto simp: slot_def entry_at_def put_entry_def)

lemma slot_cong: "bc_entries c = bc_entries c' \<Longrightarrow> slot c = slot c' \<and> entry_at c = entry_at c'"
  by (simp add: slot_def entry_at_def fun_eq_iff)

text \<open>Slot \<open>v\<close> gets sector \<open>lba\<close> of device \<open>i\<close>: it held that sector before, or no slot did and what it held was
  not dirty. Only the view of that sector changes.\<close>

lemma replace_entry:
  assumes inv: "cache_inv rd s" and v: "v < length (bc_entries (bs_cache s))"
    and e: "ce_valid e" "ce_device_idx e = i" "ce_lba e = lba"
    and alone: "\<And>j. j \<noteq> v \<Longrightarrow> \<not> slot (bs_cache s) j i lba"
    and old: "slot (bs_cache s) v i lba \<or> \<not> (ce_valid (entry_at (bs_cache s) v) \<and> ce_dirty (entry_at (bs_cache s) v))"
    and clean: "\<not> ce_dirty e \<Longrightarrow> on_disk rd s i lba = Some (ce_data e)"
    and c: "bc_entries c = bc_entries (put_entry (bs_cache s) v e)"
  shows "cache_inv rd (s\<lparr>bs_cache := c\<rparr>)"
    and "sector rd (s\<lparr>bs_cache := c\<rparr>) i' lba' = (if (i', lba') = (i, lba) then Some (ce_data e) else sector rd s i' lba')"
proof -
  let ?s = "s\<lparr>bs_cache := c\<rparr>"
  have sl: "slot c j a b \<longleftrightarrow> (if j = v then i = a \<and> lba = b else slot (bs_cache s) j a b)" for j a b
    using slot_cong [OF c] slot_put [OF v e(1)] e(2,3) by simp
  have en: "entry_at c j = (if j = v then e else entry_at (bs_cache s) j)" for j
    using slot_cong [OF c] entry_at_put [OF v] by simp
  have disk: "on_disk rd ?s = on_disk rd s" by (simp add: on_disk_def fun_eq_iff split: option.split)
  have uniq: "j = j'" if "slot (bs_cache s) j a b" "slot (bs_cache s) j' a b" for j j' a b
    using inv that unfolding cache_inv_def by blast
  have coh: "on_disk rd s a b = Some (ce_data (entry_at (bs_cache s) j))"
    if "slot (bs_cache s) j a b" "\<not> ce_dirty (entry_at (bs_cache s) j)" for a b j
    using inv that unfolding cache_inv_def by blast
  show inv': "cache_inv rd ?s"
    unfolding cache_inv_def disk
  proof (intro conjI allI impI)
    fix a b j j' assume "slot (bs_cache ?s) j a b \<and> slot (bs_cache ?s) j' a b"
    then show "j = j'" using alone uniq by (auto simp: sl split: if_splits)
  next
    fix a b j assume "slot (bs_cache ?s) j a b \<and> \<not> ce_dirty (entry_at (bs_cache ?s) j)"
    then show "on_disk rd s a b = Some (ce_data (entry_at (bs_cache ?s) j))"
      using coh clean by (auto simp: sl en split: if_splits)
  next
    fix a b dev assume "get_device (bs_devs ?s) a = Some dev \<and> get_device (bs_devs ?s) b = Some dev"
    then show "a = b" using inv unfolding cache_inv_def by simp
  qed
  show "sector rd ?s i' lba' = (if (i', lba') = (i, lba) then Some (ce_data e) else sector rd s i' lba')"
  proof (cases "(i', lba') = (i, lba)")
    case True
    have "slot (bs_cache ?s) v i lba" by (simp add: sl)
    from sector_slot [OF inv' this] show ?thesis using True by (simp add: en)
  next
    case False
    show ?thesis
    proof (cases "\<exists>j. j \<noteq> v \<and> slot (bs_cache s) j i' lba'")
      case True
      then obtain j where j: "j \<noteq> v" "slot (bs_cache s) j i' lba'" by blast
      then have "slot (bs_cache ?s) j i' lba'" by (simp add: sl)
      then show ?thesis using sector_slot [OF inv'] sector_slot [OF inv j(2)] j(1) False by (auto simp: en)
    next
      case none: False
      then have "\<forall>j. \<not> slot (bs_cache ?s) j i' lba'" using False by (auto simp: sl)
      then have "sector rd ?s i' lba' = on_disk rd s i' lba'" using sector_miss [of ?s] disk by simp
      moreover have "sector rd s i' lba' = on_disk rd s i' lba'"
      proof (cases "slot (bs_cache s) v i' lba'")
        case True
        then have "\<not> slot (bs_cache s) v i lba" using False by (auto simp: slot_def)
        then have "\<not> ce_dirty (entry_at (bs_cache s) v)" using old True by (auto simp: slot_def)
        then show ?thesis using coh [OF True] sector_slot [OF inv True] by simp
      next
        case False
        then have "\<forall>j. \<not> slot (bs_cache s) j i' lba'" using none by metis
        then show ?thesis by (rule sector_miss)
      qed
      ultimately show ?thesis using False by auto
    qed
  qed
qed

lemma touch_entry:
  assumes inv: "cache_inv rd s" and sl: "slot (bs_cache s) v i lba"
    and e: "ce_valid e" "ce_device_idx e = i" "ce_lba e = lba"
    and clean: "\<not> ce_dirty e \<Longrightarrow> on_disk rd s i lba = Some (ce_data e)"
  defines "s' \<equiv> s\<lparr>bs_cache := put_entry (snd (next_counter (bs_cache s))) v e\<rparr>"
  shows "cache_inv rd s'" and "sector rd s' i' lba' = (if (i', lba') = (i, lba) then Some (ce_data e) else sector rd s i' lba')"
proof -
  have v: "v < length (bc_entries (bs_cache s))" using sl by (simp add: slot_def)
  have alone: "\<not> slot (bs_cache s) j i lba" if "j \<noteq> v" for j using inv sl that unfolding cache_inv_def by blast
  have c: "bc_entries (put_entry (snd (next_counter (bs_cache s))) v e) = bc_entries (put_entry (bs_cache s) v e)"
    by (simp add: put_entry_def)
  note rep = replace_entry [OF inv v e alone disjI1 [OF sl] clean c]
  show "cache_inv rd s'" unfolding s'_def by (rule rep(1))
  show "sector rd s' i' lba' = (if (i', lba') = (i, lba) then Some (ce_data e) else sector rd s i' lba')"
    unfolding s'_def by (rule rep(2))
qed

lemma fill_entry:
  assumes inv: "cache_inv rd s" and miss: "\<forall>j. \<not> slot (bs_cache s) j i lba"
    and victim: "find_lru_victim (bs_cache s) = Some v"
    and e: "ce_valid e" "ce_device_idx e = i" "ce_lba e = lba"
    and clean: "\<not> ce_dirty e \<Longrightarrow> on_disk rd s i lba = Some (ce_data e)"
  defines "s' \<equiv> s\<lparr>bs_cache := put_entry (snd (next_counter (bs_cache s))) v e\<rparr>"
  shows "cache_inv rd s'" and "sector rd s' i' lba' = (if (i', lba') = (i, lba) then Some (ce_data e) else sector rd s i' lba')"
proof -
  have alone: "\<not> slot (bs_cache s) j i lba" if "j \<noteq> v" for j using miss by blast
  have c: "bc_entries (put_entry (snd (next_counter (bs_cache s))) v e) = bc_entries (put_entry (bs_cache s) v e)"
    by (simp add: put_entry_def)
  note rep = replace_entry [OF inv victim_clean(1) [OF victim] e alone disjI2 [OF victim_clean(2) [OF victim]] clean c]
  show "cache_inv rd s'" unfolding s'_def by (rule rep(1))
  show "sector rd s' i' lba' = (if (i', lba') = (i, lba) then Some (ce_data e) else sector rd s i' lba')"
    unfolding s'_def by (rule rep(2))
qed

subsection \<open>Reading and writing\<close>

lemma read_cached_spec:
  assumes inv: "cache_inv rd s" and r: "read_cached rd wr s i lba = (r, s')"
  shows "cache_inv rd s' \<and> (\<forall>i' lba'. sector rd s' i' lba' = sector rd s i' lba') \<and>
    r = (if cache_find (bs_cache s) i lba = None \<and> find_lru_victim (bs_cache s) = None then None
         else sector rd s i lba)"
proof (cases "cache_find (bs_cache s) i lba")
  case (Some j)
  note sl = cache_find_Some [OF Some]
  let ?e = "(entry_at (bs_cache s) j)\<lparr>ce_access_counter := bc_counter (bs_cache s) + 1\<rparr>"
  let ?c = "put_entry (snd (next_counter (bs_cache s))) j ?e"
  have s': "s' = s\<lparr>bs_cache := ?c\<rparr>" "r = Some (ce_data (entry_at (bs_cache s) j))"
    using r Some by (simp_all add: read_cached_def next_counter_def Let_def entry_at_def)
  have e: "ce_valid ?e" "ce_device_idx ?e = i" "ce_lba ?e = lba" using sl by (simp_all add: slot_def)
  have clean: "on_disk rd s i lba = Some (ce_data ?e)" if "\<not> ce_dirty ?e"
    using inv sl that unfolding cache_inv_def by simp
  note rep = touch_entry [OF inv sl e clean]
  show ?thesis using s' Some sector_slot [OF inv sl] rep by auto
next
  case None
  then have miss: "\<forall>j. \<not> slot (bs_cache s) j i lba" by (simp add: cache_find_None)
  note view = sector_miss [OF miss, of rd]
  consider "on_disk rd s i lba = None" | "find_lru_victim (bs_cache s) = None"
    | buf v where "on_disk rd s i lba = Some buf" "find_lru_victim (bs_cache s) = Some v"
    by (cases "on_disk rd s i lba"; cases "find_lru_victim (bs_cache s)") auto
  then show ?thesis
  proof cases
    case 1
    then show ?thesis using r inv None view by (auto simp: read_cached_def on_disk_def split: option.splits)
  next
    case 2
    then show ?thesis using r inv None by (auto simp: read_cached_def split: option.splits)
  next
    case 3
    let ?e = "\<lparr>ce_device_idx = i, ce_lba = lba, ce_data = buf, ce_dirty = False, ce_valid = True,
      ce_access_counter = bc_counter (bs_cache s) + 1\<rparr>"
    let ?c = "put_entry (snd (next_counter (bs_cache s))) v ?e"
    have s': "s' = s\<lparr>bs_cache := ?c\<rparr>" "r = Some buf"
      using r None 3 flush_victim_dead [OF 3(2), of wr "bs_devs s" "bs_disk s"]
      by (auto simp: read_cached_def on_disk_def next_counter_def Let_def entry_at_def split: option.splits)
    have clean: "on_disk rd s i lba = Some (ce_data ?e)" if "\<not> ce_dirty ?e" using 3(1) by simp
    note rep = fill_entry [OF inv miss 3(2) _ _ _ clean]
    show ?thesis using s' 3 view rep by auto
  qed
qed

lemma write_cached_spec:
  assumes inv: "cache_inv rd s" and w: "write_cached wr s i lba data = (ok, s')"
  shows "if ok then cache_inv rd s' \<and> (\<forall>i' lba'. sector rd s' i' lba' = (if (i', lba') = (i, lba) then Some data else sector rd s i' lba'))
    else s' = s \<and> find_lru_victim (bs_cache s) = None"
proof (cases "cache_find (bs_cache s) i lba")
  case (Some j)
  note sl = cache_find_Some [OF Some]
  let ?e = "(entry_at (bs_cache s) j)\<lparr>ce_data := data, ce_dirty := True, ce_access_counter := bc_counter (bs_cache s) + 1\<rparr>"
  let ?c = "put_entry (snd (next_counter (bs_cache s))) j ?e"
  have s': "s' = s\<lparr>bs_cache := ?c\<rparr>" "ok"
    using w Some by (simp_all add: write_cached_def next_counter_def Let_def entry_at_def)
  have e: "ce_valid ?e" "ce_device_idx ?e = i" "ce_lba ?e = lba" using sl by (simp_all add: slot_def)
  have clean: "on_disk rd s i lba = Some (ce_data ?e)" if "\<not> ce_dirty ?e" using that by simp
  show ?thesis using s' touch_entry [OF inv sl e clean] by simp
next
  case None
  then have miss: "\<forall>j. \<not> slot (bs_cache s) j i lba" by (simp add: cache_find_None)
  show ?thesis
  proof (cases "find_lru_victim (bs_cache s)")
    case full: None
    then show ?thesis using w None by (auto simp: write_cached_def)
  next
    case (Some v)
    let ?e = "\<lparr>ce_device_idx = i, ce_lba = lba, ce_data = data, ce_dirty = True, ce_valid = True,
      ce_access_counter = bc_counter (bs_cache s) + 1\<rparr>"
    let ?c = "put_entry (snd (next_counter (bs_cache s))) v ?e"
    have s': "s' = s\<lparr>bs_cache := ?c\<rparr>" "ok"
      using w None Some flush_victim_dead [OF Some, of wr "bs_devs s" "bs_disk s"]
      by (auto simp: write_cached_def next_counter_def Let_def entry_at_def)
    have clean: "on_disk rd s i lba = Some (ce_data ?e)" if "\<not> ce_dirty ?e" using that by simp
    show ?thesis using s' fill_entry [OF inv miss Some _ _ _ clean] by simp
  qed
qed

subsection \<open>Flushing\<close>

text \<open>The device sector an entry caches, and the device read there.\<close>

definition loc :: "registry \<Rightarrow> cache_entry \<Rightarrow> (nat \<times> u64) option" where
  "loc devs e = (case get_device devs (ce_device_idx e) of None \<Rightarrow> None | Some dev \<Rightarrow> Some (dev, ce_lba e))"

definition rd_at :: "'d sector_read \<Rightarrow> 'd \<Rightarrow> nat \<times> u64 \<Rightarrow> u8 list option" where
  "rd_at rd disk p = rd disk (fst p) (snd p)"

text \<open>What \<open>flush_all\<close> makes of an entry: only the dirty flag may change, from true to false, and then the
  device holds the entry's data.\<close>

definition flushed ::
  "'d sector_read \<Rightarrow> registry \<Rightarrow> 'd \<Rightarrow> 'd \<Rightarrow> cache_entry \<Rightarrow> cache_entry \<Rightarrow> bool" where
  "flushed rd devs disk disk' e e' \<longleftrightarrow>
     e' = e\<lparr>ce_dirty := ce_dirty e'\<rparr> \<and> (ce_dirty e' \<longrightarrow> ce_dirty e) \<and>
     (ce_valid e \<and> ce_dirty e \<and> \<not> ce_dirty e' \<longrightarrow> loc devs e \<noteq> None) \<and>
     (\<forall>p. ce_valid e \<and> loc devs e = Some p \<longrightarrow>
        rd_at rd disk' p = (if ce_dirty e \<and> \<not> ce_dirty e' then Some (ce_data e) else rd_at rd disk p))"

definition apart :: "registry \<Rightarrow> cache_entry \<Rightarrow> cache_entry \<Rightarrow> bool" where
  "apart devs e f \<longleftrightarrow> (ce_valid e \<and> ce_valid f \<and> loc devs e \<noteq> None \<longrightarrow> loc devs e \<noteq> loc devs f)"

text \<open>One round of the loop.\<close>

definition flush_entry ::
  "'d sector_write \<Rightarrow> registry \<Rightarrow> cache_entry \<Rightarrow> 'd \<Rightarrow> nat \<times> cache_entry \<times> 'd" where
  "flush_entry wr devs e disk =
     (if ce_valid e \<and> ce_dirty e then
        (case get_device devs (ce_device_idx e) of
           None \<Rightarrow> (1, e, disk)
         | Some dev \<Rightarrow>
             (case wr disk dev (ce_lba e) (ce_data e) of
                (True, disk') \<Rightarrow> (0, e\<lparr>ce_dirty := False\<rparr>, disk')
              | (False, disk') \<Rightarrow> (1, e, disk')))
      else (0, e, disk))"

lemma flush_loop_Cons: "flush_loop wr devs (e # es) disk =
  (let (fail, e', disk') = flush_entry wr devs e disk; (n, es', disk'') = flush_loop wr devs es disk'
   in (fail + n, e' # es', disk''))"
  by (simp add: flush_entry_def)

lemma flush_entry_cases:
  assumes r: "flush_entry wr devs e disk = (n, e', disk')"
  obtains (idle) "\<not> (ce_valid e \<and> ce_dirty e)" "n = 0" "e' = e" "disk' = disk"
    | (lost) "ce_valid e" "ce_dirty e" "loc devs e = None" "n = 1" "e' = e" "disk' = disk"
    | (wrote) dev where "ce_valid e" "ce_dirty e" "loc devs e = Some (dev, ce_lba e)"
        "wr disk dev (ce_lba e) (ce_data e) = (True, disk')" "n = 0" "e' = e\<lparr>ce_dirty := False\<rparr>"
    | (bad) dev where "ce_valid e" "ce_dirty e" "loc devs e = Some (dev, ce_lba e)"
        "wr disk dev (ce_lba e) (ce_data e) = (False, disk')" "n = 1" "e' = e"
proof (cases "ce_valid e \<and> ce_dirty e")
  case False
  then have "(n, e', disk') = (0, e, disk)" using r by (simp only: flush_entry_def if_False)
  then show ?thesis using False by (intro idle) simp_all
next
  case vd: True
  show ?thesis
  proof (cases "get_device devs (ce_device_idx e)")
    case None
    then show ?thesis using r vd by (intro lost) (simp_all add: flush_entry_def loc_def)
  next
    case (Some dev)
    obtain b d where w: "wr disk dev (ce_lba e) (ce_data e) = (b, d)" by fastforce
    show ?thesis
    proof (cases b)
      case True
      then show ?thesis using r vd Some w by (intro wrote [of dev]) (simp_all add: flush_entry_def loc_def)
    next
      case False
      then show ?thesis using r vd Some w by (intro bad [of dev]) (simp_all add: flush_entry_def loc_def)
    qed
  qed
qed

lemma device_write_ok: "device_laws rd wr \<Longrightarrow> wr d dev lba x = (True, d') \<Longrightarrow>
  rd_at rd d' p = (if p = (dev, lba) then Some x else rd_at rd d p)"
  unfolding device_laws_def rd_at_def by (cases p) auto

lemma device_write_failed: "device_laws rd wr \<Longrightarrow> wr d dev lba x = (False, d') \<Longrightarrow> rd_at rd d' p = rd_at rd d p"
  unfolding device_laws_def rd_at_def by blast

lemma flush_entry_spec:
  assumes laws: "device_laws rd wr" and r: "flush_entry wr devs e disk = (n, e', disk')"
  shows "flushed rd devs disk disk' e e'"
    and "n = (if ce_valid e' \<and> ce_dirty e' then 1 else 0)"
    and "ce_valid e \<longrightarrow> loc devs e \<noteq> Some p \<Longrightarrow> rd_at rd disk' p = rd_at rd disk p"
proof -
  note w = device_write_ok [OF laws] and f = device_write_failed [OF laws]
  show "flushed rd devs disk disk' e e'"
    using r by (cases rule: flush_entry_cases) (simp_all add: flushed_def w f)
  show "n = (if ce_valid e' \<and> ce_dirty e' then 1 else 0)" using r by (cases rule: flush_entry_cases) simp_all
  show "rd_at rd disk' p = rd_at rd disk p" if "ce_valid e \<longrightarrow> loc devs e \<noteq> Some p"
    using r by (cases rule: flush_entry_cases) (use that in \<open>simp_all add: w f\<close>)
qed

lemma flushed_cong:
  assumes "flushed rd devs d d' e e'"
    and "\<And>p. ce_valid e \<Longrightarrow> loc devs e = Some p \<Longrightarrow> rd_at rd d p = rd_at rd c p \<and> rd_at rd d' p = rd_at rd c' p"
  shows "flushed rd devs c c' e e'"
proof -
  have "rd_at rd c' p = (if ce_dirty e \<and> \<not> ce_dirty e' then Some (ce_data e) else rd_at rd c p)"
    if "ce_valid e" "loc devs e = Some p" for p
    using assms(1) assms(2) [OF that] that unfolding flushed_def by simp
  then show ?thesis using assms(1) unfolding flushed_def by blast
qed

lemma flush_loop_spec:
  assumes laws: "device_laws rd wr"
  shows "sorted_wrt (apart devs) es \<Longrightarrow> flush_loop wr devs es disk = (n, es', disk') \<Longrightarrow>
    list_all2 (flushed rd devs disk disk') es es' \<and> n = length (filter (\<lambda>e. ce_valid e \<and> ce_dirty e) es') \<and>
    (\<forall>p. (\<forall>e\<in>set es. ce_valid e \<longrightarrow> loc devs e \<noteq> Some p) \<longrightarrow> rd_at rd disk' p = rd_at rd disk p)"
proof (induction es arbitrary: disk n es' disk')
  case (Cons e es)
  obtain k e' d where e: "flush_entry wr devs e disk = (k, e', d)" by (metis prod_cases3)
  obtain m fs d' where l: "flush_loop wr devs es d = (m, fs, d')" by (metis prod_cases3)
  have eq: "n = k + m" "es' = e' # fs" "disk' = d'"
    using Cons.prems(2) e l unfolding flush_loop_Cons by simp_all
  note fe = flush_entry_spec [OF laws e]
  have srt: "sorted_wrt (apart devs) es" and ap: "\<forall>f\<in>set es. apart devs e f" using Cons.prems(1) by simp_all
  note ih = Cons.IH [OF srt l]
  have hd: "flushed rd devs disk d' e e'"
  proof -
    have "rd_at rd d' p = rd_at rd d p" if "ce_valid e" "loc devs e = Some p" for p
      using ih ap that unfolding apart_def by (metis option.distinct(1))
    then show ?thesis by (intro flushed_cong [OF fe(1)]) simp
  qed
  have tl: "list_all2 (flushed rd devs disk d') es fs"
  proof (rule list_all2_all_nthI)
    show "length es = length fs" using ih list_all2_lengthD by blast
    fix j assume j: "j < length es"
    then have fj: "flushed rd devs d d' (es ! j) (fs ! j)" using ih list_all2_nthD by blast
    have "rd_at rd d p = rd_at rd disk p" if "ce_valid (es ! j)" "loc devs (es ! j) = Some p" for p
    proof (rule fe(3), rule impI)
      assume "ce_valid e"
      then show "loc devs e \<noteq> Some p" using ap j that unfolding apart_def by (metis nth_mem option.distinct(1))
    qed
    then show "flushed rd devs disk d' (es ! j) (fs ! j)" by (intro flushed_cong [OF fj]) simp
  qed
  have "rd_at rd d' p = rd_at rd disk p" if "\<forall>f\<in>set (e # es). ce_valid f \<longrightarrow> loc devs f \<noteq> Some p" for p
    using ih fe(3) [of p] that by simp
  then show ?case using hd tl fe(2) ih by (simp add: eq)
qed simp

lemma cache_inv_apart:
  assumes inv: "cache_inv rd s"
  shows "sorted_wrt (apart (bs_devs s)) (bc_entries (bs_cache s))"
  unfolding sorted_wrt_iff_nth_less apart_def
proof (intro allI impI notI)
  let ?es = "bc_entries (bs_cache s)" and ?d = "bs_devs s"
  fix j k
  assume jk: "j < k" "k < length ?es" and v: "ce_valid (?es ! j) \<and> ce_valid (?es ! k) \<and> loc ?d (?es ! j) \<noteq> None"
    and eq: "loc ?d (?es ! j) = loc ?d (?es ! k)"
  then have "ce_lba (?es ! j) = ce_lba (?es ! k)"
    "\<exists>dev. get_device ?d (ce_device_idx (?es ! j)) = Some dev \<and> get_device ?d (ce_device_idx (?es ! k)) = Some dev"
    by (auto simp: loc_def split: option.splits)
  moreover from this(2) have "ce_device_idx (?es ! j) = ce_device_idx (?es ! k)"
    using inv unfolding cache_inv_def by blast
  ultimately have "slot (bs_cache s) j (ce_device_idx (?es ! k)) (ce_lba (?es ! k))"
    "slot (bs_cache s) k (ce_device_idx (?es ! k)) (ce_lba (?es ! k))"
    using jk v by (simp_all add: slot_def entry_at_def)
  then have "j = k" using inv unfolding cache_inv_def by blast
  with jk show False by simp
qed

lemma on_disk_loc: "slot (bs_cache s) j i lba \<Longrightarrow>
  on_disk rd s i lba = (case loc (bs_devs s) (entry_at (bs_cache s) j) of None \<Rightarrow> None | Some p \<Rightarrow> rd_at rd (bs_disk s) p)"
  by (auto simp: on_disk_def loc_def slot_def rd_at_def split: option.split)

lemma flushed_keys:
  assumes "flushed rd devs d d' e e'"
  shows "ce_valid e' = ce_valid e" "ce_device_idx e' = ce_device_idx e" "ce_lba e' = ce_lba e" "ce_data e' = ce_data e"
    "loc devs e' = loc devs e"
proof -
  have "e' = e\<lparr>ce_dirty := ce_dirty e'\<rparr>" using assms by (simp add: flushed_def)
  then obtain b where "e' = e\<lparr>ce_dirty := b\<rparr>" by blast
  then show "ce_valid e' = ce_valid e" "ce_device_idx e' = ce_device_idx e" "ce_lba e' = ce_lba e" "ce_data e' = ce_data e"
    "loc devs e' = loc devs e" by (simp_all add: loc_def split: option.split)
qed

text \<open>What \<open>flush_all\<close> does to the slots and to the sectors no slot holds.\<close>

lemma flush_all_entries:
  assumes laws: "device_laws rd wr" and inv: "cache_inv rd s" and r: "flush_all wr s = (n, s')"
  shows "bs_devs s' = bs_devs s" and "slot (bs_cache s') j i lba \<longleftrightarrow> slot (bs_cache s) j i lba"
    and "slot (bs_cache s) j i lba \<Longrightarrow>
      flushed rd (bs_devs s) (bs_disk s) (bs_disk s') (entry_at (bs_cache s) j) (entry_at (bs_cache s') j)"
    and "\<forall>j. \<not> slot (bs_cache s) j i lba \<Longrightarrow> on_disk rd s' i lba = on_disk rd s i lba"
    and "n = length (filter (\<lambda>e. ce_valid e \<and> ce_dirty e) (bc_entries (bs_cache s')))"
proof -
  let ?es = "bc_entries (bs_cache s)" and ?d = "bs_devs s"
  obtain es' disk' where l: "flush_loop wr ?d ?es (bs_disk s) = (n, es', disk')"
    and s': "s' = s\<lparr>bs_cache := (bs_cache s)\<lparr>bc_entries := es'\<rparr>, bs_disk := disk'\<rparr>"
    using r by (auto simp: flush_all_def split: prod.splits)
  note fl = flush_loop_spec [OF laws cache_inv_apart [OF inv] l]
  then have la: "list_all2 (flushed rd ?d (bs_disk s) disk') ?es es'" and len: "length es' = length ?es"
    by (auto dest: list_all2_lengthD)
  have fj: "flushed rd ?d (bs_disk s) disk' (entry_at (bs_cache s) j) (entry_at (bs_cache s') j)"
    if "j < length ?es" for j
    using list_all2_nthD [OF la that] by (simp add: entry_at_def s')
  show "bs_devs s' = bs_devs s" by (simp add: s')
  show "slot (bs_cache s') j i lba \<longleftrightarrow> slot (bs_cache s) j i lba"
    using flushed_keys [OF fj, of j] len by (auto simp: slot_def s')
  show "flushed rd ?d (bs_disk s) (bs_disk s') (entry_at (bs_cache s) j) (entry_at (bs_cache s') j)"
    if "slot (bs_cache s) j i lba"
    using fj [of j] that by (simp add: slot_def s')
  show "n = length (filter (\<lambda>e. ce_valid e \<and> ce_dirty e) (bc_entries (bs_cache s')))"
    using fl by (simp add: s')
  assume none: "\<forall>j. \<not> slot (bs_cache s) j i lba"
  have "rd_at rd disk' (dev, lba) = rd_at rd (bs_disk s) (dev, lba)" if g: "get_device ?d i = Some dev" for dev
  proof (rule fl [THEN conjunct2, THEN conjunct2, rule_format], rule notI)
    fix e assume e: "e \<in> set ?es" "ce_valid e" "loc ?d e = Some (dev, lba)"
    then have "ce_lba e = lba" "get_device ?d (ce_device_idx e) = Some dev"
      by (auto simp: loc_def split: option.splits)
    moreover from this(2) have "ce_device_idx e = i" using g inv unfolding cache_inv_def by blast
    moreover obtain j where "j < length ?es" "?es ! j = e" using e(1) by (auto simp: in_set_conv_nth)
    ultimately show False using none e(2) by (auto simp: slot_def entry_at_def)
  qed
  then show "on_disk rd s' i lba = on_disk rd s i lba"
    by (simp add: on_disk_def s' rd_at_def split: option.split)
qed

lemma flush_all_spec:
  assumes laws: "device_laws rd wr" and inv: "cache_inv rd s" and r: "flush_all wr s = (n, s')"
  shows "cache_inv rd s'" and "sector rd s' i lba = sector rd s i lba"
proof -
  note fa = flush_all_entries [OF laws inv r]
  have clean: "on_disk rd s' a b = Some (ce_data (entry_at (bs_cache s') j))"
    if sl: "slot (bs_cache s) j a b" and cl: "\<not> ce_dirty (entry_at (bs_cache s') j)" for a b j
  proof -
    let ?e = "entry_at (bs_cache s) j"
    note fj = fa(3) [OF sl] and keys = flushed_keys [OF fa(3) [OF sl]]
    have v: "ce_valid ?e" using sl by (simp add: slot_def)
    have old: "on_disk rd s a b = Some (ce_data ?e)" if "\<not> ce_dirty ?e"
      using inv sl that unfolding cache_inv_def by blast
    obtain p where p: "loc (bs_devs s) ?e = Some p"
      using fj v cl old on_disk_loc [OF sl, of rd] unfolding flushed_def
      by (cases "loc (bs_devs s) ?e"; cases "ce_dirty ?e") auto
    then have "rd_at rd (bs_disk s') p = Some (ce_data ?e)"
      using fj v cl old on_disk_loc [OF sl, of rd] unfolding flushed_def by (cases "ce_dirty ?e") auto
    then show ?thesis using on_disk_loc [of s' j a b rd] fa(1,2) sl p keys by simp
  qed
  show inv': "cache_inv rd s'"
    using inv clean unfolding cache_inv_def fa(1) fa(2) by simp
  show "sector rd s' i lba = sector rd s i lba"
  proof (cases "\<exists>j. slot (bs_cache s) j i lba")
    case True
    then obtain j where j: "slot (bs_cache s) j i lba" by blast
    then show ?thesis
      using sector_slot [OF inv j] sector_slot [OF inv', of j i lba] fa(2) flushed_keys(4) [OF fa(3) [OF j]] by simp
  next
    case False
    then show ?thesis using sector_miss [of s] sector_miss [of s'] fa(2,4) by simp
  qed
qed

subsection \<open>Least recently used\<close>

text \<open>Over valid slots only, the scan ends at a clean slot with the smallest counter.\<close>

lemma lru_scan_min:
  assumes "\<forall>e\<in>set es. ce_valid e"
  shows "if \<exists>e\<in>set es. \<not> ce_dirty e \<and> ce_access_counter e < bc
    then \<exists>k<length es. lru_scan es i best bc = Some (i + k) \<and> \<not> ce_dirty (es ! k) \<and>
      ce_access_counter (es ! k) < bc \<and> (\<forall>e\<in>set es. ce_dirty e \<or> ce_access_counter (es ! k) \<le> ce_access_counter e)
    else lru_scan es i best bc = best"
  using assms
proof (induction es arbitrary: i best bc)
  case (Cons e es)
  have v: "ce_valid e" and vs: "\<forall>e\<in>set es. ce_valid e" using Cons.prems by simp_all
  show ?case
  proof (cases "\<not> ce_dirty e \<and> ce_access_counter e < bc")
    case upd: True
    note ih = Cons.IH [OF vs, of "ce_access_counter e" "i + 1" "Some i"]
    show ?thesis
    proof (cases "\<exists>f\<in>set es. \<not> ce_dirty f \<and> ce_access_counter f < ce_access_counter e")
      case True
      with ih obtain k where "k < length es" "lru_scan es (i + 1) (Some i) (ce_access_counter e) = Some (i + 1 + k)"
        "\<not> ce_dirty (es ! k)" "ce_access_counter (es ! k) < ce_access_counter e"
        "\<forall>f\<in>set es. ce_dirty f \<or> ce_access_counter (es ! k) \<le> ce_access_counter f"
        by (auto simp only: if_True)
      then show ?thesis using v upd by (auto intro!: exI [of _ "k + 1"])
    next
      case False
      with ih have "lru_scan es (i + 1) (Some i) (ce_access_counter e) = Some i" by (simp only: if_False)
      then show ?thesis using v upd False by (auto intro!: exI [of _ 0])
    qed
  next
    case skip: False
    note ih = Cons.IH [OF vs, of bc "i + 1" best]
    show ?thesis
    proof (cases "\<exists>f\<in>set es. \<not> ce_dirty f \<and> ce_access_counter f < bc")
      case True
      with ih obtain k where "k < length es" "lru_scan es (i + 1) best bc = Some (i + 1 + k)"
        "\<not> ce_dirty (es ! k)" "ce_access_counter (es ! k) < bc"
        "\<forall>f\<in>set es. ce_dirty f \<or> ce_access_counter (es ! k) \<le> ce_access_counter f"
        by (auto simp only: if_True)
      then show ?thesis using v skip True by (auto intro!: exI [of _ "k + 1"])
    next
      case False
      with ih have "lru_scan es (i + 1) best bc = best" by (simp only: if_False)
      then show ?thesis using v skip False by auto
    qed
  qed
qed simp

lemma find_lru_victim_min:
  assumes "\<forall>e\<in>set (bc_entries c). ce_valid e" and "find_lru_victim c = Some v"
  shows "\<forall>e\<in>set (bc_entries c). ce_dirty e \<or> ce_access_counter (entry_at c v) \<le> ce_access_counter e"
  using lru_scan_min [OF assms(1), of "- 1" 0 None] assms(2)
  by (auto simp: find_lru_victim_def entry_at_def split: if_splits)

lemma find_lru_victim_all_dirty:
  "\<forall>e\<in>set (bc_entries c). ce_valid e \<and> ce_dirty e \<Longrightarrow> find_lru_victim c = None"
  using lru_scan_min [of "bc_entries c" "- 1" 0 None] by (auto simp: find_lru_victim_def split: if_splits)

subsection \<open>Runs\<close>

datatype cache_op = CRead nat u64 | CWrite nat u64 "u8 list" | CFlush

definition cache_step :: "'d sector_read \<Rightarrow> 'd sector_write \<Rightarrow> cache_op \<Rightarrow> 'd block_sys \<Rightarrow> 'd block_sys" where
  "cache_step rd wr opn s =
     (case opn of CRead i lba \<Rightarrow> snd (read_cached rd wr s i lba)
      | CWrite i lba data \<Rightarrow> snd (write_cached wr s i lba data)
      | CFlush \<Rightarrow> snd (flush_all wr s))"

text \<open>The abstract store: a map from sectors to contents, changed by the writes the cache accepts.\<close>

definition store_step ::
  "'d sector_write \<Rightarrow> 'd block_sys \<Rightarrow> cache_op \<Rightarrow> (nat \<times> u64 \<Rightarrow> u8 list option) \<Rightarrow> (nat \<times> u64 \<Rightarrow> u8 list option)" where
  "store_step wr s opn m =
     (case opn of CWrite i lba data \<Rightarrow> if fst (write_cached wr s i lba data) then m((i, lba) \<mapsto> data) else m
      | _ \<Rightarrow> m)"

definition sector_map :: "'d sector_read \<Rightarrow> 'd block_sys \<Rightarrow> nat \<times> u64 \<Rightarrow> u8 list option" where
  "sector_map rd s = (\<lambda>(i, lba). sector rd s i lba)"

fun store_run ::
  "'d sector_read \<Rightarrow> 'd sector_write \<Rightarrow> cache_op list \<Rightarrow> 'd block_sys \<Rightarrow> (nat \<times> u64 \<Rightarrow> u8 list option)
   \<Rightarrow> 'd block_sys \<times> (nat \<times> u64 \<Rightarrow> u8 list option)" where
  "store_run rd wr [] s m = (s, m)"
| "store_run rd wr (opn # ops) s m = store_run rd wr ops (cache_step rd wr opn s) (store_step wr s opn m)"

lemma cache_step_sim:
  assumes laws: "device_laws rd wr" and inv: "cache_inv rd s"
  shows "cache_inv rd (cache_step rd wr opn s) \<and>
    sector_map rd (cache_step rd wr opn s) = store_step wr s opn (sector_map rd s)"
proof (cases opn)
  case (CRead i lba)
  obtain r s' where c: "read_cached rd wr s i lba = (r, s')" by fastforce
  then show ?thesis using CRead read_cached_spec [OF inv c]
    by (simp add: cache_step_def store_step_def sector_map_def fun_eq_iff)
next
  case (CWrite i lba data)
  obtain ok s' where w: "write_cached wr s i lba data = (ok, s')" by fastforce
  then show ?thesis using CWrite inv write_cached_spec [OF inv w]
    by (auto simp: cache_step_def store_step_def sector_map_def fun_eq_iff split: if_splits)
next
  case CFlush
  obtain n s' where f: "flush_all wr s = (n, s')" by fastforce
  then show ?thesis using CFlush flush_all_spec [OF laws inv f]
    by (simp add: cache_step_def store_step_def sector_map_def fun_eq_iff)
qed

lemma store_run_sim:
  assumes laws: "device_laws rd wr"
  shows "cache_inv rd s \<Longrightarrow> store_run rd wr ops s (sector_map rd s) = (s', m) \<Longrightarrow> cache_inv rd s' \<and> m = sector_map rd s'"
proof (induction ops arbitrary: s)
  case (Cons opn ops)
  then show ?case using cache_step_sim [OF laws Cons.prems(1), of opn]
    by (intro Cons.IH [of "cache_step rd wr opn s"]) simp_all
qed simp

text \<open>The map of registered devices before any request: an empty cache over a table with distinct devices.\<close>

lemma cache_inv_new:
  assumes "\<forall>i j dev. get_device devs i = Some dev \<and> get_device devs j = Some dev \<longrightarrow> i = j"
  shows "cache_inv rd \<lparr>bs_cache = block_cache_new, bs_devs = devs, bs_disk = d\<rparr>"
  using assms by (auto simp: cache_inv_def slot_def entry_at_def block_cache_new_def cache_entry_empty_def)

text \<open>A concrete instance of the parameters: two memory disks, a map from device and sector to contents.\<close>

definition ram_rd :: "(nat \<times> u64 \<Rightarrow> u8 list) sector_read" where
  "ram_rd d dev lba = Some (d (dev, lba))"

definition ram_wr :: "(nat \<times> u64 \<Rightarrow> u8 list) sector_write" where
  "ram_wr d dev lba x = (True, d((dev, lba) := x))"

definition ram_sys :: "(nat \<times> u64 \<Rightarrow> u8 list) block_sys" where
  "ram_sys = \<lparr>bs_cache = block_cache_new, bs_devs = register_device (register_device registry_new 0) 1,
     bs_disk = (\<lambda>_. [0])\<rparr>"

definition ram_ops :: "cache_op list" where
  "ram_ops = [CWrite 0 5 [1], CRead 1 7, CFlush, CWrite 1 7 [2]]"

lemma ram_laws: "device_laws ram_rd ram_wr"
  by (simp add: device_laws_def ram_rd_def ram_wr_def)

lemma ram_inv: "cache_inv ram_rd ram_sys"
proof -
  have d: "register_device (register_device registry_new 0) 1 = [Some 0, Some 1, None, None]" by code_simp
  have "\<forall>i j dev. get_device [Some 0, Some 1, None, None] i = Some dev \<and> get_device [Some 0, Some 1, None, None] j = Some dev \<longrightarrow> i = j"
    by (auto simp: get_device_def MAX_DEVICES_def nth_Cons' split: if_splits)
  then show ?thesis unfolding ram_sys_def d by (rule cache_inv_new)
qed

subsection \<open>Properties\<close>



text \<open>Durability. \<open>flush_all\<close> returns the number of entries still dirty, changes no sector as seen through the
  cache, and when it returns 0 every sector on the devices equals what the cache shows.\<close>

theorem flush_all_durable:
  assumes "device_laws rd wr" and "cache_inv rd s" and "flush_all wr s = (n, s')"
  shows "sector_map rd s' = sector_map rd s
    \<and> n = length (filter (\<lambda>e. ce_valid e \<and> ce_dirty e) (bc_entries (bs_cache s')))
    \<and> (n = 0 \<longrightarrow> (\<forall>i lba. on_disk rd s' i lba = sector rd s' i lba))"
proof -
  note spec = flush_all_spec [OF assms] and n = flush_all_entries(5) [OF assms]
  have "on_disk rd s' i lba = sector rd s' i lba" if "n = 0" for i lba
  proof (cases "cache_find (bs_cache s') i lba")
    case (Some j)
    note sl = cache_find_Some [OF Some]
    then have "\<not> ce_dirty (entry_at (bs_cache s') j)"
      using n that by (auto simp: slot_def entry_at_def filter_empty_conv)
    then show ?thesis using spec(1) sl sector_slot [OF spec(1) sl] unfolding cache_inv_def by auto
  next
    case None
    then show ?thesis by (simp add: sector_def)
  qed
  then show ?thesis using spec(2) n by (simp add: sector_map_def fun_eq_iff)
qed

theorem flush_all_durable_witness:
  "sector_map ram_rd (snd (flush_all ram_wr ram_sys)) = sector_map ram_rd ram_sys"
  using flush_all_durable [OF ram_laws ram_inv, of "fst (flush_all ram_wr ram_sys)" "snd (flush_all ram_wr ram_sys)"]
  by simp

text \<open>C32: Error path. Once every slot of the cache holds a dirty sector, a read of any other sector returns \<open>None\<close>
  although the device can read it, and a write to any other sector is refused; neither changes anything.\<close>

theorem cache_full_of_dirty:
  assumes "\<forall>e\<in>set (bc_entries (bs_cache s)). ce_valid e \<and> ce_dirty e"
    and "cache_find (bs_cache s) i lba = None"
  shows "read_cached rd wr s i lba = (None, s) \<and> write_cached wr s i lba data = (False, s)"
  using assms find_lru_victim_all_dirty [OF assms(1)]
  by (simp add: read_cached_def write_cached_def split: option.split)

theorem cache_full_of_dirty_witness:
  "let s = ram_sys\<lparr>bs_cache := block_cache_new\<lparr>bc_entries := replicate CACHE_SIZE (cache_entry_empty\<lparr>ce_valid := True, ce_dirty := True\<rparr>)\<rparr>\<rparr>
   in read_cached ram_rd ram_wr s 0 5 = (None, s) \<and> write_cached ram_wr s 0 5 [1] = (False, s) \<and> on_disk ram_rd s 0 5 = Some [0]"
proof -
  let ?s = "ram_sys\<lparr>bs_cache := block_cache_new\<lparr>bc_entries := replicate CACHE_SIZE (cache_entry_empty\<lparr>ce_valid := True, ce_dirty := True\<rparr>)\<rparr>\<rparr>"
  have "\<forall>e\<in>set (bc_entries (bs_cache ?s)). ce_valid e \<and> ce_dirty e" by simp
  moreover have "cache_find (bs_cache ?s) 0 5 = None"
    by (simp add: cache_find_None slot_def entry_at_def cache_entry_empty_def)
  moreover have "on_disk ram_rd ?s 0 5 = Some [0]" by code_simp
  ultimately show ?thesis using cache_full_of_dirty [of ?s 0 5 ram_rd ram_wr "[1]"] by (simp only: Let_def)
qed

end
