(* ===== verification/Signal.thy ===== *)
theory Signal
  imports Kernel_Prelude
begin

text \<open>
  Per-task signal state, \<open>kernel/src/task/signal.rs\<close>: pending and blocked bit masks and the handler
  table. The abstraction of a mask is the set of its bits; \<open>send_signal\<close> adds to the pending
  set and \<open>next_pending\<close> takes its least deliverable element.
\<close>

subsection \<open>Constants\<close>

definition SIGHUP :: u8 where "SIGHUP = 1"
definition SIGINT :: u8 where "SIGINT = 2"
definition SIGQUIT :: u8 where "SIGQUIT = 3"
definition SIGILL :: u8 where "SIGILL = 4"
definition SIGTRAP :: u8 where "SIGTRAP = 5"
definition SIGABRT :: u8 where "SIGABRT = 6"
definition SIGBUS :: u8 where "SIGBUS = 7"
definition SIGFPE :: u8 where "SIGFPE = 8"
definition SIGKILL :: u8 where "SIGKILL = 9"
definition SIGUSR1 :: u8 where "SIGUSR1 = 10"
definition SIGSEGV :: u8 where "SIGSEGV = 11"
definition SIGUSR2 :: u8 where "SIGUSR2 = 12"
definition SIGPIPE :: u8 where "SIGPIPE = 13"
definition SIGALRM :: u8 where "SIGALRM = 14"
definition SIGTERM :: u8 where "SIGTERM = 15"
definition SIGCHLD :: u8 where "SIGCHLD = 17"
definition MAX_SIGNUM :: u8 where "MAX_SIGNUM = 31"
definition SIG_BLOCK :: u64 where "SIG_BLOCK = 0"
definition SIG_UNBLOCK :: u64 where "SIG_UNBLOCK = 1"
definition SIG_SETMASK :: u64 where "SIG_SETMASK = 2"
definition SIG_DFL :: u64 where "SIG_DFL = 0"
definition SIG_IGN :: u64 where "SIG_IGN = 1"

subsection \<open>State and operations\<close>

record signal_state =
  sg_pending :: u64
  sg_blocked :: u64
  sg_handlers :: "u64 list"

definition signal_state_new :: signal_state where
  "signal_state_new = \<lparr>sg_pending = 0, sg_blocked = 0, sg_handlers = replicate 32 SIG_DFL\<rparr>"

definition send_signal :: "signal_state \<Rightarrow> u8 \<Rightarrow> signal_state" where
  "send_signal s sig =
     (if sig = 0 \<or> sig > MAX_SIGNUM then s
      else s\<lparr>sg_pending := sg_pending s OR push_bit (unat sig) 1\<rparr>)"

definition has_pending :: "signal_state \<Rightarrow> bool" where
  "has_pending s \<longleftrightarrow> (sg_pending s AND NOT (sg_blocked s)) AND NOT 1 \<noteq> 0"

text \<open>\<open>u64::trailing_zeros\<close>.\<close>

definition trailing_zeros :: "u64 \<Rightarrow> nat" where
  "trailing_zeros w = (case position (bit w) [0..<64] of None \<Rightarrow> 64 | Some n \<Rightarrow> n)"

definition next_pending :: "signal_state \<Rightarrow> u8 option \<times> signal_state" where
  "next_pending s =
     (let actionable = (sg_pending s AND NOT (sg_blocked s)) AND NOT 1
      in if actionable = 0 then (None, s)
         else let sig = of_nat (trailing_zeros actionable) :: u8
              in (Some sig, s\<lparr>sg_pending := sg_pending s AND NOT (push_bit (unat sig) 1)\<rparr>))"

definition get_handler :: "signal_state \<Rightarrow> u8 \<Rightarrow> u64" where
  "get_handler s sig = (if sig = 0 \<or> sig > MAX_SIGNUM then SIG_DFL else sg_handlers s ! unat sig)"

datatype default_action = Terminate | Ignore | Stop | Continue

definition default_action_of :: "u8 \<Rightarrow> default_action" where
  "default_action_of sig = (if sig = SIGCHLD then Ignore else Terminate)"

record signal_frame =
  sf_ret_addr :: u64
  sf_sig_num :: u64
  sf_saved_rdi :: u64
  sf_saved_rsp :: u64
  sf_saved_rcx :: u64
  sf_saved_r11 :: u64

subsection \<open>Masks as sets\<close>

definition bits :: "u64 \<Rightarrow> nat set" where
  "bits w = {n. n < 64 \<and> bit w n}"

definition pending_set :: "signal_state \<Rightarrow> nat set" where
  "pending_set s = bits (sg_pending s)"

definition deliverable :: "signal_state \<Rightarrow> nat set" where
  "deliverable s = bits (sg_pending s) - bits (sg_blocked s) - {0}"

text \<open>The pending mask holds valid signals only, and there is a handler for each.\<close>

definition signal_inv :: "signal_state \<Rightarrow> bool" where
  "signal_inv s \<longleftrightarrow> pending_set s \<subseteq> {1..31} \<and> length (sg_handlers s) = 32"

lemma finite_bits [simp]: "finite (bits w)"
  by (simp add: bits_def)

lemma bits_lt: "n \<in> bits w \<Longrightarrow> n < 64"
  by (simp add: bits_def)

lemma bits_eq_iff: "bits v = bits w \<longleftrightarrow> v = w"
proof
  assume "bits v = bits w"
  then have eq: "n < 64 \<Longrightarrow> bit v n = bit w n" for n unfolding bits_def by blast
  show "v = w" by (rule bit_word_eqI) (rule eq, simp)
qed simp

lemma bits_simps [simp]:
  "bits 0 = {}" "bits (v OR w) = bits v \<union> bits w" "bits (v AND NOT w) = bits v - bits w"
  by (auto simp: bits_def bit_simps)

lemma bits_push [simp]: "n < 64 \<Longrightarrow> bits (push_bit n 1) = {n}"
  by (auto simp: bits_def bit_simps)

lemma bits_exp [simp]: "n < 64 \<Longrightarrow> bits (2 ^ n) = {n}"
  using bits_push [of n] by (simp only: push_bit_of_1)

lemma bits_1 [simp]: "bits 1 = {0}"
  by (auto simp: bits_def bit_simps)

lemma bits_but_0 [simp]: "bits (v AND - 2) = bits v - {0}"
proof -
  have "(- 2 :: u64) = NOT 1" by simp
  then show ?thesis by (simp only: bits_simps(3) bits_1)
qed

lemma actionable_bits: "bits ((sg_pending s AND NOT (sg_blocked s)) AND NOT 1) = deliverable s"
  by (simp add: deliverable_def)

lemma bits_empty: "bits w = {} \<longleftrightarrow> w = 0"
  using bits_eq_iff [of w 0] by simp

lemma actionable_zero: "(sg_pending s AND NOT (sg_blocked s)) AND NOT 1 = 0 \<longleftrightarrow> deliverable s = {}"
  by (metis actionable_bits bits_empty)

lemma finite_deliverable [simp]: "finite (deliverable s)"
  by (simp add: deliverable_def)

lemma trailing_zeros_Min:
  assumes "w \<noteq> 0"
  shows "trailing_zeros w = Min (bits w)" and "trailing_zeros w \<in> bits w"
proof -
  obtain m where m: "m \<in> bits w" using assms bits_empty [of w] by blast
  then have "position (bit w) [0..<64] \<noteq> None" by (auto simp: position_None bits_def)
  then obtain n where n: "position (bit w) [0..<64] = Some n" by blast
  then have nb: "n < 64" "bit w n" and lt: "\<forall>j<n. \<not> bit w j"
    by (auto simp: position_Some)
  have "Min (bits w) = n"
    using nb lt by (intro Min_eqI) (auto simp: bits_def not_le [symmetric])
  then show "trailing_zeros w = Min (bits w)" "trailing_zeros w \<in> bits w"
    using n nb by (simp_all add: trailing_zeros_def bits_def)
qed

lemma unat_u8_small: "n < 64 \<Longrightarrow> unat (of_nat n :: u8) = n"
  by (intro unat_of_nat_small) simp

lemma valid_sig: "\<not> (sig = 0 \<or> sig > MAX_SIGNUM) \<longleftrightarrow> unat sig \<in> {1..31}"
  by (auto simp: MAX_SIGNUM_def word_less_nat_alt unat_eq_zero not_less Suc_le_eq unat_gt_0)

subsection \<open>Operations on sets\<close>

lemma send_signal_set:
  "pending_set (send_signal s sig) = (if unat sig \<in> {1..31} then insert (unat sig) (pending_set s) else pending_set s)"
  "sg_blocked (send_signal s sig) = sg_blocked s" "sg_handlers (send_signal s sig) = sg_handlers s"
  using valid_sig [of sig] by (auto simp: send_signal_def pending_set_def)

lemma has_pending_iff: "has_pending s \<longleftrightarrow> deliverable s \<noteq> {}"
  by (simp only: has_pending_def actionable_zero)

lemma next_pending_None: "deliverable s = {} \<Longrightarrow> next_pending s = (None, s)"
  using actionable_zero [of s] by (simp add: next_pending_def)

lemma next_pending_Some:
  assumes "deliverable s \<noteq> {}"
  obtains sig where "next_pending s = (Some sig, s\<lparr>sg_pending := sg_pending s AND NOT (push_bit (unat sig) 1)\<rparr>)"
    and "unat sig = Min (deliverable s)" "unat sig \<in> deliverable s" "unat sig < 64"
proof -
  let ?a = "(sg_pending s AND NOT (sg_blocked s)) AND NOT 1"
  have a: "?a \<noteq> 0" using assms actionable_zero [of s] by simp
  note tz = trailing_zeros_Min [OF a, unfolded actionable_bits]
  then have "trailing_zeros ?a < 64" by (auto simp: deliverable_def bits_def)
  then have u: "unat (of_nat (trailing_zeros ?a) :: u8) = trailing_zeros ?a" by (rule unat_u8_small)
  show thesis
  proof (rule that)
    show "next_pending s = (Some (of_nat (trailing_zeros ?a)),
        s\<lparr>sg_pending := sg_pending s AND NOT (push_bit (unat (of_nat (trailing_zeros ?a) :: u8)) 1)\<rparr>)"
      using a unfolding next_pending_def Let_def by (simp only: if_False)
  qed (use u tz \<open>trailing_zeros ?a < 64\<close> in \<open>simp_all only:\<close>)
qed

text \<open>Calling \<open>next_pending\<close> until it returns nothing.\<close>

fun drain :: "nat \<Rightarrow> signal_state \<Rightarrow> nat list" where
  "drain 0 s = []"
| "drain (Suc fuel) s = (case next_pending s of (None, _) \<Rightarrow> [] | (Some sig, s') \<Rightarrow> unat sig # drain fuel s')"

lemma drain_sorted:
  "card (deliverable s) \<le> fuel \<Longrightarrow> drain fuel s = sorted_list_of_set (deliverable s)"
proof (induction fuel arbitrary: s)
  case 0
  then show ?case by simp
next
  case (Suc fuel)
  show ?case
  proof (cases "deliverable s = {}")
    case True
    then show ?thesis by (simp add: next_pending_None)
  next
    case False
    then obtain sig where n: "next_pending s = (Some sig, s\<lparr>sg_pending := sg_pending s AND NOT (push_bit (unat sig) 1)\<rparr>)"
      and sig: "unat sig = Min (deliverable s)" "unat sig \<in> deliverable s" "unat sig < 64"
      by (rule next_pending_Some)
    let ?s = "s\<lparr>sg_pending := sg_pending s AND NOT (push_bit (unat sig) 1)\<rparr>"
    have d: "deliverable ?s = deliverable s - {unat sig}" using sig(3) by (auto simp: deliverable_def)
    have "card (deliverable ?s) \<le> fuel" using Suc.prems sig(2) unfolding d by simp
    from Suc.IH [OF this] have ih: "drain fuel ?s = sorted_list_of_set (deliverable s - {unat sig})" unfolding d .
    have "drain (Suc fuel) s = unat sig # drain fuel ?s" unfolding drain.simps n by (simp only: prod.case option.case)
    then show ?thesis
      using sorted_list_of_set_nonempty [OF finite_deliverable False] ih sig(1) by simp
  qed
qed

lemma signal_inv_intros [inv_intros]:
  "signal_inv signal_state_new" "signal_inv s \<Longrightarrow> signal_inv (send_signal s sig)"
  "signal_inv s \<Longrightarrow> signal_inv (snd (next_pending s))"
proof -
  show "signal_inv signal_state_new" by (simp add: signal_inv_def signal_state_new_def pending_set_def)
  show "signal_inv (send_signal s sig)" if "signal_inv s" using that by (auto simp: signal_inv_def send_signal_set)
  show "signal_inv (snd (next_pending s))" if "signal_inv s"
    using that by (auto simp: signal_inv_def next_pending_def pending_set_def Let_def)
qed

subsection \<open>Properties\<close>

text \<open>C38: Delivery order. Calling \<open>next_pending\<close> until it is empty returns every pending unblocked signal exactly once,
  in increasing order, whatever was sent before and however often; 31 calls are enough when only valid signals were
  sent, and sending the same signal twice does not change the result.\<close>

theorem signals_delivered_once_in_order:
  assumes "signal_inv s"
  shows "drain 31 s = sorted_list_of_set (deliverable s) \<and> drain 31 (send_signal (send_signal s sig) sig) = drain 31 (send_signal s sig)"
proof -
  have c: "card (deliverable t) \<le> 31" if "signal_inv t" for t
  proof -
    have "deliverable t \<subseteq> {1..31}" using that by (auto simp: signal_inv_def deliverable_def pending_set_def)
    then have "card (deliverable t) \<le> card {1..31::nat}" by (intro card_mono) auto
    then show ?thesis by simp
  qed
  have "send_signal (send_signal s sig) sig = send_signal s sig"
    by (simp add: send_signal_def or.assoc)
  then show ?thesis using drain_sorted [OF c [OF assms]] by simp
qed

theorem signals_delivered_once_in_order_witness:
  "let s = send_signal (send_signal signal_state_new SIGTERM) SIGINT in
   drain 31 s = [2, 15] \<and> drain 31 (send_signal (send_signal s SIGHUP) SIGHUP) = drain 31 (send_signal s SIGHUP)"
proof -
  let ?s = "send_signal (send_signal signal_state_new SIGTERM) SIGINT"
  have "signal_inv ?s" by (intro inv_intros)
  note t = signals_delivered_once_in_order [OF this, of SIGHUP]
  moreover have "drain 31 ?s = [2, 15]" by code_simp
  ultimately show ?thesis by (simp only: Let_def)
qed

end
