(* ===== verification/Task.thy ===== *)
theory Task
  imports Handle_Table BTree_Map Vma Shm Signal "HOL-Library.List_Lexorder"
begin

text \<open>
  The task control block of \<open>kernel/src/task/task.rs\<close> with the register context, and the socket
  descriptions of \<open>kernel/src/net/socket.rs\<close> that it holds. A \<open>String\<close> is the list of its UTF-8
  bytes; a \<open>TaskId\<close> is its \<open>u64\<close>.
\<close>

type_synonym rstr = "u8 list"

definition str :: "string \<Rightarrow> rstr" where
  "str s = map of_char s"

definition DEFAULT_UMASK :: u16 where "DEFAULT_UMASK = 18"

definition ENV_HOME :: rstr where "ENV_HOME = str ''/''"
definition ENV_PATH :: rstr where "ENV_PATH = str ''/bin:/usr/bin''"
definition ENV_SHELL :: rstr where "ENV_SHELL = str ''/bin/sh''"
definition ENV_USER :: rstr where "ENV_USER = str ''root''"

definition default_env :: "(rstr, rstr) btree" where
  "default_env =
     bt_insert (str ''USER'') ENV_USER (bt_insert (str ''SHELL'') ENV_SHELL
       (bt_insert (str ''PATH'') ENV_PATH (bt_insert (str ''HOME'') ENV_HOME [])))"

subsection \<open>Sockets\<close>

definition SOL_SOCKET :: u32 where "SOL_SOCKET = 1"
definition IPPROTO_TCP :: u32 where "IPPROTO_TCP = 6"
definition SO_REUSEADDR :: u32 where "SO_REUSEADDR = 2"
definition TCP_NODELAY :: u32 where "TCP_NODELAY = 1"
definition SO_RCVBUF :: u32 where "SO_RCVBUF = 8"
definition SO_SNDBUF :: u32 where "SO_SNDBUF = 7"

record socket_options =
  so_reuse_addr :: bool
  so_tcp_no_delay :: bool
  so_rcv_buf_size :: u32
  so_snd_buf_size :: u32

definition socket_options_default :: socket_options where
  "socket_options_default =
     \<lparr>so_reuse_addr = False, so_tcp_no_delay = False, so_rcv_buf_size = 8192, so_snd_buf_size = 8192\<rparr>"

datatype socket_type = Tcp | Udp | Raw
datatype socket_state = Created | Bound | Listening | Connected | Closed

record socket =
  sk_type :: socket_type
  sk_state :: socket_state
  sk_local_port :: u16
  sk_remote_addr :: u32
  sk_remote_port :: u16
  sk_options :: socket_options

definition socket_new :: "socket_type \<Rightarrow> socket" where
  "socket_new ty = \<lparr>sk_type = ty, sk_state = Created, sk_local_port = 0, sk_remote_addr = 0,
     sk_remote_port = 0, sk_options = socket_options_default\<rparr>"

subsection \<open>Contexts\<close>

record saved_context =
  cx_r9 :: u64
  cx_r8 :: u64
  cx_rdx :: u64
  cx_rsi :: u64
  cx_rdi :: u64
  cx_rax :: u64
  cx_r15 :: u64
  cx_r14 :: u64
  cx_r13 :: u64
  cx_r12 :: u64
  cx_rbx :: u64
  cx_rbp :: u64
  cx_r11 :: u64
  cx_rcx :: u64
  cx_rsp :: u64
  cx_is_kernel :: u64
  cx_cr3 :: u64

definition saved_context_new :: saved_context where
  "saved_context_new = \<lparr>cx_r9 = 0, cx_r8 = 0, cx_rdx = 0, cx_rsi = 0, cx_rdi = 0, cx_rax = 0, cx_r15 = 0,
     cx_r14 = 0, cx_r13 = 0, cx_r12 = 0, cx_rbx = 0, cx_rbp = 0, cx_r11 = 0, cx_rcx = 0, cx_rsp = 0,
     cx_is_kernel = 0, cx_cr3 = 0\<rparr>"

definition user_mode :: "u64 \<Rightarrow> u64 \<Rightarrow> u64 \<Rightarrow> saved_context" where
  "user_mode entry stack_top cr3 = saved_context_new\<lparr>cx_rcx := entry, cx_rsp := stack_top, cx_r11 := 0x202,
     cx_is_kernel := 0, cx_cr3 := cr3\<rparr>"

definition kernel_mode :: "u64 \<Rightarrow> u64 \<Rightarrow> saved_context" where
  "kernel_mode entry stack_top = saved_context_new\<lparr>cx_rcx := entry, cx_rsp := stack_top, cx_r11 := 0x202,
     cx_is_kernel := 1\<rparr>"

subsection \<open>Tasks\<close>

datatype task_state = Ready | Running | Blocked | Terminated

record fd_entry =
  fd_path :: rstr
  fd_ino :: u64
  fd_offset :: u64

record task =
  t_id :: u64
  t_name :: rstr
  t_state :: task_state
  t_priority :: u8
  t_handle_table :: handle_table
  t_context :: "saved_context option"
  t_namespace :: "(rstr, handle) btree"
  t_parent_id :: "u64 option"
  t_exit_status :: "u64 option"
  t_page_table :: "u64 option"
  t_fd_table :: "(u64, fd_entry) btree"
  t_socket_table :: "(u64, socket) btree"
  t_vma_list :: vma_list
  t_brk :: u64
  t_env :: "(rstr, rstr) btree"
  t_cwd :: rstr
  t_signal_state :: signal_state
  t_umask :: u16
  t_pgid :: u64
  t_sid :: u64
  t_shm_attachments :: "shm_attachment list"

text \<open>\<open>Task::new\<close> with the identifier it draws.\<close>

definition task_new :: "u64 \<Rightarrow> rstr \<Rightarrow> u8 \<Rightarrow> task" where
  "task_new tid name priority = \<lparr>t_id = tid, t_name = name, t_state = Ready, t_priority = priority,
     t_handle_table = handle_table_new, t_context = None, t_namespace = [], t_parent_id = None,
     t_exit_status = None, t_page_table = None, t_fd_table = [], t_socket_table = [], t_vma_list = vma_list_new,
     t_brk = 0, t_env = default_env, t_cwd = str ''/'', t_signal_state = signal_state_new, t_umask = DEFAULT_UMASK,
     t_pgid = tid, t_sid = tid, t_shm_attachments = []\<rparr>"

text \<open>A well-formed task: its tables satisfy the invariants of their components.\<close>

definition task_ok :: "task \<Rightarrow> bool" where
  "task_ok t \<longleftrightarrow> ht_inv (t_handle_table t) \<and> bt_wf (t_fd_table t) \<and> bt_wf (t_socket_table t) \<and> bt_wf (t_env t)
     \<and> bt_wf (t_namespace t) \<and> signal_inv (t_signal_state t) \<and> vma_inv (t_vma_list t)"

lemma default_env_wf: "bt_wf default_env"
  unfolding default_env_def by (intro bt_wf_insert bt_wf_Nil)

lemma task_new_ok: "task_ok (task_new tid name priority)"
  using default_env_wf
  by (simp add: task_ok_def task_new_def ht_inv_new inv_intros vma_inv_def vma_list_new_def)

end
