(* ===== verification/Scheduler.thy ===== *)
theory Scheduler
  imports Task File_Lock
begin

text \<open>
  The SMP scheduler, \<open>kernel/src/task/scheduler.rs\<close>. The state is the global data of that file: the
  run queue of each CPU, the blocked and migration queues, the map from a blocked task to its CPU, the
  current task identifier, the context that the system-call stub will restore, the counter of
  \<open>TaskId::new\<close>, and the file locks that a terminating task releases. Two effects that leave the
  scheduler are recorded as the list of calls made: inter-processor interrupts (\<open>sc_ipis\<close>) and
  the page tables handed to \<open>free_user_page_table\<close> (\<open>sc_freed\<close>).

  \<open>cpu\<close> is the CPU that executes the call (\<open>current_cpu()\<close>, read from the GS base). Each call takes the
  locks it needs and runs to its end; the operations are the atomic steps of an interleaving.
\<close>

definition MAX_CPUS :: nat where "MAX_CPUS = 8"
definition MAX_TASKS :: nat where "MAX_TASKS = 256"
definition SCHED_IPI_VECTOR :: u8 where "SCHED_IPI_VECTOR = 0x40"

record cpu_queue =
  cq_ready :: "task list"
  cq_current :: "u64 option"

definition cpu_queue_new :: cpu_queue where
  "cpu_queue_new = \<lparr>cq_ready = [], cq_current = None\<rparr>"

definition task_count :: "cpu_queue \<Rightarrow> nat" where
  "task_count q = length (cq_ready q) + (if cq_current q \<noteq> None then 1 else 0)"

record sched =
  sc_cpus :: "cpu_queue list"
  sc_blocked :: "task list"
  sc_migration :: "task list"
  sc_blocked_cpu :: "(u64, u32) btree"
  sc_current_id :: u64
  sc_next_id :: u64
  sc_switch :: "saved_context option"
  sc_percpu :: "u32 option list"
  sc_ipis :: "(u8 \<times> u8) list"
  sc_locks :: lock_table
  sc_freed :: "u64 list"

text \<open>\<open>CPU_QUEUES[cpu]\<close>: an index out of range panics.\<close>

definition queue_at :: "sched \<Rightarrow> nat \<Rightarrow> cpu_queue panics" where
  "queue_at s cpu = (if cpu < length (sc_cpus s) then Some (sc_cpus s ! cpu) else None)"

definition put_queue :: "sched \<Rightarrow> nat \<Rightarrow> cpu_queue \<Rightarrow> sched" where
  "put_queue s cpu q = s\<lparr>sc_cpus := (sc_cpus s)[cpu := q]\<rparr>"

definition push_ready :: "sched \<Rightarrow> nat \<Rightarrow> task \<Rightarrow> sched panics" where
  "push_ready s cpu t = do {
     q \<leftarrow> queue_at s cpu;
     Some (put_queue s cpu (q\<lparr>cq_ready := cq_ready q @ [t]\<rparr>)) }"

subsection \<open>Counting and placement\<close>

definition total_task_count :: "sched \<Rightarrow> nat" where
  "total_task_count s = sum_list (map task_count (sc_cpus s)) + length (sc_blocked s) + length (sc_migration s)"

fun least_loaded_scan :: "cpu_queue list \<Rightarrow> nat \<Rightarrow> nat \<Rightarrow> nat \<Rightarrow> nat" where
  "least_loaded_scan [] i best_cpu best_count = best_cpu"
| "least_loaded_scan (q # qs) i best_cpu best_count =
     (if task_count q < best_count then least_loaded_scan qs (i + 1) i (task_count q)
      else least_loaded_scan qs (i + 1) best_cpu best_count)"

definition least_loaded_cpu :: "sched \<Rightarrow> nat" where
  "least_loaded_cpu s = least_loaded_scan (sc_cpus s) 0 0 (2 ^ 64 - 1)"

definition get_lapic_id_for_cpu :: "sched \<Rightarrow> nat \<Rightarrow> u32 option" where
  "get_lapic_id_for_cpu s cpu = (if cpu < MAX_CPUS then sc_percpu s ! cpu else None)"

definition send_ipi_to_cpu :: "sched \<Rightarrow> nat \<Rightarrow> sched" where
  "send_ipi_to_cpu s cpu =
     (case get_lapic_id_for_cpu s cpu of
        Some lapic_id \<Rightarrow> s\<lparr>sc_ipis := sc_ipis s @ [(ucast lapic_id, SCHED_IPI_VECTOR)]\<rparr>
      | None \<Rightarrow> s)"

definition register_percpu_base :: "sched \<Rightarrow> nat \<Rightarrow> u32 \<Rightarrow> sched panics" where
  "register_percpu_base s cpu lapic_id =
     (if cpu < MAX_CPUS then Some (s\<lparr>sc_percpu := (sc_percpu s)[cpu := Some lapic_id]\<rparr>) else None)"

subsection \<open>Boot and spawning\<close>

text \<open>The static initial values.\<close>

definition sched_boot :: "sched" where
  "sched_boot = \<lparr>sc_cpus = replicate MAX_CPUS cpu_queue_new, sc_blocked = [], sc_migration = [], sc_blocked_cpu = [],
     sc_current_id = 0, sc_next_id = 0, sc_switch = None, sc_percpu = replicate MAX_CPUS None, sc_ipis = [],
     sc_locks = [], sc_freed = []\<rparr>"

text \<open>\<open>TaskId::new\<close>: \<open>fetch_add\<close> wraps.\<close>

definition task_id_new :: "sched \<Rightarrow> u64 \<times> sched" where
  "task_id_new s = (sc_next_id s, s\<lparr>sc_next_id := sc_next_id s + 1\<rparr>)"

definition sched_init :: "u64 \<Rightarrow> u64 \<Rightarrow> sched \<Rightarrow> sched panics" where
  "sched_init idle_loop idle_stack_top s = (let (tid, s) = task_id_new s;
       idle_task = (task_new tid (str ''idle'') 0)\<lparr>t_context := Some (kernel_mode idle_loop idle_stack_top)\<rparr>;
       s = s\<lparr>sc_current_id := tid\<rparr>
     in do {
       cpu0 \<leftarrow> queue_at s 0;
       Some (put_queue s 0 (cpu0\<lparr>cq_current := Some tid, cq_ready := cq_ready cpu0 @ [idle_task]\<rparr>)) })"

definition spawn_task_from :: "sched \<Rightarrow> task \<Rightarrow> ((unit + u64) \<times> sched) panics" where
  "spawn_task_from s t =
     (if total_task_count s \<ge> MAX_TASKS then Some (Inl (), s)
      else do {
        s' \<leftarrow> push_ready s (least_loaded_cpu s) t;
        Some (Inr (t_id t), s') })"

definition spawn_task :: "sched \<Rightarrow> rstr \<Rightarrow> u8 \<Rightarrow> ((unit + u64) \<times> sched) panics" where
  "spawn_task s name priority = (let (tid, s) = task_id_new s in spawn_task_from s (task_new tid name priority))"

definition spawn_task_with_id :: "sched \<Rightarrow> rstr \<Rightarrow> u8 \<Rightarrow> ((unit + u64) \<times> sched) panics" where
  "spawn_task_with_id s name priority = spawn_task s name priority"

definition spawn_task_on_current :: "nat \<Rightarrow> sched \<Rightarrow> task \<Rightarrow> ((unit + u64) \<times> sched) panics" where
  "spawn_task_on_current cpu s t =
     (if total_task_count s \<ge> MAX_TASKS then Some (Inl (), s)
      else do {
        s' \<leftarrow> push_ready s cpu t;
        Some (Inr (t_id t), s') })"

subsection \<open>Current task and lookup\<close>

definition current_task_id :: "sched \<Rightarrow> u64" where
  "current_task_id s = sc_current_id s"

definition set_current_task :: "nat \<Rightarrow> sched \<Rightarrow> u64 \<Rightarrow> sched panics" where
  "set_current_task cpu s tid = (let s = s\<lparr>sc_current_id := tid\<rparr> in do {
     q \<leftarrow> queue_at s cpu;
     Some (put_queue s cpu (q\<lparr>cq_current := Some tid\<rparr>)) })"

text \<open>\<open>iter_mut().find(p)\<close> and a closure on what it finds; a shared lookup is a closure that changes nothing.\<close>

fun find_mut :: "('a \<Rightarrow> bool) \<Rightarrow> ('a \<Rightarrow> 'r \<times> 'a) \<Rightarrow> 'a list \<Rightarrow> ('r \<times> 'a list) option" where
  "find_mut p f [] = None"
| "find_mut p f (x # xs) =
     (if p x then Some (fst (f x), snd (f x) # xs)
      else map_option (\<lambda>(r, ys). (r, x # ys)) (find_mut p f xs))"

definition in_blocked :: "sched \<Rightarrow> u64 \<Rightarrow> (task \<Rightarrow> 'r \<times> task) \<Rightarrow> 'r option \<times> sched" where
  "in_blocked s tid f =
     (case find_mut (\<lambda>t. t_id t = tid) f (sc_blocked s) of
        Some (r, ts) \<Rightarrow> (Some r, s\<lparr>sc_blocked := ts\<rparr>)
      | None \<Rightarrow> (None, s))"

definition in_queue :: "sched \<Rightarrow> nat \<Rightarrow> u64 \<Rightarrow> (task \<Rightarrow> 'r \<times> task) \<Rightarrow> ('r option \<times> sched) panics" where
  "in_queue s cpu tid f = do {
     q \<leftarrow> queue_at s cpu;
     (case find_mut (\<lambda>t. t_id t = tid) f (cq_ready q) of
        Some (r, ts) \<Rightarrow> Some (Some r, put_queue s cpu (q\<lparr>cq_ready := ts\<rparr>))
      | None \<Rightarrow> Some (None, s)) }"

definition with_current_task_mut :: "nat \<Rightarrow> sched \<Rightarrow> (task \<Rightarrow> 'r \<times> task) \<Rightarrow> ('r option \<times> sched) panics" where
  "with_current_task_mut cpu s f = do {
     (r, s') \<leftarrow> in_queue s cpu (current_task_id s) f;
     (case r of Some x \<Rightarrow> Some (Some x, s') | None \<Rightarrow> Some (in_blocked s (current_task_id s) f)) }"

definition with_current_task :: "nat \<Rightarrow> sched \<Rightarrow> (task \<Rightarrow> 'r) \<Rightarrow> 'r option panics" where
  "with_current_task cpu s f = map_option fst (with_current_task_mut cpu s (\<lambda>t. (f t, t)))"

fun in_queues :: "nat list \<Rightarrow> sched \<Rightarrow> u64 \<Rightarrow> (task \<Rightarrow> 'r \<times> task) \<Rightarrow> ('r option \<times> sched) panics" where
  "in_queues [] s tid f = Some (None, s)"
| "in_queues (c # cs) s tid f = do {
     (r, s') \<leftarrow> in_queue s c tid f;
     (case r of Some x \<Rightarrow> Some (Some x, s') | None \<Rightarrow> in_queues cs s tid f) }"

definition with_task_mut :: "nat \<Rightarrow> sched \<Rightarrow> u64 \<Rightarrow> (task \<Rightarrow> 'r \<times> task) \<Rightarrow> ('r option \<times> sched) panics" where
  "with_task_mut cpu s tid f = do {
     (r, s') \<leftarrow> in_queues (cpu # filter (\<lambda>i. i \<noteq> cpu) [0..<MAX_CPUS]) s tid f;
     (case r of Some x \<Rightarrow> Some (Some x, s') | None \<Rightarrow> Some (in_blocked s tid f)) }"

definition with_task :: "nat \<Rightarrow> sched \<Rightarrow> u64 \<Rightarrow> (task \<Rightarrow> 'r) \<Rightarrow> 'r option panics" where
  "with_task cpu s tid f = map_option fst (with_task_mut cpu s tid (\<lambda>t. (f t, t)))"

subsection \<open>Scheduling\<close>

text \<open>\<open>iter().enumerate().max_by_key(|(_, t)| t.priority)\<close>: \<open>max_by_key\<close> returns the last maximum.\<close>

fun last_max_idx :: "task list \<Rightarrow> nat \<Rightarrow> nat \<Rightarrow> u8 \<Rightarrow> nat" where
  "last_max_idx [] i best p = best"
| "last_max_idx (t # ts) i best p =
     (if t_priority t \<ge> p then last_max_idx ts (i + 1) i (t_priority t) else last_max_idx ts (i + 1) best p)"

definition max_priority_idx :: "task list \<Rightarrow> nat" where
  "max_priority_idx ts = last_max_idx ts 0 0 0"

definition schedule_next_local :: "sched \<Rightarrow> nat \<Rightarrow> (u64 option \<times> sched) panics" where
  "schedule_next_local s cpu = do {
     q \<leftarrow> queue_at s cpu;
     if cq_ready q = [] then Some (None, s)
     else let best_idx = max_priority_idx (cq_ready q);
              t = (cq_ready q ! best_idx)\<lparr>t_state := Running\<rparr>
          in Some (Some (t_id t), (put_queue s cpu
               \<lparr>cq_ready = remove_at best_idx (cq_ready q) @ [t], cq_current = Some (t_id t)\<rparr>)\<lparr>sc_current_id := t_id t\<rparr>) }"

definition wake_task_by_id :: "nat \<Rightarrow> sched \<Rightarrow> u64 \<Rightarrow> sched panics" where
  "wake_task_by_id cpu s tid =
     (case position (\<lambda>t. t_id t = tid) (sc_blocked s) of
        None \<Rightarrow> Some s
      | Some pos \<Rightarrow>
          let t = (sc_blocked s ! pos)\<lparr>t_state := Ready\<rparr>;
              target_cpu = (case bt_get (sc_blocked_cpu s) tid of Some c \<Rightarrow> unat c | None \<Rightarrow> cpu);
              s = s\<lparr>sc_blocked := remove_at pos (sc_blocked s), sc_blocked_cpu := bt_remove tid (sc_blocked_cpu s)\<rparr>
          in do {
            s \<leftarrow> push_ready s target_cpu t;
            Some (if target_cpu \<noteq> cpu then send_ipi_to_cpu s target_cpu else s) })"

definition unblock_current :: "nat \<Rightarrow> sched \<Rightarrow> sched panics" where
  "unblock_current cpu s = do {
     q \<leftarrow> queue_at s cpu;
     (case cq_current q of
        None \<Rightarrow> Some s
      | Some current_id \<Rightarrow>
          (case position (\<lambda>t. t_id t = current_id) (sc_blocked s) of
             None \<Rightarrow> Some s
           | Some pos \<Rightarrow>
               let t = (sc_blocked s ! pos)\<lparr>t_state := Ready\<rparr>
               in push_ready (s\<lparr>sc_blocked := remove_at pos (sc_blocked s)\<rparr>) cpu t)) }"

text \<open>The first half of \<open>block_and_switch\<close>: the current task leaves the ready queue.\<close>

definition block_task :: "nat \<Rightarrow> sched \<Rightarrow> cpu_queue \<Rightarrow> u64 \<Rightarrow> saved_context \<Rightarrow> sched" where
  "block_task cpu s q current_id current_ctx =
     (case position (\<lambda>t. t_id t = current_id) (cq_ready q) of
        None \<Rightarrow> s
      | Some pos \<Rightarrow>
          let t = (cq_ready q ! pos)\<lparr>t_state := Blocked, t_context := Some current_ctx\<rparr>
          in (put_queue s cpu (q\<lparr>cq_ready := remove_at pos (cq_ready q)\<rparr>))
               \<lparr>sc_blocked_cpu := bt_insert current_id (of_nat cpu) (sc_blocked_cpu s),
                sc_blocked := sc_blocked s @ [t]\<rparr>)"

text \<open>The second half: the front of the ready queue becomes the current task and goes to the back.\<close>

definition switch_next :: "nat \<Rightarrow> sched \<Rightarrow> (bool \<times> sched) panics" where
  "switch_next cpu s = do {
     q \<leftarrow> queue_at s cpu;
     (case cq_ready q of
        [] \<Rightarrow> Some (False, s)
      | t # ts \<Rightarrow>
          let t = t\<lparr>t_state := Running\<rparr>;
              next_cr3 = (case t_page_table t of Some p \<Rightarrow> p | None \<Rightarrow> 0);
              s = (put_queue s cpu \<lparr>cq_ready = ts @ [t], cq_current = Some (t_id t)\<rparr>)\<lparr>sc_current_id := t_id t\<rparr>
          in (case t_context t of
                Some ctx \<Rightarrow> Some (True, s\<lparr>sc_switch := Some (ctx\<lparr>cx_cr3 := next_cr3\<rparr>)\<rparr>)
              | None \<Rightarrow> Some (False, s))) }"

definition block_and_switch :: "nat \<Rightarrow> sched \<Rightarrow> saved_context \<Rightarrow> (bool \<times> sched) panics" where
  "block_and_switch cpu s current_ctx = do {
     q \<leftarrow> queue_at s cpu;
     (case cq_current q of
        None \<Rightarrow> Some (False, s)
      | Some current_id \<Rightarrow> switch_next cpu (block_task cpu s q current_id current_ctx)) }"

subsection \<open>Termination\<close>

definition terminate_current :: "nat \<Rightarrow> sched \<Rightarrow> u64 \<Rightarrow> sched panics" where
  "terminate_current cpu s status = do {
     q \<leftarrow> queue_at s cpu;
     (case cq_current q of
        None \<Rightarrow> Some s
      | Some current_id \<Rightarrow>
          (case position (\<lambda>t. t_id t = current_id) (cq_ready q) of
             None \<Rightarrow> Some s
           | Some pos \<Rightarrow>
               let t = (cq_ready q ! pos)\<lparr>t_state := Terminated, t_exit_status := Some status\<rparr>;
                   t = t\<lparr>t_handle_table := ht_close_all (t_handle_table t)\<rparr>;
                   s = (put_queue s cpu (q\<lparr>cq_ready := remove_at pos (cq_ready q)\<rparr>))
                         \<lparr>sc_locks := release_all_for_task (sc_locks s) current_id\<rparr>;
                   s = (case t_page_table t of Some p4_phys \<Rightarrow> s\<lparr>sc_freed := sc_freed s @ [p4_phys]\<rparr> | None \<Rightarrow> s)
               in (case t_parent_id t of
                     Some parent_id \<Rightarrow> wake_task_by_id cpu s parent_id
                   | None \<Rightarrow> Some s))) }"

text \<open>\<open>find\<close> over a queue.\<close>

definition find_task :: "task list \<Rightarrow> u64 \<Rightarrow> task option" where
  "find_task ts tid = find (\<lambda>t. t_id t = tid) ts"

fun exit_status_in :: "cpu_queue list \<Rightarrow> u64 \<Rightarrow> u64 option option" where
  "exit_status_in [] tid = None"
| "exit_status_in (q # qs) tid =
     (case find_task (cq_ready q) tid of Some t \<Rightarrow> Some (t_exit_status t) | None \<Rightarrow> exit_status_in qs tid)"

definition get_exit_status :: "sched \<Rightarrow> u64 \<Rightarrow> u64 option" where
  "get_exit_status s tid =
     (case exit_status_in (sc_cpus s) tid of
        Some st \<Rightarrow> st
      | None \<Rightarrow> (case find_task (sc_blocked s) tid of Some t \<Rightarrow> t_exit_status t | None \<Rightarrow> None))"

subsection \<open>Priorities, listing, migration\<close>

definition set_task_priority :: "nat \<Rightarrow> sched \<Rightarrow> u64 \<Rightarrow> u8 \<Rightarrow> (bool \<times> sched) panics" where
  "set_task_priority cpu s tid priority = do {
     (r, s') \<leftarrow> with_task_mut cpu s tid (\<lambda>t. ((), t\<lparr>t_priority := priority\<rparr>));
     Some (r \<noteq> None, s') }"

record task_info =
  ti_id :: u64
  ti_name :: "u8 list"
  ti_name_len :: u8
  ti_state :: task_state
  ti_priority :: u8

definition info_of :: "task \<Rightarrow> task_info" where
  "info_of t = (let len = min (length (t_name t)) 32 in
     \<lparr>ti_id = t_id t, ti_name = take len (t_name t) @ replicate (32 - len) 0, ti_name_len = of_nat len,
      ti_state = t_state t, ti_priority = t_priority t\<rparr>)"

definition list_tasks :: "sched \<Rightarrow> task_info list" where
  "list_tasks s = concat (map (\<lambda>q. map info_of (cq_ready q)) (sc_cpus s)) @ map info_of (sc_blocked s)
     @ map info_of (sc_migration s)"

definition migrate_task :: "sched \<Rightarrow> u64 \<Rightarrow> nat \<Rightarrow> nat \<Rightarrow> (bool \<times> sched) panics" where
  "migrate_task s tid from_cpu to_cpu =
     (if from_cpu \<ge> MAX_CPUS \<or> to_cpu \<ge> MAX_CPUS then Some (False, s)
      else do {
        q \<leftarrow> queue_at s from_cpu;
        (case position (\<lambda>t. t_id t = tid) (cq_ready q) of
           None \<Rightarrow> Some (False, s)
         | Some pos \<Rightarrow> do {
             s' \<leftarrow> push_ready (put_queue s from_cpu (q\<lparr>cq_ready := remove_at pos (cq_ready q)\<rparr>)) to_cpu (cq_ready q ! pos);
             Some (True, s') }) })"

definition push_migration :: "sched \<Rightarrow> task \<Rightarrow> sched" where
  "push_migration s t = s\<lparr>sc_migration := sc_migration s @ [t]\<rparr>"

definition steal_from_migration :: "nat \<Rightarrow> sched \<Rightarrow> (bool \<times> sched) panics" where
  "steal_from_migration cpu s =
     (case sc_migration s of
        [] \<Rightarrow> Some (False, s)
      | t # ts \<Rightarrow> do {
          s' \<leftarrow> push_ready (s\<lparr>sc_migration := ts\<rparr>) cpu t;
          Some (True, s') })"

subsection \<open>The tasks in the queues\<close>

definition queue_ids :: "cpu_queue \<Rightarrow> u64 multiset" where
  "queue_ids q = image_mset t_id (mset (cq_ready q))"

definition task_ids :: "sched \<Rightarrow> u64 multiset" where
  "task_ids s = sum_list (map queue_ids (sc_cpus s)) + image_mset t_id (mset (sc_blocked s))
     + image_mset t_id (mset (sc_migration s))"

text \<open>Eight queues, every task in exactly one place, identifiers below the counter, and a recorded CPU in range for
  every blocked task.\<close>

definition sched_inv :: "sched \<Rightarrow> bool" where
  "sched_inv s \<longleftrightarrow> length (sc_cpus s) = MAX_CPUS \<and> (\<forall>x. count (task_ids s) x \<le> 1)
     \<and> (\<forall>x. x \<in># task_ids s \<longrightarrow> x < sc_next_id s) \<and> bt_wf (sc_blocked_cpu s)
     \<and> (\<forall>k c. bt_get (sc_blocked_cpu s) k = Some c \<longrightarrow> unat c < MAX_CPUS)
     \<and> (\<forall>t\<in>set (sc_blocked s). bt_get (sc_blocked_cpu s) (t_id t) \<noteq> None)"

lemma put_queue_simps [simp]:
  "sc_blocked (put_queue s c q) = sc_blocked s" "sc_migration (put_queue s c q) = sc_migration s"
  "sc_blocked_cpu (put_queue s c q) = sc_blocked_cpu s" "sc_next_id (put_queue s c q) = sc_next_id s"
  "length (sc_cpus (put_queue s c q)) = length (sc_cpus s)" "sc_current_id (put_queue s c q) = sc_current_id s"
  "sc_locks (put_queue s c q) = sc_locks s" "sc_freed (put_queue s c q) = sc_freed s"
  "sc_switch (put_queue s c q) = sc_switch s"
  by (simp_all add: put_queue_def)

lemma queue_at_Some: "queue_at s c = Some q \<longleftrightarrow> c < length (sc_cpus s) \<and> q = sc_cpus s ! c"
  by (auto simp: queue_at_def)

lemma queue_at_put: "queue_at s c = Some q \<Longrightarrow> queue_at (put_queue s c q') d = (if d = c then Some q' else queue_at s d)"
  by (auto simp: queue_at_def put_queue_def split: if_splits)

lemma put_queue_ids:
  assumes "queue_at s c = Some q"
  shows "task_ids (put_queue s c q') + queue_ids q = task_ids s + queue_ids q'"
proof -
  have "sum_list (map queue_ids ((sc_cpus s)[c := q'])) + queue_ids q = sum_list (map queue_ids (sc_cpus s)) + queue_ids q'"
    using assms sum_list_put [of c "map queue_ids (sc_cpus s)" "queue_ids q'"] by (simp add: map_update queue_at_Some)
  then show ?thesis by (simp add: task_ids_def put_queue_def algebra_simps)
qed

lemma push_ready_spec:
  assumes "push_ready s c t = Some s'"
  shows "task_ids s' = add_mset (t_id t) (task_ids s)"
    and "\<exists>q. queue_at s c = Some q \<and> s' = put_queue s c (q\<lparr>cq_ready := cq_ready q @ [t]\<rparr>)"
proof -
  from assms show ex: "\<exists>q. queue_at s c = Some q \<and> s' = put_queue s c (q\<lparr>cq_ready := cq_ready q @ [t]\<rparr>)"
    by (auto simp: push_ready_def bind_eq_Some_conv)
  then obtain q where q: "queue_at s c = Some q" and s': "s' = put_queue s c (q\<lparr>cq_ready := cq_ready q @ [t]\<rparr>)" by blast
  show "task_ids s' = add_mset (t_id t) (task_ids s)"
    using put_queue_ids [OF q, of "q\<lparr>cq_ready := cq_ready q @ [t]\<rparr>"] by (simp add: s' queue_ids_def)
qed

lemma push_ready_ok: "c < length (sc_cpus s) \<Longrightarrow> \<exists>s'. push_ready s c t = Some s'"
  by (simp add: push_ready_def queue_at_def)

lemma mset_ids_remove_at:
  assumes "position (\<lambda>t. t_id t = tid) ts = Some pos"
  shows "image_mset t_id (mset ts) = add_mset tid (image_mset t_id (mset (remove_at pos ts)))"
    and "t_id (ts ! pos) = tid" and "ts ! pos \<in> set ts"
proof -
  have p: "pos < length ts" "t_id (ts ! pos) = tid" using assms position_lt position_sat by fastforce+
  then show "t_id (ts ! pos) = tid" "ts ! pos \<in> set ts" by simp_all
  have "mset ts = add_mset (ts ! pos) (mset (remove_at pos ts))"
    using p(1) by (simp add: mset_remove_at)
  then show "image_mset t_id (mset ts) = add_mset tid (image_mset t_id (mset (remove_at pos ts)))"
    using p(2) by simp
qed

lemma find_mut_ids:
  assumes "find_mut p f ts = Some (r, ts')" and "\<And>t. t_id (snd (f t)) = t_id t"
  shows "map t_id ts' = map t_id ts"
  using assms(1) by (induction ts arbitrary: ts' r) (auto simp: assms(2) split: if_splits)

lemma task_ids_cong:
  "sc_cpus s = sc_cpus s' \<Longrightarrow> map t_id (sc_blocked s) = map t_id (sc_blocked s') \<Longrightarrow>
   map t_id (sc_migration s) = map t_id (sc_migration s') \<Longrightarrow> task_ids s = task_ids s'"
  by (simp add: task_ids_def mset_map [symmetric] del: mset_map)

subsection \<open>The invariant under each operation\<close>

lemma sched_inv_shrink:
  assumes "sched_inv s" and "length (sc_cpus s') = length (sc_cpus s)" and "task_ids s' \<subseteq># task_ids s"
    and "sc_next_id s' = sc_next_id s" and "bt_wf (sc_blocked_cpu s')"
    and "\<And>k c. bt_get (sc_blocked_cpu s') k = Some c \<Longrightarrow> unat c < MAX_CPUS"
    and "\<And>t. t \<in> set (sc_blocked s') \<Longrightarrow> bt_get (sc_blocked_cpu s') (t_id t) \<noteq> None"
  shows "sched_inv s'"
proof -
  have "count (task_ids s') x \<le> 1" for x
  proof -
    have "count (task_ids s') x \<le> count (task_ids s) x" using assms(3) by (rule mset_subset_eq_count)
    also have "\<dots> \<le> 1" using assms(1) by (simp add: sched_inv_def)
    finally show ?thesis .
  qed
  moreover have "x < sc_next_id s'" if "x \<in># task_ids s'" for x
    using assms(1,4) mset_subset_eqD [OF assms(3) that] unfolding sched_inv_def by simp
  ultimately show ?thesis using assms(1,2,5,6,7) unfolding sched_inv_def by simp
qed

lemma sched_inv_same_blocked:
  assumes "sched_inv s" and "length (sc_cpus s') = length (sc_cpus s)" and "task_ids s' \<subseteq># task_ids s"
    and "sc_next_id s' = sc_next_id s" and "sc_blocked_cpu s' = sc_blocked_cpu s"
    and "set (map t_id (sc_blocked s')) \<subseteq> set (map t_id (sc_blocked s))"
  shows "sched_inv s'"
proof (rule sched_inv_shrink [OF assms(1-4)])
  show "bt_get (sc_blocked_cpu s') (t_id t) \<noteq> None" if "t \<in> set (sc_blocked s')" for t
  proof -
    have "t_id t \<in> set (map t_id (sc_blocked s))" using assms(6) that by auto
    then show ?thesis using assms(1,5) unfolding sched_inv_def by auto
  qed
qed (use assms in \<open>auto simp: sched_inv_def\<close>)

lemma unat_Suc_id: "a \<noteq> - 1 \<Longrightarrow> unat (a + 1) = Suc (unat a)" for a :: u64
  using unatSuc [of a] by (simp add: add.commute add_eq_0_iff)

lemma word_less_Suc: "a \<noteq> - 1 \<Longrightarrow> x < a + 1 \<longleftrightarrow> x \<le> a" for a x :: u64
  by (auto simp: word_less_nat_alt word_le_nat_alt unat_Suc_id)

lemma task_id_new_spec:
  assumes "sched_inv s" and "sc_next_id s \<noteq> - 1"
  shows "task_id_new s = (sc_next_id s, s\<lparr>sc_next_id := sc_next_id s + 1\<rparr>)"
    and "sched_inv (s\<lparr>sc_next_id := sc_next_id s + 1\<rparr>)" and "sc_next_id s \<notin># task_ids s"
proof -
  show "task_id_new s = (sc_next_id s, s\<lparr>sc_next_id := sc_next_id s + 1\<rparr>)" by (simp add: task_id_new_def)
  have "task_ids (s\<lparr>sc_next_id := sc_next_id s + 1\<rparr>) = task_ids s" by (rule task_ids_cong) simp_all
  then show "sched_inv (s\<lparr>sc_next_id := sc_next_id s + 1\<rparr>)"
    using assms unfolding sched_inv_def by (auto simp: word_less_Suc intro: less_imp_le)
  show "sc_next_id s \<notin># task_ids s" using assms(1) unfolding sched_inv_def by (metis less_irrefl)
qed

text \<open>Adding a task with a fresh identifier below the counter to a ready queue.\<close>

lemma sched_inv_push:
  assumes "sched_inv s" and "push_ready s c t = Some s'" and "t_id t \<notin># task_ids s" and "t_id t < sc_next_id s"
  shows "sched_inv s'" and "task_ids s' = add_mset (t_id t) (task_ids s)"
proof -
  note ps = push_ready_spec [OF assms(2)]
  show ids: "task_ids s' = add_mset (t_id t) (task_ids s)" by (rule ps(1))
  from ps(2) obtain q where s': "s' = put_queue s c (q\<lparr>cq_ready := cq_ready q @ [t]\<rparr>)" by blast
  show "sched_inv s'"
    using assms(1,3,4) unfolding sched_inv_def ids by (auto simp: s' count_eq_zero_iff)
qed

subsection \<open>Placement\<close>

lemma least_loaded_scan_min:
  "\<exists>c. least_loaded_scan qs i b n = c \<and>
    (if \<exists>q\<in>set qs. task_count q < n
     then i \<le> c \<and> c < i + length qs \<and> task_count (qs ! (c - i)) < n \<and> (\<forall>q\<in>set qs. task_count (qs ! (c - i)) \<le> task_count q)
     else c = b)"
proof (induction qs arbitrary: i b n)
  case (Cons q qs)
  let ?n = "if task_count q < n then task_count q else n" and ?b = "if task_count q < n then i else b"
  define c where "c = least_loaded_scan qs (i + 1) ?b ?n"
  have scan: "least_loaded_scan (q # qs) i b n = c" by (simp add: c_def)
  note ih = Cons.IH [of "i + 1" ?b ?n, folded c_def]
  show ?case
  proof (cases "\<exists>r\<in>set qs. task_count r < ?n")
    case True
    with ih have c: "i + 1 \<le> c" "c < i + 1 + length qs" "task_count (qs ! (c - (i + 1))) < ?n"
      "\<forall>r\<in>set qs. task_count (qs ! (c - (i + 1))) \<le> task_count r" by (simp_all only: if_True) blast+
    moreover have "(q # qs) ! (c - i) = qs ! (c - (i + 1))" using c(1) by (simp add: nth_Cons')
    ultimately show ?thesis unfolding scan by (intro exI [of _ c]) (auto split: if_splits)
  next
    case False
    with ih have "c = ?b" by (simp only: if_False) blast
    then show ?thesis unfolding scan using False by (intro exI [of _ c]) (auto split: if_splits)
  qed
qed simp

text \<open>The chosen CPU exists and no CPU has fewer tasks (a queue shorter than \<open>usize::MAX\<close>).\<close>

lemma least_loaded_cpu_min:
  assumes "sched_inv s" and "total_task_count s < MAX_TASKS"
  shows "least_loaded_cpu s < length (sc_cpus s)"
    and "\<forall>q\<in>set (sc_cpus s). task_count (sc_cpus s ! least_loaded_cpu s) \<le> task_count q"
proof -
  have "task_count q < 2 ^ 64 - 1" if "q \<in> set (sc_cpus s)" for q
  proof -
    have "task_count q \<le> sum_list (map task_count (sc_cpus s))" using that by (intro member_le_sum_list) auto
    also have "\<dots> < 256" using assms(2) by (simp add: total_task_count_def MAX_TASKS_def)
    finally show ?thesis by simp
  qed
  moreover have "sc_cpus s \<noteq> []" using assms(1) by (auto simp: sched_inv_def MAX_CPUS_def)
  ultimately have "\<exists>q\<in>set (sc_cpus s). task_count q < 2 ^ 64 - 1" by (meson list.set_sel(1))
  then show "least_loaded_cpu s < length (sc_cpus s)"
    "\<forall>q\<in>set (sc_cpus s). task_count (sc_cpus s ! least_loaded_cpu s) \<le> task_count q"
    using least_loaded_scan_min [of "sc_cpus s" 0 0 "2 ^ 64 - 1"] unfolding least_loaded_cpu_def by (simp_all only: if_True) auto
qed

subsection \<open>Every operation returns and keeps the invariant\<close>

text \<open>\<open>keeps s s'\<close>: the invariant holds in \<open>s'\<close>, with the tasks and the counter of \<open>s\<close>.\<close>

definition keeps :: "sched \<Rightarrow> sched \<Rightarrow> bool" where
  "keeps s s' \<longleftrightarrow> sched_inv s' \<and> task_ids s' = task_ids s \<and> sc_next_id s' = sc_next_id s"

lemma keeps_refl [simp]: "keeps s s \<longleftrightarrow> sched_inv s"
  by (simp add: keeps_def)

lemma keeps_trans: "keeps s t \<Longrightarrow> keeps t u \<Longrightarrow> keeps s u"
  by (simp add: keeps_def)

lemma sched_inv_cpus: "sched_inv s \<Longrightarrow> length (sc_cpus s) = MAX_CPUS"
  by (simp add: sched_inv_def)

lemma queue_at_ok: "sched_inv s \<Longrightarrow> c < MAX_CPUS \<Longrightarrow> queue_at s c = Some (sc_cpus s ! c)"
  by (simp add: queue_at_def sched_inv_cpus)

text \<open>Replacing a queue by one with the same tasks, and changes elsewhere that touch no task.\<close>

lemma keeps_put_queue:
  assumes "sched_inv s" and "queue_at s c = Some q" and "queue_ids q' = queue_ids q"
  shows "keeps s (put_queue s c q')"
proof -
  have ids: "task_ids (put_queue s c q') = task_ids s" using put_queue_ids [OF assms(2), of q'] assms(3) by simp
  then show ?thesis unfolding keeps_def by (auto intro!: sched_inv_same_blocked [OF assms(1)])
qed

lemma keeps_fields [simp]:
  "keeps s (s'\<lparr>sc_current_id := x\<rparr>) \<longleftrightarrow> keeps s s'" "keeps s (s'\<lparr>sc_switch := y\<rparr>) \<longleftrightarrow> keeps s s'"
  "keeps s (s'\<lparr>sc_ipis := z\<rparr>) \<longleftrightarrow> keeps s s'" "keeps s (s'\<lparr>sc_locks := l\<rparr>) \<longleftrightarrow> keeps s s'"
  "keeps s (s'\<lparr>sc_freed := f\<rparr>) \<longleftrightarrow> keeps s s'"
  by (simp_all add: keeps_def sched_inv_def task_ids_def)

lemma spawn_task_from_ok:
  assumes "sched_inv s" and "t_id t \<notin># task_ids s" and "t_id t < sc_next_id s"
  shows "\<exists>r s'. spawn_task_from s t = Some (r, s') \<and> sched_inv s' \<and> sc_next_id s' = sc_next_id s \<and>
    (if total_task_count s \<ge> MAX_TASKS then r = Inl () \<and> s' = s
     else r = Inr (t_id t) \<and> task_ids s' = add_mset (t_id t) (task_ids s))"
proof (cases "total_task_count s \<ge> MAX_TASKS")
  case True
  then show ?thesis using assms(1) by (simp add: spawn_task_from_def)
next
  case False
  then have "least_loaded_cpu s < length (sc_cpus s)" using least_loaded_cpu_min(1) [OF assms(1)] by simp
  then obtain s' where p: "push_ready s (least_loaded_cpu s) t = Some s'" using push_ready_ok by blast
  have "sc_next_id s' = sc_next_id s" using push_ready_spec(2) [OF p] by auto
  then show ?thesis using False p sched_inv_push [OF assms(1) p assms(2,3)] by (simp add: spawn_task_from_def)
qed

lemma spawn_task_on_current_ok:
  assumes "sched_inv s" and "t_id t \<notin># task_ids s" and "t_id t < sc_next_id s" and "cpu < MAX_CPUS"
  shows "\<exists>r s'. spawn_task_on_current cpu s t = Some (r, s') \<and> sched_inv s' \<and> sc_next_id s' = sc_next_id s \<and>
    (if total_task_count s \<ge> MAX_TASKS then r = Inl () \<and> s' = s
     else r = Inr (t_id t) \<and> task_ids s' = add_mset (t_id t) (task_ids s))"
proof (cases "total_task_count s \<ge> MAX_TASKS")
  case True
  then show ?thesis using assms(1) by (simp add: spawn_task_on_current_def)
next
  case False
  obtain s' where p: "push_ready s cpu t = Some s'" using push_ready_ok sched_inv_cpus assms(1,4) by metis
  have "sc_next_id s' = sc_next_id s" using push_ready_spec(2) [OF p] by auto
  then show ?thesis using False p sched_inv_push [OF assms(1) p assms(2,3)] by (simp add: spawn_task_on_current_def)
qed

lemma ids_once:
  assumes "sched_inv s" and "task_ids s = add_mset tid m"
  shows "tid \<notin># m" and "tid < sc_next_id s"
proof -
  have "count (task_ids s) tid \<le> 1" "tid \<in># task_ids s \<longrightarrow> tid < sc_next_id s"
    using assms(1) by (simp_all add: sched_inv_def)
  then show "tid \<notin># m" "tid < sc_next_id s" using assms(2) by (simp_all add: count_eq_zero_iff)
qed

text \<open>A task taken from the blocked queue and pushed on a ready queue.\<close>

lemma keeps_unblock:
  assumes inv: "sched_inv s" and pos: "position (\<lambda>t. t_id t = tid) (sc_blocked s) = Some pos"
    and s1: "s1 = s\<lparr>sc_blocked := remove_at pos (sc_blocked s), sc_blocked_cpu := m\<rparr>"
    and m: "m = sc_blocked_cpu s \<or> m = bt_remove tid (sc_blocked_cpu s)"
    and t: "t_id t = tid" and c: "c < MAX_CPUS"
  shows "\<exists>s'. push_ready s1 c t = Some s' \<and> keeps s s'"
proof -
  note rm = mset_ids_remove_at [OF pos]
  have ids: "task_ids s = add_mset tid (task_ids s1)" by (simp add: s1 task_ids_def rm(1))
  have wf: "bt_wf (sc_blocked_cpu s)" using inv by (simp add: sched_inv_def)
  note tid = ids_once(1) [OF inv ids]
  have inv1: "sched_inv s1"
  proof (rule sched_inv_shrink [OF inv])
    show "task_ids s1 \<subseteq># task_ids s" by (simp add: ids)
    show "unat c < MAX_CPUS" if "bt_get (sc_blocked_cpu s1) k = Some c" for k c
      using that m inv wf by (auto simp: s1 sched_inv_def split: if_splits)
    show "bt_get (sc_blocked_cpu s1) (t_id u) \<noteq> None" if "u \<in> set (sc_blocked s1)" for u
    proof -
      have "t_id u \<in># task_ids s1" using that by (auto simp: task_ids_def)
      then have "t_id u \<noteq> tid" using tid by auto
      moreover have "u \<in> set (sc_blocked s)" using that set_remove_at_subset by (fastforce simp: s1)
      ultimately show ?thesis using m inv wf by (auto simp: s1 sched_inv_def)
    qed
  qed (use m wf in \<open>auto simp: s1\<close>)
  obtain s' where p: "push_ready s1 c t = Some s'" using push_ready_ok sched_inv_cpus [OF inv1] c by metis
  have "tid < sc_next_id s1" using ids_once(2) [OF inv ids] by (simp add: s1)
  then have "sched_inv s'" "task_ids s' = add_mset tid (task_ids s1)"
    using sched_inv_push [OF inv1 p] tid t by simp_all
  moreover have "sc_next_id s' = sc_next_id s" using push_ready_spec(2) [OF p] by (auto simp: s1)
  ultimately show ?thesis using p ids by (simp add: keeps_def)
qed

lemma keeps_ipi [simp]: "keeps s (send_ipi_to_cpu s' c) \<longleftrightarrow> keeps s s'"
  by (simp add: send_ipi_to_cpu_def split: option.split)

lemma wake_task_ok:
  assumes inv: "sched_inv s" and cpu: "cpu < MAX_CPUS"
  shows "\<exists>s'. wake_task_by_id cpu s tid = Some s' \<and> keeps s s'"
proof (cases "position (\<lambda>t. t_id t = tid) (sc_blocked s)")
  case None
  then show ?thesis using inv by (simp add: wake_task_by_id_def)
next
  case (Some pos)
  define c where "c = (case bt_get (sc_blocked_cpu s) tid of Some c \<Rightarrow> unat c | None \<Rightarrow> cpu)"
  have c: "c < MAX_CPUS" using inv cpu by (auto simp: c_def sched_inv_def split: option.split)
  obtain s' where "push_ready (s\<lparr>sc_blocked := remove_at pos (sc_blocked s), sc_blocked_cpu := bt_remove tid (sc_blocked_cpu s)\<rparr>)
      c ((sc_blocked s ! pos)\<lparr>t_state := Ready\<rparr>) = Some s'" "keeps s s'"
    using keeps_unblock [OF inv Some refl disjI2 [OF refl] _ c, of "(sc_blocked s ! pos)\<lparr>t_state := Ready\<rparr>"]
      mset_ids_remove_at(2) [OF Some] by auto
  then show ?thesis using Some by (simp add: wake_task_by_id_def Let_def c_def [symmetric])
qed

lemma unblock_current_ok:
  assumes inv: "sched_inv s" and cpu: "cpu < MAX_CPUS"
  shows "\<exists>s'. unblock_current cpu s = Some s' \<and> keeps s s'"
proof -
  let ?q = "sc_cpus s ! cpu"
  consider "cq_current ?q = None" | tid where "cq_current ?q = Some tid" "position (\<lambda>t. t_id t = tid) (sc_blocked s) = None"
    | tid pos where "cq_current ?q = Some tid" "position (\<lambda>t. t_id t = tid) (sc_blocked s) = Some pos"
    by (metis option.exhaust)
  then show ?thesis
  proof cases
    case (3 tid pos)
    have "s\<lparr>sc_blocked := remove_at pos (sc_blocked s)\<rparr> = s\<lparr>sc_blocked := remove_at pos (sc_blocked s), sc_blocked_cpu := sc_blocked_cpu s\<rparr>"
      by simp
    from keeps_unblock [OF inv 3(2) this disjI1 [OF refl] _ cpu, of "(sc_blocked s ! pos)\<lparr>t_state := Ready\<rparr>"]
    show ?thesis using 3 mset_ids_remove_at(2) [OF 3(2)] queue_at_ok [OF inv cpu] by (simp add: unblock_current_def Let_def)
  qed (use inv queue_at_ok [OF inv cpu] in \<open>simp_all add: unblock_current_def\<close>)
qed

lemma block_task_ok:
  assumes inv: "sched_inv s" and cpu: "cpu < MAX_CPUS" and q: "queue_at s cpu = Some q"
  shows "keeps s (block_task cpu s q tid ctx)"
proof (cases "position (\<lambda>t. t_id t = tid) (cq_ready q)")
  case None
  then show ?thesis using inv by (simp add: block_task_def)
next
  case (Some pos)
  let ?t = "(cq_ready q ! pos)\<lparr>t_state := Blocked, t_context := Some ctx\<rparr>"
  let ?s1 = "put_queue s cpu (q\<lparr>cq_ready := remove_at pos (cq_ready q)\<rparr>)"
  let ?s' = "?s1\<lparr>sc_blocked_cpu := bt_insert tid (of_nat cpu) (sc_blocked_cpu s), sc_blocked := sc_blocked s @ [?t]\<rparr>"
  have s': "block_task cpu s q tid ctx = ?s'" using Some by (simp add: block_task_def)
  note rm = mset_ids_remove_at [OF Some]
  have "task_ids ?s1 + queue_ids q = task_ids s + queue_ids (q\<lparr>cq_ready := remove_at pos (cq_ready q)\<rparr>)"
    by (rule put_queue_ids [OF q])
  then have "add_mset tid (task_ids ?s1) = task_ids s" by (simp add: queue_ids_def rm(1))
  moreover have "task_ids ?s' = add_mset tid (task_ids ?s1)" using rm(2) by (simp add: task_ids_def)
  ultimately have ids: "task_ids ?s' = task_ids s" by simp
  have wf: "bt_wf (sc_blocked_cpu s)" using inv by (simp add: sched_inv_def)
  have c: "unat (of_nat cpu :: u32) = cpu" using cpu by (intro unat_of_nat_small) (simp add: MAX_CPUS_def)
  have "sched_inv ?s'"
    by (rule sched_inv_shrink [OF inv])
      (use ids wf inv cpu rm(2) in \<open>auto simp: sched_inv_def c split: if_splits\<close>)
  then show ?thesis using s' ids by (simp add: keeps_def)
qed

lemma switch_next_ok:
  assumes inv: "sched_inv s" and cpu: "cpu < MAX_CPUS"
  shows "\<exists>r s'. switch_next cpu s = Some (r, s') \<and> keeps s s'"
proof -
  let ?q = "sc_cpus s ! cpu"
  note q = queue_at_ok [OF inv cpu]
  show ?thesis
  proof (cases "cq_ready ?q")
    case Nil
    then show ?thesis using inv q by (simp add: switch_next_def ex_bool_eq)
  next
    case (Cons t ts)
    have "keeps s (put_queue s cpu \<lparr>cq_ready = ts @ [t\<lparr>t_state := Running\<rparr>], cq_current = Some (t_id t)\<rparr>)"
      by (rule keeps_put_queue [OF inv q]) (simp add: queue_ids_def Cons)
    then show ?thesis using Cons q by (simp add: switch_next_def Let_def ex_bool_eq split: option.split)
  qed
qed

lemma block_and_switch_ok:
  assumes inv: "sched_inv s" and cpu: "cpu < MAX_CPUS"
  shows "\<exists>r s'. block_and_switch cpu s ctx = Some (r, s') \<and> keeps s s'"
proof (cases "cq_current (sc_cpus s ! cpu)")
  case None
  then show ?thesis using inv queue_at_ok [OF inv cpu] by (simp add: block_and_switch_def ex_bool_eq)
next
  case (Some tid)
  note q = queue_at_ok [OF inv cpu]
  let ?s = "block_task cpu s (sc_cpus s ! cpu) tid ctx"
  have k: "keeps s ?s" by (rule block_task_ok [OF inv cpu q])
  then have "sched_inv ?s" by (simp add: keeps_def)
  from switch_next_ok [OF this cpu] show ?thesis
    using Some q keeps_trans [OF k] by (auto simp: block_and_switch_def)
qed

lemma last_max_idx_low: "\<forall>t\<in>set ts. t_priority t < p \<Longrightarrow> last_max_idx ts i b p = b"
  by (induction ts i b p rule: last_max_idx.induct) auto

lemma last_max_idx_spec:
  "\<exists>t\<in>set ts. p \<le> t_priority t \<Longrightarrow> \<exists>k<length ts. last_max_idx ts i b p = i + k \<and>
     (\<forall>t\<in>set ts. t_priority t \<le> t_priority (ts ! k)) \<and> (\<forall>j<length ts. k < j \<longrightarrow> t_priority (ts ! j) < t_priority (ts ! k))"
proof (induction ts arbitrary: i b p)
  case (Cons t ts)
  let ?b = "if p \<le> t_priority t then i else b" and ?p = "if p \<le> t_priority t then t_priority t else p"
  have step: "last_max_idx (t # ts) i b p = last_max_idx ts (i + 1) ?b ?p" by simp
  show ?case
  proof (cases "\<exists>u\<in>set ts. ?p \<le> t_priority u")
    case True
    from Cons.IH [OF this, of "i + 1" ?b] obtain k where k: "k < length ts"
      "last_max_idx ts (i + 1) ?b ?p = i + 1 + k" "\<forall>u\<in>set ts. t_priority u \<le> t_priority (ts ! k)"
      "\<forall>j<length ts. k < j \<longrightarrow> t_priority (ts ! j) < t_priority (ts ! k)" by blast
    have "t_priority t \<le> t_priority (ts ! k)" using True k(3) by (force split: if_splits)
    then show ?thesis unfolding step using k
      by (intro exI [of _ "Suc k"]) (auto simp: nth_Cons split: nat.split)
  next
    case False
    then have lt: "\<forall>u\<in>set ts. t_priority u < ?p" by (simp add: not_le)
    then have "last_max_idx ts (i + 1) ?b ?p = ?b" by (rule last_max_idx_low)
    moreover have p: "p \<le> t_priority t" using Cons.prems lt by (force split: if_splits)
    ultimately show ?thesis unfolding step using lt
      by (intro exI [of _ 0]) (auto simp: nth_Cons split: nat.split)
  qed
qed simp

text \<open>The scheduled task has the highest priority and is the last one of that priority in the queue.\<close>

lemma max_priority_idx_spec:
  assumes "ts \<noteq> []"
  shows "max_priority_idx ts < length ts"
    and "\<forall>t\<in>set ts. t_priority t \<le> t_priority (ts ! max_priority_idx ts)"
    and "\<forall>j<length ts. max_priority_idx ts < j \<longrightarrow> t_priority (ts ! j) < t_priority (ts ! max_priority_idx ts)"
proof -
  have "\<exists>t\<in>set ts. 0 \<le> t_priority t" using assms by (cases ts) auto
  from last_max_idx_spec [OF this, of 0 0]
  show "max_priority_idx ts < length ts"
    "\<forall>t\<in>set ts. t_priority t \<le> t_priority (ts ! max_priority_idx ts)"
    "\<forall>j<length ts. max_priority_idx ts < j \<longrightarrow> t_priority (ts ! j) < t_priority (ts ! max_priority_idx ts)"
    by (auto simp: max_priority_idx_def)
qed

lemma schedule_next_ok:
  assumes inv: "sched_inv s" and cpu: "cpu < MAX_CPUS"
  shows "\<exists>r s'. schedule_next_local s cpu = Some (r, s') \<and> keeps s s'"
proof -
  let ?q = "sc_cpus s ! cpu"
  note q = queue_at_ok [OF inv cpu]
  show ?thesis
  proof (cases "cq_ready ?q = []")
    case True
    then show ?thesis using inv q by (simp add: schedule_next_local_def)
  next
    case False
    let ?i = "max_priority_idx (cq_ready ?q)"
    have "mset (cq_ready ?q) = add_mset (cq_ready ?q ! ?i) (mset (remove_at ?i (cq_ready ?q)))"
      using max_priority_idx_spec(1) [OF False] by (simp add: mset_remove_at)
    then have "keeps s (put_queue s cpu \<lparr>cq_ready = remove_at ?i (cq_ready ?q) @ [(cq_ready ?q ! ?i)\<lparr>t_state := Running\<rparr>],
        cq_current = Some (t_id (cq_ready ?q ! ?i))\<rparr>)"
      by (intro keeps_put_queue [OF inv q]) (simp add: queue_ids_def)
    then show ?thesis using False q by (simp add: schedule_next_local_def Let_def)
  qed
qed

lemma in_queue_ok:
  assumes inv: "sched_inv s" and cpu: "cpu < MAX_CPUS" and f: "\<And>t. t_id (snd (f t)) = t_id t"
  shows "\<exists>r s'. in_queue s cpu tid f = Some (r, s') \<and> keeps s s'"
proof -
  note q = queue_at_ok [OF inv cpu]
  show ?thesis
  proof (cases "find_mut (\<lambda>t. t_id t = tid) f (cq_ready (sc_cpus s ! cpu))")
    case None
    then show ?thesis using inv q by (simp add: in_queue_def)
  next
    case (Some p)
    then obtain r ts where fm: "find_mut (\<lambda>t. t_id t = tid) f (cq_ready (sc_cpus s ! cpu)) = Some (r, ts)" by (cases p) auto
    have "mset (map t_id ts) = mset (map t_id (cq_ready (sc_cpus s ! cpu)))" using find_mut_ids [OF fm f] by simp
    then have "keeps s (put_queue s cpu ((sc_cpus s ! cpu)\<lparr>cq_ready := ts\<rparr>))"
      by (intro keeps_put_queue [OF inv q]) (simp add: queue_ids_def)
    then show ?thesis using fm q by (simp add: in_queue_def)
  qed
qed

lemma in_queues_ok:
  assumes inv: "sched_inv s" and f: "\<And>t. t_id (snd (f t)) = t_id t"
  shows "\<forall>c\<in>set cs. c < MAX_CPUS \<Longrightarrow> \<exists>r s'. in_queues cs s tid f = Some (r, s') \<and> keeps s s'"
proof (induction cs)
  case (Cons c cs)
  obtain r s' where q: "in_queue s c tid f = Some (r, s')" "keeps s s'"
    using in_queue_ok [OF inv _ f, of c tid] Cons.prems by auto
  show ?case using q Cons by (cases r) auto
qed (use inv in simp)

lemma in_blocked_ok:
  assumes inv: "sched_inv s" and f: "\<And>t. t_id (snd (f t)) = t_id t"
  shows "keeps s (snd (in_blocked s tid f))"
proof (cases "find_mut (\<lambda>t. t_id t = tid) f (sc_blocked s)")
  case None
  then show ?thesis using inv by (simp add: in_blocked_def)
next
  case (Some p)
  then obtain r ts where fm: "find_mut (\<lambda>t. t_id t = tid) f (sc_blocked s) = Some (r, ts)" by (cases p) auto
  note ids = find_mut_ids [OF fm f]
  have "task_ids (s\<lparr>sc_blocked := ts\<rparr>) = task_ids s" by (rule task_ids_cong) (simp_all add: ids)
  moreover from this have "sched_inv (s\<lparr>sc_blocked := ts\<rparr>)"
    by (intro sched_inv_same_blocked [OF inv]) (simp_all add: ids del: set_map)
  ultimately show ?thesis using fm by (simp add: in_blocked_def keeps_def)
qed

lemma with_task_mut_ok:
  assumes inv: "sched_inv s" and cpu: "cpu < MAX_CPUS" and f: "\<And>t. t_id (snd (f t)) = t_id t"
  shows "\<exists>r s'. with_task_mut cpu s tid f = Some (r, s') \<and> keeps s s'"
proof -
  have "\<forall>c\<in>set (cpu # filter (\<lambda>i. i \<noteq> cpu) [0..<MAX_CPUS]). c < MAX_CPUS" using cpu by auto
  then obtain r s' where q: "in_queues (cpu # filter (\<lambda>i. i \<noteq> cpu) [0..<MAX_CPUS]) s tid f = Some (r, s')" "keeps s s'"
    using in_queues_ok [OF inv f] by blast
  have "keeps s (snd (in_blocked s tid f))" by (rule in_blocked_ok [OF inv f])
  then show ?thesis using q unfolding with_task_mut_def by (cases r; cases "in_blocked s tid f") simp_all
qed

lemma migrate_task_ok:
  assumes inv: "sched_inv s"
  shows "\<exists>r s'. migrate_task s tid from_cpu to_cpu = Some (r, s') \<and> keeps s s'"
proof (cases "from_cpu \<ge> MAX_CPUS \<or> to_cpu \<ge> MAX_CPUS \<or> position (\<lambda>t. t_id t = tid) (cq_ready (sc_cpus s ! from_cpu)) = None")
  case True
  then show ?thesis using inv queue_at_ok [OF inv] by (auto simp: migrate_task_def not_le ex_bool_eq)
next
  case False
  let ?q = "sc_cpus s ! from_cpu"
  obtain pos where pos: "position (\<lambda>t. t_id t = tid) (cq_ready ?q) = Some pos" using False by auto
  note rm = mset_ids_remove_at [OF pos]
  have q: "queue_at s from_cpu = Some ?q" using False queue_at_ok [OF inv] by simp
  define s1 where "s1 = put_queue s from_cpu (?q\<lparr>cq_ready := remove_at pos (cq_ready ?q)\<rparr>)"
  have ids: "task_ids s = add_mset tid (task_ids s1)"
    using put_queue_ids [OF q, of "?q\<lparr>cq_ready := remove_at pos (cq_ready ?q)\<rparr>"]
    by (simp add: queue_ids_def rm(1) s1_def)
  have inv1: "sched_inv s1" by (rule sched_inv_same_blocked [OF inv]) (simp_all add: s1_def [symmetric] ids, simp_all add: s1_def)
  have "tid \<notin># task_ids s1" "tid < sc_next_id s1" using ids_once [OF inv ids] by (simp_all add: s1_def)
  moreover obtain s' where p: "push_ready s1 to_cpu (cq_ready ?q ! pos) = Some s'"
    using push_ready_ok sched_inv_cpus [OF inv1] False by (metis not_le)
  ultimately have "sched_inv s'" "task_ids s' = task_ids s"
    using sched_inv_push [OF inv1 p] rm(2) ids by simp_all
  moreover have "sc_next_id s' = sc_next_id s" using push_ready_spec(2) [OF p] by (auto simp: s1_def)
  ultimately show ?thesis using False pos p q by (simp add: migrate_task_def s1_def [symmetric] keeps_def ex_bool_eq)
qed

lemma steal_ok:
  assumes inv: "sched_inv s" and cpu: "cpu < MAX_CPUS"
  shows "\<exists>r s'. steal_from_migration cpu s = Some (r, s') \<and> keeps s s'"
proof (cases "sc_migration s")
  case Nil
  then show ?thesis using inv by (simp add: steal_from_migration_def ex_bool_eq)
next
  case (Cons t ts)
  let ?s = "s\<lparr>sc_migration := ts\<rparr>"
  have ids: "task_ids s = add_mset (t_id t) (task_ids ?s)" by (simp add: task_ids_def Cons)
  have inv1: "sched_inv ?s" by (rule sched_inv_same_blocked [OF inv]) (simp_all add: ids)
  obtain s' where p: "push_ready ?s cpu t = Some s'" using push_ready_ok sched_inv_cpus [OF inv1] cpu by metis
  have "t_id t \<notin># task_ids ?s" "t_id t < sc_next_id ?s" using ids_once [OF inv ids] by simp_all
  then have "sched_inv s'" "task_ids s' = task_ids s" using sched_inv_push [OF inv1 p] ids by simp_all
  moreover have "sc_next_id s' = sc_next_id s" using push_ready_spec(2) [OF p] by auto
  ultimately show ?thesis using Cons p by (simp add: steal_from_migration_def keeps_def ex_bool_eq)
qed

text \<open>The task that \<open>terminate_current\<close> removes: the current one, if it is in its CPU's queue.\<close>

definition leaving :: "sched \<Rightarrow> nat \<Rightarrow> u64 option" where
  "leaving s cpu =
     (case cq_current (sc_cpus s ! cpu) of
        Some tid \<Rightarrow> if \<exists>t\<in>set (cq_ready (sc_cpus s ! cpu)). t_id t = tid then Some tid else None
      | None \<Rightarrow> None)"

lemma terminate_ok:
  assumes inv: "sched_inv s" and cpu: "cpu < MAX_CPUS"
  shows "\<exists>s'. terminate_current cpu s status = Some s' \<and> sched_inv s' \<and> sc_next_id s' = sc_next_id s \<and>
    task_ids s = task_ids s' + (case leaving s cpu of Some tid \<Rightarrow> {#tid#} | None \<Rightarrow> {#})"
proof (cases "leaving s cpu")
  case None
  then have "terminate_current cpu s status = Some s"
    using queue_at_ok [OF inv cpu]
    by (auto simp: terminate_current_def leaving_def position_None [THEN iffD2] split: option.splits if_splits)
  then show ?thesis using inv None by simp
next
  case (Some tid)
  let ?q = "sc_cpus s ! cpu"
  note q = queue_at_ok [OF inv cpu]
  from Some have cur: "cq_current ?q = Some tid" and "\<exists>t\<in>set (cq_ready ?q). t_id t = tid"
    by (auto simp: leaving_def split: option.splits if_splits)
  then obtain pos where pos: "position (\<lambda>t. t_id t = tid) (cq_ready ?q) = Some pos"
    using position_ex [where p = "\<lambda>t. t_id t = tid"] by blast
  note rm = mset_ids_remove_at [OF pos]
  let ?t = "cq_ready ?q ! pos"
  define s1 where "s1 = put_queue s cpu (?q\<lparr>cq_ready := remove_at pos (cq_ready ?q)\<rparr>)"
  define s2 where "s2 = (let s = s1\<lparr>sc_locks := release_all_for_task (sc_locks s) tid\<rparr> in
    case t_page_table ?t of Some p \<Rightarrow> s\<lparr>sc_freed := sc_freed s @ [p]\<rparr> | None \<Rightarrow> s)"
  have ids: "task_ids s = add_mset tid (task_ids s1)"
    using put_queue_ids [OF q, of "?q\<lparr>cq_ready := remove_at pos (cq_ready ?q)\<rparr>"]
    by (simp add: queue_ids_def rm(1) s1_def)
  have "sched_inv s1" by (rule sched_inv_same_blocked [OF inv]) (simp_all add: s1_def [symmetric] ids, simp_all add: s1_def)
  then have k: "keeps s1 s2" by (simp add: s2_def Let_def split: option.split)
  have t: "terminate_current cpu s status =
      (case t_parent_id ?t of Some p \<Rightarrow> wake_task_by_id cpu s2 p | None \<Rightarrow> Some s2)"
    using q cur pos by (cases "t_parent_id ?t"; cases "t_page_table ?t") (simp_all add: terminate_current_def Let_def s2_def s1_def)
  have "sched_inv s2" using k by (simp add: keeps_def)
  then obtain s' where s': "terminate_current cpu s status = Some s'" "keeps s2 s'"
    using wake_task_ok [OF _ cpu] unfolding t by (cases "t_parent_id ?t") auto
  then have "keeps s1 s'" using keeps_trans [OF k] by blast
  then show ?thesis using s'(1) ids Some by (simp add: keeps_def s1_def)
qed

subsection \<open>Runs\<close>

datatype sched_op =
    Op_spawn rstr u8
  | Op_spawn_from task
  | Op_spawn_here nat task
  | Op_set_current nat u64
  | Op_schedule nat
  | Op_wake nat u64
  | Op_unblock nat
  | Op_block nat saved_context
  | Op_terminate nat u64
  | Op_priority nat u64 u8
  | Op_migrate u64 nat nat
  | Op_steal nat

text \<open>One call. A task that is spawned ready-made has drawn its identifier from \<open>TaskId::new\<close>.\<close>

fun sched_step :: "sched \<Rightarrow> sched_op \<Rightarrow> sched panics" where
  "sched_step s (Op_spawn name p) = map_option snd (spawn_task s name p)"
| "sched_step s (Op_spawn_from t) =
     (let (tid, s) = task_id_new s in map_option snd (spawn_task_from s (t\<lparr>t_id := tid\<rparr>)))"
| "sched_step s (Op_spawn_here cpu t) =
     (let (tid, s) = task_id_new s in map_option snd (spawn_task_on_current cpu s (t\<lparr>t_id := tid\<rparr>)))"
| "sched_step s (Op_set_current cpu tid) = set_current_task cpu s tid"
| "sched_step s (Op_schedule cpu) = map_option snd (schedule_next_local s cpu)"
| "sched_step s (Op_wake cpu tid) = wake_task_by_id cpu s tid"
| "sched_step s (Op_unblock cpu) = unblock_current cpu s"
| "sched_step s (Op_block cpu ctx) = map_option snd (block_and_switch cpu s ctx)"
| "sched_step s (Op_terminate cpu status) = terminate_current cpu s status"
| "sched_step s (Op_priority cpu tid p) = map_option snd (set_task_priority cpu s tid p)"
| "sched_step s (Op_migrate tid a b) = map_option snd (migrate_task s tid a b)"
| "sched_step s (Op_steal cpu) = map_option snd (steal_from_migration cpu s)"

fun op_cpu :: "sched_op \<Rightarrow> nat" where
  "op_cpu (Op_spawn_here cpu t) = cpu"
| "op_cpu (Op_set_current cpu tid) = cpu"
| "op_cpu (Op_schedule cpu) = cpu"
| "op_cpu (Op_wake cpu tid) = cpu"
| "op_cpu (Op_unblock cpu) = cpu"
| "op_cpu (Op_block cpu ctx) = cpu"
| "op_cpu (Op_terminate cpu status) = cpu"
| "op_cpu (Op_priority cpu tid p) = cpu"
| "op_cpu (Op_steal cpu) = cpu"
| "op_cpu _ = 0"

text \<open>The identifiers that a call adds and removes.\<close>

fun spawns :: "sched_op \<Rightarrow> bool" where
  "spawns (Op_spawn name p) = True"
| "spawns (Op_spawn_from t) = True"
| "spawns (Op_spawn_here cpu t) = True"
| "spawns _ = False"

definition born :: "sched \<Rightarrow> sched_op \<Rightarrow> u64 multiset" where
  "born s opn = (if spawns opn \<and> total_task_count s < MAX_TASKS then {#sc_next_id s#} else {#})"

definition gone :: "sched \<Rightarrow> sched_op \<Rightarrow> u64 multiset" where
  "gone s opn =
     (case opn of Op_terminate cpu status \<Rightarrow> (case leaving s cpu of Some tid \<Rightarrow> {#tid#} | None \<Rightarrow> {#}) | _ \<Rightarrow> {#})"

definition step_ok :: "sched \<Rightarrow> sched_op \<Rightarrow> bool" where
  "step_ok s opn \<longleftrightarrow> (\<exists>s'. sched_step s opn = Some s' \<and> sched_inv s' \<and> task_ids s' + gone s opn = task_ids s + born s opn
     \<and> unat (sc_next_id s') \<le> Suc (unat (sc_next_id s)))"

lemma keeps_step_ok: "sched_step s opn = Some s' \<Longrightarrow> keeps s s' \<Longrightarrow> \<not> spawns opn \<Longrightarrow> gone s opn = {#} \<Longrightarrow> step_ok s opn"
  by (simp add: step_ok_def keeps_def born_def)

lemma spawn_step_ok:
  assumes inv: "sched_inv s" and room: "sc_next_id s \<noteq> - 1" and op: "spawns opn" and cpu: "op_cpu opn < MAX_CPUS"
  shows "step_ok s opn"
proof -
  let ?s = "s\<lparr>sc_next_id := sc_next_id s + 1\<rparr>" and ?n = "sc_next_id s"
  note new = task_id_new_spec [OF inv room]
  have ids: "task_ids ?s = task_ids s" by (rule task_ids_cong) simp_all
  have tot: "total_task_count ?s = total_task_count s" by (simp add: total_task_count_def)
  have lt: "?n < sc_next_id ?s" using room by (simp add: word_less_Suc)
  have from_ok: "\<exists>s'. map_option snd (spawn_task_from ?s t) = Some s' \<and> sched_inv s' \<and> sc_next_id s' = ?n + 1 \<and>
      task_ids s' = task_ids s + born s opn" if "t_id t = ?n" for t
    using spawn_task_from_ok [OF new(2), of t] new(3) ids tot lt that op by (auto simp: born_def split: if_splits)
  have here_ok: "\<exists>s'. map_option snd (spawn_task_on_current c ?s t) = Some s' \<and> sched_inv s' \<and> sc_next_id s' = ?n + 1 \<and>
      task_ids s' = task_ids s + born s opn" if "t_id t = ?n" "c < MAX_CPUS" for t c
    using spawn_task_on_current_ok [OF new(2), of t c] new(3) ids tot lt that op by (auto simp: born_def split: if_splits)
  have g: "gone s opn = {#}" using op by (cases opn) (simp_all add: gone_def)
  have "\<exists>s'. sched_step s opn = Some s' \<and> sched_inv s' \<and> sc_next_id s' = ?n + 1 \<and> task_ids s' = task_ids s + born s opn"
  proof (cases opn)
    case (Op_spawn name p)
    then show ?thesis using from_ok [of "task_new ?n name p"] new(1) by (simp add: spawn_task_def task_new_def)
  next
    case (Op_spawn_from t)
    then show ?thesis using from_ok [of "t\<lparr>t_id := ?n\<rparr>"] new(1) by simp
  next
    case (Op_spawn_here c t)
    then show ?thesis using here_ok [of "t\<lparr>t_id := ?n\<rparr>" c] new(1) cpu by simp
  qed (use op in auto)
  then show ?thesis using g unat_Suc_id [OF room] by (auto simp: step_ok_def)
qed

lemma set_current_ok:
  assumes "sched_inv s" and "cpu < MAX_CPUS"
  shows "\<exists>s'. set_current_task cpu s tid = Some s' \<and> keeps s s'"
proof -
  let ?s = "s\<lparr>sc_current_id := tid\<rparr>"
  have k: "keeps s ?s" using assms(1) by simp
  then have inv: "sched_inv ?s" by (simp add: keeps_def)
  have "keeps ?s (put_queue ?s cpu ((sc_cpus s ! cpu)\<lparr>cq_current := Some tid\<rparr>))"
    by (rule keeps_put_queue [OF inv queue_at_ok [OF inv assms(2)]]) (simp add: queue_ids_def)
  then show ?thesis using keeps_trans [OF k] queue_at_ok [OF inv assms(2)] by (auto simp: set_current_task_def)
qed

lemma sched_step_ok:
  assumes inv: "sched_inv s" and room: "sc_next_id s \<noteq> - 1" and cpu: "op_cpu opn < MAX_CPUS"
  shows "step_ok s opn"
proof -
  note ok = keeps_step_ok
  show ?thesis
  proof (cases opn)
    case (Op_set_current c tid)
    then show ?thesis using set_current_ok [OF inv, of c tid] cpu by (auto intro!: ok simp: gone_def)
  next
    case (Op_schedule c)
    then show ?thesis using schedule_next_ok [OF inv, of c] cpu by (auto intro!: ok simp: gone_def)
  next
    case (Op_wake c tid)
    then show ?thesis using wake_task_ok [OF inv, of c tid] cpu by (auto intro!: ok simp: gone_def)
  next
    case (Op_unblock c)
    then show ?thesis using unblock_current_ok [OF inv, of c] cpu by (auto intro!: ok simp: gone_def)
  next
    case (Op_block c ctx)
    then show ?thesis using block_and_switch_ok [OF inv, of c ctx] cpu by (auto intro!: ok simp: gone_def)
  next
    case (Op_terminate c st)
    then show ?thesis using terminate_ok [OF inv, of c st] cpu by (auto simp: step_ok_def gone_def born_def)
  next
    case (Op_priority c tid p)
    then obtain r s' where "with_task_mut c s tid (\<lambda>t. ((), t\<lparr>t_priority := p\<rparr>)) = Some (r, s')" "keeps s s'"
      using with_task_mut_ok [OF inv, of c "\<lambda>t. ((), t\<lparr>t_priority := p\<rparr>)" tid] cpu by auto
    then show ?thesis using Op_priority by (auto intro!: ok simp: gone_def set_task_priority_def)
  next
    case (Op_migrate tid a b)
    then show ?thesis using migrate_task_ok [OF inv, of tid a b] by (auto intro!: ok simp: gone_def)
  next
    case (Op_steal c)
    then show ?thesis using steal_ok [OF inv, of c] cpu by (auto intro!: ok simp: gone_def)
  qed (use spawn_step_ok [OF inv room _ cpu] in auto)
qed

text \<open>What a run adds and removes.\<close>

fun history :: "sched \<Rightarrow> sched_op list \<Rightarrow> u64 multiset \<times> u64 multiset" where
  "history s [] = ({#}, {#})"
| "history s (opn # ops) =
     (case sched_step s opn of
        None \<Rightarrow> ({#}, {#})
      | Some s' \<Rightarrow> (born s opn + fst (history s' ops), gone s opn + snd (history s' ops)))"

lemma sched_run_ok:
  assumes "sched_inv s" and "\<forall>opn\<in>set ops. op_cpu opn < MAX_CPUS" and "unat (sc_next_id s) + length ops < 2 ^ 64"
  shows "\<exists>s'. run_ops sched_step s ops = Some s' \<and> sched_inv s' \<and>
    task_ids s' + snd (history s ops) = task_ids s + fst (history s ops)"
  using assms
proof (induction ops arbitrary: s)
  case (Cons opn ops)
  have "sc_next_id s \<noteq> - 1"
    using Cons.prems(3) by (auto simp: unsigned_minus_1_eq_mask mask_eq_exp_minus_1)
  then obtain t where t: "sched_step s opn = Some t" "sched_inv t" "task_ids t + gone s opn = task_ids s + born s opn"
    "unat (sc_next_id t) \<le> Suc (unat (sc_next_id s))"
    using sched_step_ok [OF Cons.prems(1)] Cons.prems(2) unfolding step_ok_def by auto
  then obtain s' where s': "run_ops sched_step t ops = Some s'" "sched_inv s'"
    "task_ids s' + snd (history t ops) = task_ids t + fst (history t ops)"
    using Cons.IH [of t] Cons.prems(2,3) by auto
  have "task_ids s' + (gone s opn + snd (history t ops)) = (task_ids t + gone s opn) + fst (history t ops)"
    using s'(3) by (simp add: algebra_simps)
  then show ?case using t s' by (simp add: algebra_simps)
qed simp

subsection \<open>The task limit\<close>

definition running_cpus :: "sched \<Rightarrow> nat" where
  "running_cpus s = length (filter (\<lambda>q. cq_current q \<noteq> None) (sc_cpus s))"

lemma total_task_count_eq: "total_task_count s = size (task_ids s) + running_cpus s"
proof -
  have "sum_list (map task_count qs) = size (sum_list (map queue_ids qs)) + length (filter (\<lambda>q. cq_current q \<noteq> None) qs)" for qs
    by (induction qs) (simp_all add: task_count_def queue_ids_def)
  then show ?thesis by (simp add: total_task_count_def task_ids_def running_cpus_def)
qed

lemma history_limit:
  assumes "sched_inv s" and "\<forall>opn\<in>set ops. op_cpu opn < MAX_CPUS" and "unat (sc_next_id s) + length ops < 2 ^ 64"
    and "size (task_ids s) \<le> MAX_TASKS" and "run_ops sched_step s ops = Some s'"
  shows "size (task_ids s') \<le> MAX_TASKS"
  using assms
proof (induction ops arbitrary: s)
  case (Cons opn ops)
  have "sc_next_id s \<noteq> - 1"
    using Cons.prems(3) by (auto simp: unsigned_minus_1_eq_mask mask_eq_exp_minus_1)
  then obtain t where t: "sched_step s opn = Some t" "sched_inv t" "task_ids t + gone s opn = task_ids s + born s opn"
    "unat (sc_next_id t) \<le> Suc (unat (sc_next_id s))"
    using sched_step_ok [OF Cons.prems(1)] Cons.prems(2) unfolding step_ok_def by auto
  have "size (task_ids t) + size (gone s opn) = size (task_ids s) + size (born s opn)"
    using t(3) by (metis size_union)
  moreover have "size (task_ids s) + size (born s opn) \<le> MAX_TASKS"
    using Cons.prems(4) total_task_count_eq [of s] by (simp add: born_def)
  ultimately show ?case using Cons.IH [of t] Cons.prems t by simp
qed simp

subsection \<open>Blocked and back\<close>

lemma switch_next_cases:
  assumes "switch_next cpu s = Some (b, s')"
  obtains (idle) q where "queue_at s cpu = Some q" "cq_ready q = []" "b = False" "s' = s"
    | (front) q t ts sw where "queue_at s cpu = Some q" "cq_ready q = t # ts" "b = (t_context t \<noteq> None)"
      "s' = (put_queue s cpu \<lparr>cq_ready = ts @ [t\<lparr>t_state := Running\<rparr>], cq_current = Some (t_id t)\<rparr>)
          \<lparr>sc_current_id := t_id t, sc_switch := sw\<rparr>"
proof -
  obtain q where q: "queue_at s cpu = Some q" using assms by (auto simp: switch_next_def bind_eq_Some_conv)
  show thesis
  proof (cases "cq_ready q")
    case Nil
    then have "b = False" "s' = s" using assms q by (simp_all add: switch_next_def)
    then show ?thesis by (rule idle [OF q Nil])
  next
    case (Cons t ts)
    let ?s = "(put_queue s cpu \<lparr>cq_ready = ts @ [t\<lparr>t_state := Running\<rparr>], cq_current = Some (t_id t)\<rparr>)\<lparr>sc_current_id := t_id t\<rparr>"
    show ?thesis
    proof (cases "t_context t")
      case None
      then have "b = False" "s' = ?s\<lparr>sc_switch := sc_switch ?s\<rparr>" using assms q Cons by (simp_all add: switch_next_def Let_def)
      then show ?thesis using None by (intro front [OF q Cons]) simp_all
    next
      case (Some ctx)
      then obtain x where "b = True" "s' = ?s\<lparr>sc_switch := x\<rparr>" using assms q Cons by (auto simp: switch_next_def Let_def)
      then show ?thesis using Some by (intro front [OF q Cons]) simp_all
    qed
  qed
qed

text \<open>After \<open>block_and_switch\<close> the task is in the blocked queue with the given context, and its CPU is recorded.\<close>

lemma block_and_switch_blocks:
  assumes inv: "sched_inv s" and cpu: "cpu < MAX_CPUS" and l: "leaving s cpu = Some tid"
    and r: "block_and_switch cpu s ctx = Some (b, s')"
  shows "\<exists>t. t_id t = tid \<and> t_context t = Some ctx \<and> t_state t = Blocked \<and> sc_blocked s' = sc_blocked s @ [t]"
    and "bt_get (sc_blocked_cpu s') tid = Some (of_nat cpu)"
proof -
  let ?q = "sc_cpus s ! cpu"
  note q = queue_at_ok [OF inv cpu]
  from l have cur: "cq_current ?q = Some tid" and "\<exists>t\<in>set (cq_ready ?q). t_id t = tid"
    by (auto simp: leaving_def split: option.splits if_splits)
  then obtain pos where pos: "position (\<lambda>t. t_id t = tid) (cq_ready ?q) = Some pos"
    using position_ex [where p = "\<lambda>t. t_id t = tid"] by blast
  let ?t = "(cq_ready ?q ! pos)\<lparr>t_state := Blocked, t_context := Some ctx\<rparr>"
  define s1 where "s1 = block_task cpu s ?q tid ctx"
  have s1: "sc_blocked s1 = sc_blocked s @ [?t]" "bt_get (sc_blocked_cpu s1) tid = Some (of_nat cpu)"
    using pos by (simp_all add: s1_def block_task_def)
  have sw: "switch_next cpu s1 = Some (b, s')" using r q cur by (simp add: block_and_switch_def s1_def)
  then have "sc_blocked s' = sc_blocked s1 \<and> sc_blocked_cpu s' = sc_blocked_cpu s1"
    by (cases rule: switch_next_cases) simp_all
  then show "\<exists>t. t_id t = tid \<and> t_context t = Some ctx \<and> t_state t = Blocked \<and> sc_blocked s' = sc_blocked s @ [t]"
    "bt_get (sc_blocked_cpu s') tid = Some (of_nat cpu)"
    using s1 mset_ids_remove_at(2) [OF pos] by auto
qed

lemma leaving_not_blocked:
  assumes inv: "sched_inv s" and cpu: "cpu < MAX_CPUS" and l: "leaving s cpu = Some tid"
  shows "\<forall>t\<in>set (sc_blocked s). t_id t \<noteq> tid"
proof (rule ccontr)
  assume "\<not> (\<forall>t\<in>set (sc_blocked s). t_id t \<noteq> tid)"
  then have b: "tid \<in># image_mset t_id (mset (sc_blocked s))" by auto
  let ?q = "sc_cpus s ! cpu"
  have r: "tid \<in># queue_ids ?q" using l by (auto simp: leaving_def queue_ids_def split: option.splits if_splits)
  let ?s = "put_queue s cpu (?q\<lparr>cq_ready := []\<rparr>)"
  have "task_ids ?s + queue_ids ?q = task_ids s"
    using put_queue_ids [OF queue_at_ok [OF inv cpu], of "?q\<lparr>cq_ready := []\<rparr>"] by (simp add: queue_ids_def)
  moreover have "tid \<in># task_ids ?s" using b by (simp add: task_ids_def)
  ultimately have "count (task_ids s) tid \<ge> 1 + 1"
    using r by (metis add_mono count_greater_eq_one_iff count_union)
  then show False using inv unfolding sched_inv_def by (metis not_less_eq_eq one_add_one Suc_1 One_nat_def)
qed

lemma position_snoc: "\<forall>x\<in>set xs. \<not> p x \<Longrightarrow> p y \<Longrightarrow> position p (xs @ [y]) = Some (length xs)"
  by (induction xs) auto

lemma remove_at_snoc: "remove_at (length xs) (xs @ [y]) = xs"
  by (simp add: remove_at_def)

lemma no_task_no_status:
  assumes "tid \<notin># task_ids s"
  shows "get_exit_status s tid = None"
proof -
  have no: "find_task ts tid = None" if "tid \<notin># image_mset t_id (mset ts)" for ts
    using that by (auto simp: find_task_def find_None_iff)
  have "exit_status_in qs tid = None" if "tid \<notin># sum_list (map queue_ids qs)" for qs
    using that by (induction qs) (auto simp: queue_ids_def no)
  then have "exit_status_in (sc_cpus s) tid = None" using assms by (simp add: task_ids_def)
  moreover have "find_task (sc_blocked s) tid = None" using assms by (intro no) (simp add: task_ids_def)
  ultimately show ?thesis by (simp add: get_exit_status_def)
qed

end
