(* ===== verification/Sched_Props.thy ===== *)
theory Sched_Props
  imports Scheduler
begin

text \<open>
  The properties of the scheduler: conservation of tasks, the task limit, blocking and waking, and what
  its callers see of exit statuses, of equal priorities and of the current task.
\<close>

subsection \<open>A concrete state\<close>

text \<open>CPU 0 runs task 0, with task 1 waiting behind it.\<close>

definition duo :: sched where
  "duo = sched_boot\<lparr>sc_cpus := (sc_cpus sched_boot)[0 :=
     \<lparr>cq_ready = [task_new 0 (str ''a'') 5, (task_new 1 (str ''b'') 5)\<lparr>t_context := Some saved_context_new, t_parent_id := Some 0\<rparr>],
      cq_current = Some 0\<rparr>], sc_next_id := 2\<rparr>"

lemma duo_ids: "task_ids duo = {#0, 1#}"
  by (simp add: duo_def sched_boot_def task_ids_def queue_ids_def cpu_queue_new_def task_new_def MAX_CPUS_def numeral_eq_Suc)

lemma duo_inv: "sched_inv duo"
  unfolding sched_inv_def duo_ids by (auto simp: duo_def sched_boot_def)

lemma duo_leaving: "leaving duo 0 = Some 0"
  by (simp add: leaving_def duo_def sched_boot_def MAX_CPUS_def task_new_def)

subsection \<open>Starvation\<close>

fun schedule_n :: "nat \<Rightarrow> sched \<Rightarrow> nat \<Rightarrow> u64 option list panics" where
  "schedule_n 0 s cpu = Some []"
| "schedule_n (Suc n) s cpu = do {
     (r, s') \<leftarrow> schedule_next_local s cpu;
     rs \<leftarrow> schedule_n n s' cpu;
     Some (r # rs) }"

lemma max_priority_idx_last:
  assumes "\<forall>u\<in>set ts. t_priority u \<le> t_priority t"
  shows "max_priority_idx (ts @ [t]) = length ts"
proof (rule ccontr)
  let ?i = "max_priority_idx (ts @ [t])"
  assume "?i \<noteq> length ts"
  moreover have "?i < length (ts @ [t])" using max_priority_idx_spec(1) [of "ts @ [t]"] by simp
  ultimately have i: "?i < length ts" by simp
  then have "t_priority ((ts @ [t]) ! length ts) < t_priority ((ts @ [t]) ! ?i)"
    using max_priority_idx_spec(3) [of "ts @ [t]", rule_format, of "length ts"] by simp
  then show False using assms i by (auto simp: nth_append not_le [symmetric])
qed

subsection \<open>Properties\<close>





text \<open>The number of tasks never exceeds \<open>MAX_TASKS\<close> in any run. The count that \<open>spawn\<close> compares with the limit is
  not that number: it is larger by one for every CPU that has a current task, because the current task stays in its
  ready queue and is counted twice, so spawning is refused early.\<close>

theorem sched_task_limit:
  assumes "sched_inv s" and "\<forall>opn\<in>set ops. op_cpu opn < MAX_CPUS" and "unat (sc_next_id s) + length ops < 2 ^ 64"
    and "size (task_ids s) \<le> MAX_TASKS" and "run_ops sched_step s ops = Some s'"
  shows "size (task_ids s') \<le> MAX_TASKS \<and> total_task_count s' = size (task_ids s') + running_cpus s'"
  using history_limit [OF assms] total_task_count_eq by blast

theorem sched_task_limit_witness:
  "\<exists>s'. run_ops sched_step duo [Op_spawn (str ''c'') 1] = Some s' \<and> size (task_ids s') \<le> MAX_TASKS"
proof -
  let ?ops = "[Op_spawn (str ''c'') 1]"
  have c: "\<forall>opn\<in>set ?ops. op_cpu opn < MAX_CPUS" by (simp add: MAX_CPUS_def)
  have n: "unat (sc_next_id duo) + length ?ops < 2 ^ 64" by (simp add: duo_def)
  have z: "size (task_ids duo) \<le> MAX_TASKS"
    by (simp add: duo_ids MAX_TASKS_def)
  obtain s' where r: "run_ops sched_step duo ?ops = Some s'" using sched_run_ok [OF duo_inv c n] by blast
  show ?thesis using sched_task_limit [OF duo_inv c n z r] r by blast
qed

text \<open>C40: Starvation. A call of \<open>schedule_next_local\<close> takes the last task of the highest priority and puts it back at the
  end of the queue, so when the last task of the queue has the highest priority, every later call chooses it again, for
  ever, whatever tasks of the same priority wait before it.\<close>

theorem schedule_starves:
  assumes "queue_at s cpu = Some q" and "cq_ready q = ts @ [t]" and "\<forall>u\<in>set ts. t_priority u \<le> t_priority t"
  shows "schedule_n n s cpu = Some (replicate n (Some (t_id t)))"
  using assms
proof (induction n arbitrary: s q t)
  case (Suc n)
  let ?t = "t\<lparr>t_state := Running\<rparr>"
  let ?q = "\<lparr>cq_ready = ts @ [?t], cq_current = Some (t_id t)\<rparr>"
  let ?s = "(put_queue s cpu ?q)\<lparr>sc_current_id := t_id t\<rparr>"
  have r: "schedule_next_local s cpu = Some (Some (t_id t), ?s)"
    using Suc.prems(1,2) max_priority_idx_last [OF Suc.prems(3)]
    by (simp add: schedule_next_local_def Let_def remove_at_snoc)
  have "queue_at ?s cpu = Some ?q" using queue_at_put [OF Suc.prems(1), of ?q cpu] by (auto simp: queue_at_Some)
  then have "schedule_n n ?s cpu = Some (replicate n (Some (t_id t)))"
    using Suc.IH [of ?s ?q ?t] Suc.prems(3) by simp
  then show ?case using r by simp
qed simp

theorem schedule_starves_witness: "schedule_n 9 duo 0 = Some (replicate 9 (Some 1))"
proof -
  have "queue_at duo 0 = Some \<lparr>cq_ready = [task_new 0 (str ''a'') 5] @ [(task_new 1 (str ''b'') 5)\<lparr>t_context := Some saved_context_new, t_parent_id := Some 0\<rparr>],
      cq_current = Some 0\<rparr>" by (simp add: queue_at_def duo_def sched_boot_def MAX_CPUS_def)
  from schedule_starves [OF this, of "[task_new 0 (str ''a'') 5]" _ 9] show ?thesis by (simp add: task_new_def)
qed

text \<open>The exit status is lost. Once \<open>terminate_current\<close> has removed the current task, \<open>get_exit_status\<close> of that task is
  \<open>None\<close>, the answer for a task still running: the status that was passed is in no queue.\<close>

theorem exit_status_lost:
  assumes "sched_inv s" and "cpu < MAX_CPUS" and "leaving s cpu = Some tid"
  shows "\<exists>s'. terminate_current cpu s status = Some s' \<and> get_exit_status s' tid = None"
proof -
  obtain s' where s': "terminate_current cpu s status = Some s'" "sched_inv s'" "task_ids s = add_mset tid (task_ids s')"
    using terminate_ok [OF assms(1,2), of status] assms(3) by auto
  then show ?thesis using no_task_no_status ids_once(1) [OF assms(1) s'(3)] by blast
qed

theorem exit_status_lost_witness: "\<exists>s'. terminate_current 0 duo 42 = Some s' \<and> get_exit_status s' 0 = None"
  using exit_status_lost [OF duo_inv _ duo_leaving, of 42] by (simp add: MAX_CPUS_def)

text \<open>The current task identifier is shared by all CPUs. A context switch on one CPU changes what
  \<open>current_task_id\<close> returns on every CPU, while the current task of each other CPU is unchanged.\<close>

theorem current_task_id_shared:
  assumes "sched_inv s" and "cpu < MAX_CPUS" and "other \<noteq> cpu" and "block_and_switch cpu s ctx = Some (True, s')"
  shows "cq_current (sc_cpus s' ! cpu) = Some (current_task_id s')
    \<and> cq_current (sc_cpus s' ! other) = cq_current (sc_cpus s ! other)"
proof -
  let ?q = "sc_cpus s ! cpu"
  note q = queue_at_ok [OF assms(1,2)]
  obtain tid where tid: "cq_current ?q = Some tid" using assms(4) q by (cases "cq_current ?q") (auto simp: block_and_switch_def)
  define s1 where "s1 = block_task cpu s ?q tid ctx"
  have o1: "sc_cpus s1 ! other = sc_cpus s ! other" "length (sc_cpus s1) = length (sc_cpus s)"
    using assms(3) by (auto simp: s1_def block_task_def put_queue_def Let_def split: option.split)
  have "switch_next cpu s1 = Some (True, s')" using assms(4) q tid by (simp add: block_and_switch_def s1_def)
  then show ?thesis
  proof (cases rule: switch_next_cases)
    case (front q t ts sw)
    then show ?thesis using o1 assms(3) by (auto simp: put_queue_def current_task_id_def queue_at_Some)
  qed simp
qed

theorem current_task_id_shared_witness:
  "\<exists>s'. block_and_switch 0 duo saved_context_new = Some (True, s') \<and> current_task_id s' = 1
     \<and> cq_current (sc_cpus s' ! 3) = cq_current (sc_cpus duo ! 3)"
proof -
  have "\<exists>s'. block_and_switch 0 duo saved_context_new = Some (True, s') \<and> current_task_id s' = 1"
    by (simp add: block_and_switch_def queue_at_def duo_def sched_boot_def MAX_CPUS_def task_new_def block_task_def Let_def
        put_queue_def switch_next_def remove_at_def current_task_id_def)
  then obtain s' where r: "block_and_switch 0 duo saved_context_new = Some (True, s')" "current_task_id s' = 1" by blast
  show ?thesis using current_task_id_shared [OF duo_inv _ _ r(1), of 3] r by (simp add: MAX_CPUS_def)
qed

end
