(* ===== verification/Sched_Lookup.thy ===== *)
theory Sched_Lookup
  imports Scheduler
begin

text \<open>
  What the callers of the scheduler see of the tasks: the lookups \<open>with_task\<close>, \<open>with_task_mut\<close>,
  \<open>with_current_task\<close> and \<open>with_current_task_mut\<close> find the task with the given identifier among the ready
  and blocked ones, change that task only, and leave the rest of the scheduler as it was.
\<close>

declare split_paired_All [simp del] split_paired_Ex [simp del]

definition ready_tasks :: "sched \<Rightarrow> task multiset" where
  "ready_tasks s = sum_list (map (\<lambda>q. mset (cq_ready q)) (sc_cpus s))"

text \<open>The tasks that a lookup by identifier can find; those in the migration queue are not among them.\<close>

definition visible :: "sched \<Rightarrow> task multiset" where
  "visible s = ready_tasks s + mset (sc_blocked s)"

text \<open>The tasks that a lookup of the current task can find on \<open>cpu\<close>.\<close>

definition at_hand :: "nat \<Rightarrow> sched \<Rightarrow> task multiset" where
  "at_hand cpu s = mset (cq_ready (sc_cpus s ! cpu)) + mset (sc_blocked s)"

lemma image_sum_list: "image_mset f (sum_list xs) = sum_list (map (image_mset f) xs)"
  by (induction xs) simp_all

lemma task_ids_visible: "task_ids s = image_mset t_id (visible s) + image_mset t_id (mset (sc_migration s))"
  by (simp add: task_ids_def visible_def ready_tasks_def queue_ids_def [abs_def] image_sum_list comp_def)

lemma visible_unique:
  assumes inv: "sched_inv s" and t: "t \<in># visible s" and u: "u \<in># visible s" and eq: "t_id t = t_id u"
  shows "t = u"
proof (rule ccontr)
  assume "t \<noteq> u"
  then obtain m where "visible s = add_mset t (add_mset u m)"
    using t u by (metis insert_DiffM insert_noteq_member)
  then have "count (task_ids s) (t_id u) \<ge> 2" by (simp add: task_ids_visible eq)
  then show False using inv unfolding sched_inv_def by (metis not_less_eq_eq numeral_2_eq_2 One_nat_def)
qed

lemma subset_sum_list: "x \<in> set xs \<Longrightarrow> x \<subseteq># sum_list xs"
proof (induction xs)
  case (Cons a xs)
  then show ?case by (cases "x = a") (simp_all add: subset_mset.add_increasing)
qed simp

lemma at_hand_visible:
  assumes "sched_inv s" and "cpu < MAX_CPUS" and "t \<in># at_hand cpu s"
  shows "t \<in># visible s"
proof -
  have "mset (cq_ready (sc_cpus s ! cpu)) \<subseteq># ready_tasks s"
    unfolding ready_tasks_def by (rule subset_sum_list) (use sched_inv_cpus [OF assms(1)] assms(2) in auto)
  then show ?thesis using assms(3) by (auto simp: at_hand_def visible_def dest: mset_subset_eqD)
qed

subsection \<open>Searching\<close>

lemma find_mut_None: "find_mut p f ts = None \<longleftrightarrow> (\<forall>t\<in>set ts. \<not> p t)"
  by (induction ts) auto

lemma find_mut_Some:
  "find_mut p f ts = Some (r, ts') \<Longrightarrow> \<exists>t\<in>set ts. p t \<and> r = fst (f t) \<and> snd (f t) \<in> set ts' \<and>
     mset ts' + {#t#} = mset ts + {#snd (f t)#}"
proof (induction ts arbitrary: ts')
  case (Cons x xs)
  show ?case
  proof (cases "p x")
    case True
    then show ?thesis using Cons.prems by auto
  next
    case False
    then obtain ys where ys: "find_mut p f xs = Some (r, ys)" "ts' = x # ys" using Cons.prems by auto
    from Cons.IH [OF ys(1)] show ?thesis using ys(2) by auto
  qed
qed simp

text \<open>\<open>s'\<close> is \<open>s\<close> with the task \<open>t\<close> replaced by \<open>u\<close> where it stands.\<close>

definition edits :: "sched \<Rightarrow> sched \<Rightarrow> task \<Rightarrow> task \<Rightarrow> bool" where
  "edits s s' t u \<longleftrightarrow> keeps s s' \<and> visible s' + {#t#} = visible s + {#u#} \<and> sc_migration s' = sc_migration s
     \<and> map t_id (sc_blocked s') = map t_id (sc_blocked s) \<and> sc_blocked_cpu s' = sc_blocked_cpu s
     \<and> map cq_current (sc_cpus s') = map cq_current (sc_cpus s) \<and> sc_current_id s' = sc_current_id s
     \<and> sc_switch s' = sc_switch s \<and> sc_percpu s' = sc_percpu s \<and> sc_ipis s' = sc_ipis s
     \<and> sc_locks s' = sc_locks s \<and> sc_freed s' = sc_freed s"

lemma put_queue_ready:
  assumes "queue_at s c = Some q"
  shows "ready_tasks (put_queue s c q') + mset (cq_ready q) = ready_tasks s + mset (cq_ready q')"
proof -
  let ?g = "\<lambda>q. mset (cq_ready q)"
  have "sum_list (map ?g ((sc_cpus s)[c := q'])) + ?g q = sum_list (map ?g (sc_cpus s)) + ?g q'"
    using assms sum_list_put [of c "map ?g (sc_cpus s)" "?g q'"] by (simp add: map_update queue_at_Some)
  then show ?thesis by (simp add: ready_tasks_def put_queue_def)
qed

lemma in_queue_found:
  assumes inv: "sched_inv s" and cpu: "cpu < MAX_CPUS" and f: "\<And>t. t_id (snd (f t)) = t_id t"
    and t: "t \<in> set (cq_ready (sc_cpus s ! cpu))" "t_id t = tid"
  shows "\<exists>s'. in_queue s cpu tid f = Some (Some (fst (f t)), s') \<and> edits s s' t (snd (f t))
    \<and> snd (f t) \<in> set (cq_ready (sc_cpus s' ! cpu))"
proof -
  let ?q = "sc_cpus s ! cpu" and ?p = "\<lambda>t. t_id t = tid"
  note q = queue_at_ok [OF inv cpu]
  obtain r ts where fm: "find_mut ?p f (cq_ready ?q) = Some (r, ts)"
    using find_mut_None [of ?p f "cq_ready ?q"] t by (cases "find_mut ?p f (cq_ready ?q)") auto
  let ?s = "put_queue s cpu (?q\<lparr>cq_ready := ts\<rparr>)"
  have in_q: "in_queue s cpu tid f = Some (Some r, ?s)" using fm q by (simp add: in_queue_def)
  obtain t' where t': "t' \<in> set (cq_ready ?q)" "t_id t' = tid" "r = fst (f t')" "snd (f t') \<in> set ts"
    "mset ts + {#t'#} = mset (cq_ready ?q) + {#snd (f t')#}" using find_mut_Some [OF fm] by blast
  have "t' = t" using visible_unique [OF inv] at_hand_visible [OF inv cpu] t t' by (simp add: at_hand_def)
  have "ready_tasks ?s + mset (cq_ready ?q) = ready_tasks s + mset ts" using put_queue_ready [OF q, of "?q\<lparr>cq_ready := ts\<rparr>"] by simp
  then have "ready_tasks ?s + {#t#} + mset (cq_ready ?q) = ready_tasks s + {#snd (f t)#} + mset (cq_ready ?q)"
    using t'(5) \<open>t' = t\<close> by (metis add.assoc add.commute)
  then have vis: "visible ?s + {#t#} = visible s + {#snd (f t)#}" by (simp add: visible_def)
  have k: "keeps s ?s" using in_queue_ok [OF inv cpu f, of tid] in_q by auto
  have cur: "map cq_current (sc_cpus ?s) = map cq_current (sc_cpus s)"
    using sched_inv_cpus [OF inv] cpu by (intro nth_equalityI) (auto simp: put_queue_def nth_list_update)
  show ?thesis
    using in_q k vis cur t'(3,4) \<open>t' = t\<close> sched_inv_cpus [OF inv] cpu by (auto simp: edits_def put_queue_def)
qed

lemma in_queue_none:
  assumes "sched_inv s" and "cpu < MAX_CPUS" and "\<forall>t\<in>set (cq_ready (sc_cpus s ! cpu)). t_id t \<noteq> tid"
  shows "in_queue s cpu tid f = Some (None, s)"
  using queue_at_ok [OF assms(1,2)] find_mut_None [of "\<lambda>t. t_id t = tid" f "cq_ready (sc_cpus s ! cpu)"] assms(3)
  by (simp add: in_queue_def)

lemma in_blocked_found:
  assumes inv: "sched_inv s" and f: "\<And>t. t_id (snd (f t)) = t_id t" and t: "t \<in> set (sc_blocked s)" "t_id t = tid"
  shows "\<exists>s'. in_blocked s tid f = (Some (fst (f t)), s') \<and> edits s s' t (snd (f t)) \<and> snd (f t) \<in> set (sc_blocked s')"
proof -
  let ?p = "\<lambda>t. t_id t = tid"
  obtain r ts where fm: "find_mut ?p f (sc_blocked s) = Some (r, ts)"
    using find_mut_None [of ?p f "sc_blocked s"] t by (cases "find_mut ?p f (sc_blocked s)") auto
  let ?s = "s\<lparr>sc_blocked := ts\<rparr>"
  have in_b: "in_blocked s tid f = (Some r, ?s)" using fm by (simp add: in_blocked_def)
  obtain t' where t': "t' \<in> set (sc_blocked s)" "t_id t' = tid" "r = fst (f t')" "snd (f t') \<in> set ts"
    "mset ts + {#t'#} = mset (sc_blocked s) + {#snd (f t')#}" using find_mut_Some [OF fm] by blast
  have "t' = t" using visible_unique [OF inv] t t' by (simp add: visible_def)
  have "keeps s ?s" using in_blocked_ok [OF inv f, of tid] in_b by simp
  moreover have "visible ?s + {#t#} = visible s + {#snd (f t)#}"
    using t'(5) \<open>t' = t\<close> by (simp add: visible_def ready_tasks_def)
  ultimately show ?thesis using in_b t'(3,4) \<open>t' = t\<close> find_mut_ids [OF fm f] by (simp add: edits_def)
qed

lemma in_blocked_none:
  "\<forall>t\<in>set (sc_blocked s). t_id t \<noteq> tid \<Longrightarrow> in_blocked s tid f = (None, s)"
  using find_mut_None [of "\<lambda>t. t_id t = tid" f "sc_blocked s"] by (simp add: in_blocked_def)

subsection \<open>The current task\<close>

lemma with_current_task_mut_found:
  assumes inv: "sched_inv s" and cpu: "cpu < MAX_CPUS" and f: "\<And>t. t_id (snd (f t)) = t_id t"
    and t: "t \<in># at_hand cpu s" "t_id t = current_task_id s"
  shows "\<exists>s'. with_current_task_mut cpu s f = Some (Some (fst (f t)), s') \<and> edits s s' t (snd (f t))
    \<and> snd (f t) \<in># at_hand cpu s'"
proof (cases "t \<in> set (cq_ready (sc_cpus s ! cpu))")
  case True
  from in_queue_found [OF inv cpu f this t(2)] show ?thesis by (auto simp: with_current_task_mut_def at_hand_def)
next
  case False
  then have tb: "t \<in> set (sc_blocked s)" using t(1) by (simp add: at_hand_def)
  have "u = t" if "u \<in> set (cq_ready (sc_cpus s ! cpu))" "t_id u = current_task_id s" for u
    using visible_unique [OF inv] at_hand_visible [OF inv cpu] t that by (simp add: at_hand_def)
  then have "in_queue s cpu (current_task_id s) f = Some (None, s)"
    using False by (intro in_queue_none [OF inv cpu]) auto
  then show ?thesis using in_blocked_found [OF inv f tb t(2)] by (auto simp: with_current_task_mut_def at_hand_def)
qed

lemma with_current_task_mut_none:
  assumes "sched_inv s" and "cpu < MAX_CPUS" and "\<forall>t. t \<in># at_hand cpu s \<longrightarrow> t_id t \<noteq> current_task_id s"
  shows "with_current_task_mut cpu s f = Some (None, s)"
proof -
  have "in_queue s cpu (current_task_id s) f = Some (None, s)"
    using assms(3) by (intro in_queue_none [OF assms(1,2)]) (auto simp: at_hand_def)
  moreover have "in_blocked s (current_task_id s) f = (None, s)"
    using assms(3) by (intro in_blocked_none) (auto simp: at_hand_def)
  ultimately show ?thesis by (simp add: with_current_task_mut_def)
qed

lemma with_current_task_found:
  assumes "sched_inv s" and "cpu < MAX_CPUS" and "t \<in># at_hand cpu s" and "t_id t = current_task_id s"
  shows "with_current_task cpu s f = Some (Some (f t))"
  using with_current_task_mut_found [OF assms(1,2) _ assms(3,4), of "\<lambda>t. (f t, t)"] by (auto simp: with_current_task_def)

lemma with_current_task_none:
  assumes "sched_inv s" and "cpu < MAX_CPUS" and "\<forall>t. t \<in># at_hand cpu s \<longrightarrow> t_id t \<noteq> current_task_id s"
  shows "with_current_task cpu s f = Some None"
  using with_current_task_mut_none [OF assms, of "\<lambda>t. (f t, t)"] by (simp add: with_current_task_def)

subsection \<open>A task by identifier\<close>

lemma in_queues_none:
  assumes "sched_inv s"
  shows "\<forall>c\<in>set cs. c < MAX_CPUS \<and> (\<forall>t\<in>set (cq_ready (sc_cpus s ! c)). t_id t \<noteq> tid) \<Longrightarrow>
    in_queues cs s tid f = Some (None, s)"
  by (induction cs) (simp_all add: in_queue_none [OF assms])

lemma in_queues_found:
  assumes inv: "sched_inv s" and f: "\<And>t. t_id (snd (f t)) = t_id t" and t: "t_id t = tid"
  shows "\<forall>c\<in>set cs. c < MAX_CPUS \<Longrightarrow> \<exists>c\<in>set cs. t \<in> set (cq_ready (sc_cpus s ! c)) \<Longrightarrow>
    \<exists>s'. in_queues cs s tid f = Some (Some (fst (f t)), s') \<and> edits s s' t (snd (f t))"
proof (induction cs)
  case (Cons c cs)
  have c: "c < MAX_CPUS" using Cons.prems(1) by simp
  show ?case
  proof (cases "t \<in> set (cq_ready (sc_cpus s ! c))")
    case True
    from in_queue_found [OF inv c f this t] show ?thesis by auto
  next
    case False
    then obtain d where d: "d \<in> set cs" "t \<in> set (cq_ready (sc_cpus s ! d))" using Cons.prems(2) by auto
    then have tv: "t \<in># visible s" using at_hand_visible [OF inv, of d t] Cons.prems(1) by (simp add: at_hand_def)
    have "u = t" if "u \<in> set (cq_ready (sc_cpus s ! c))" "t_id u = tid" for u
      using visible_unique [OF inv _ tv] at_hand_visible [OF inv c] t that by (simp add: at_hand_def)
    then have "in_queue s c tid f = Some (None, s)" using False by (intro in_queue_none [OF inv c]) auto
    then show ?thesis using Cons.IH Cons.prems(1) d by auto
  qed
qed simp

lemma ready_tasks_in: "t \<in># ready_tasks s \<longleftrightarrow> (\<exists>c<length (sc_cpus s). t \<in> set (cq_ready (sc_cpus s ! c)))"
proof -
  have "t \<in># sum_list (map (\<lambda>q. mset (cq_ready q)) qs) \<longleftrightarrow> (\<exists>q\<in>set qs. t \<in> set (cq_ready q))" for qs
    by (induction qs) auto
  then show ?thesis unfolding ready_tasks_def by (metis in_set_conv_nth)
qed

lemma with_task_mut_found:
  assumes inv: "sched_inv s" and cpu: "cpu < MAX_CPUS" and f: "\<And>t. t_id (snd (f t)) = t_id t"
    and t: "t \<in># visible s" "t_id t = tid"
  shows "\<exists>s'. with_task_mut cpu s tid f = Some (Some (fst (f t)), s') \<and> edits s s' t (snd (f t))"
proof -
  let ?cs = "cpu # filter (\<lambda>i. i \<noteq> cpu) [0..<MAX_CPUS]"
  have cs: "\<forall>c\<in>set ?cs. c < MAX_CPUS" "\<And>c. c < MAX_CPUS \<Longrightarrow> c \<in> set ?cs" using cpu by auto
  show ?thesis
  proof (cases "t \<in># ready_tasks s")
    case True
    then have "\<exists>c\<in>set ?cs. t \<in> set (cq_ready (sc_cpus s ! c))" using ready_tasks_in sched_inv_cpus [OF inv] cs(2) by metis
    from in_queues_found [OF inv f t(2) cs(1) this] show ?thesis
      by (auto simp: with_task_mut_def simp del: in_queues.simps)
  next
    case False
    then have tb: "t \<in> set (sc_blocked s)" using t(1) by (simp add: visible_def)
    have "t_id u \<noteq> tid" if "c < MAX_CPUS" "u \<in> set (cq_ready (sc_cpus s ! c))" for c u
    proof
      assume u: "t_id u = tid"
      have "u \<in># ready_tasks s" using that ready_tasks_in sched_inv_cpus [OF inv] by metis
      then show False using visible_unique [OF inv, of u t] t u False by (simp add: visible_def)
    qed
    then have "in_queues ?cs s tid f = Some (None, s)" using cs(1) by (intro in_queues_none [OF inv]) blast
    then show ?thesis using in_blocked_found [OF inv f tb t(2)] 
      by (auto simp: with_task_mut_def simp del: in_queues.simps)
  qed
qed

lemma with_task_mut_none:
  assumes inv: "sched_inv s" and cpu: "cpu < MAX_CPUS" and no: "\<forall>t. t \<in># visible s \<longrightarrow> t_id t \<noteq> tid"
  shows "with_task_mut cpu s tid f = Some (None, s)"
proof -
  have "in_queues (cpu # filter (\<lambda>i. i \<noteq> cpu) [0..<MAX_CPUS]) s tid f = Some (None, s)"
  proof (intro in_queues_none [OF inv] ballI conjI)
    fix c assume "c \<in> set (cpu # filter (\<lambda>i. i \<noteq> cpu) [0..<MAX_CPUS])"
    then show c: "c < MAX_CPUS" using cpu by auto
    fix t assume "t \<in> set (cq_ready (sc_cpus s ! c))"
    then show "t_id t \<noteq> tid" using no at_hand_visible [OF inv c] by (simp add: at_hand_def)
  qed
  moreover have "in_blocked s tid f = (None, s)" using no by (intro in_blocked_none) (auto simp: visible_def)
  ultimately show ?thesis by (simp add: with_task_mut_def del: in_queues.simps)
qed

end
