(* ===== verification/User_Mem.thy ===== *)
theory User_Mem
  imports Shm Sys_Error
begin

text \<open>
  The copies between user space and the kernel of \<open>kernel/src/syscall/mod.rs\<close>. The memory of the active
  address space is a function from addresses to bytes; a raw pointer copy reads or writes consecutive
  addresses, modulo \<open>2^64\<close>. Whether a page is mapped is not represented: an access to an unmapped page
  is a page fault, which is outside these functions. Also the little-endian encoding of integers and
  the UTF-8 check of \<open>core::str::from_utf8\<close>, which the callers use on what they copy.
\<close>

type_synonym memory = "u64 \<Rightarrow> u8"

definition SYS_MAX_MSG_SIZE :: nat where "SYS_MAX_MSG_SIZE = 4096"

text \<open>\<open>ptr::copy_nonoverlapping\<close> from and to user memory.\<close>

definition read_bytes :: "memory \<Rightarrow> u64 \<Rightarrow> nat \<Rightarrow> u8 list" where
  "read_bytes m a n = map (\<lambda>i. m (a + of_nat i)) [0..<n]"

definition write_bytes :: "memory \<Rightarrow> u64 \<Rightarrow> u8 list \<Rightarrow> memory" where
  "write_bytes m a bs = (\<lambda>x. if unat (x - a) < length bs then bs ! unat (x - a) else m x)"

definition copy_from_user :: "memory \<Rightarrow> u64 \<Rightarrow> u64 \<Rightarrow> u8 list option" where
  "copy_from_user m src len =
     (if src = 0 \<or> len = 0 \<or> unat len > SYS_MAX_MSG_SIZE then None
      else if src \<ge> USER_SPACE_MAX then None
      else if sat_add src len > USER_SPACE_MAX then None
      else Some (read_bytes m src (unat len)))"

definition copy_to_user :: "memory \<Rightarrow> u64 \<Rightarrow> u8 list \<Rightarrow> bool \<times> memory" where
  "copy_to_user m dst src =
     (if dst = 0 \<or> src = [] \<or> length src > SYS_MAX_MSG_SIZE then (False, m)
      else if dst \<ge> USER_SPACE_MAX then (False, m)
      else if sat_add dst (of_nat (length src)) > USER_SPACE_MAX then (False, m)
      else (True, write_bytes m dst src))"

text \<open>\<open>u64::to_le_bytes\<close> and \<open>u64::from_le_bytes\<close>.\<close>

definition to_le_bytes :: "u64 \<Rightarrow> u8 list" where
  "to_le_bytes w = map (\<lambda>i. ucast (drop_bit (8 * i) w)) [0..<8]"

definition from_le_bytes :: "u8 list \<Rightarrow> u64" where
  "from_le_bytes bs = fold (\<lambda>i w. w OR push_bit (8 * i) (ucast (bs ! i))) [0..<8] 0"

text \<open>\<open>core::str::from_utf8\<close> succeeds: the table of well-formed byte sequences.\<close>

definition cont :: "u8 \<Rightarrow> bool" where
  "cont b \<longleftrightarrow> 0x80 \<le> b \<and> b \<le> 0xBF"

fun utf8_ok :: "u8 list \<Rightarrow> bool" where
  "utf8_ok [] = True"
| "utf8_ok (b # bs) =
     (if b < 0x80 then utf8_ok bs
      else if 0xC2 \<le> b \<and> b \<le> 0xDF then (case bs of c # cs \<Rightarrow> cont c \<and> utf8_ok cs | _ \<Rightarrow> False)
      else if 0xE0 \<le> b \<and> b \<le> 0xEF then
        (case bs of
           c # d # cs \<Rightarrow>
             cont c \<and> cont d \<and> (b = 0xE0 \<longrightarrow> 0xA0 \<le> c) \<and> (b = 0xED \<longrightarrow> c \<le> 0x9F) \<and> utf8_ok cs
         | _ \<Rightarrow> False)
      else if 0xF0 \<le> b \<and> b \<le> 0xF4 then
        (case bs of
           c # d # e # cs \<Rightarrow>
             cont c \<and> cont d \<and> cont e \<and> (b = 0xF0 \<longrightarrow> 0x90 \<le> c) \<and> (b = 0xF4 \<longrightarrow> c \<le> 0x8F) \<and> utf8_ok cs
         | _ \<Rightarrow> False)
      else False)"

subsection \<open>Lemmas\<close>

lemma length_read_bytes [simp]: "length (read_bytes m a n) = n"
  by (simp add: read_bytes_def)

text \<open>What was written is read back; other bytes stay.\<close>

lemma read_write_bytes:
  assumes "length bs < 2 ^ 64"
  shows "read_bytes (write_bytes m a bs) a (length bs) = bs"
proof (rule nth_equalityI)
  fix i assume "i < length (read_bytes (write_bytes m a bs) a (length bs))"
  then have i: "i < length bs" by simp
  then have "unat (of_nat i :: u64) = i" using assms by (intro unat_of_nat_small) simp
  then show "read_bytes (write_bytes m a bs) a (length bs) ! i = bs ! i"
    using i by (simp add: read_bytes_def write_bytes_def)
qed simp

text \<open>The bytes of a checked range are below the end of user space.\<close>

lemma user_range:
  assumes "a < USER_SPACE_MAX" and "sat_add a (of_nat n) \<le> USER_SPACE_MAX" and "n \<le> SYS_MAX_MSG_SIZE"
  shows "unat a + n \<le> unat USER_SPACE_MAX"
proof -
  have n: "unat (of_nat n :: u64) = n" using assms(3) by (intro unat_of_nat_small) (simp add: SYS_MAX_MSG_SIZE_def)
  have "unat (sat_add a (of_nat n)) \<le> unat USER_SPACE_MAX" using assms(2) by (simp add: word_le_nat_alt)
  then have "min (unat a + n) (2 ^ 64 - 1) \<le> unat USER_SPACE_MAX" by (simp add: unat_sat_add n)
  moreover have "unat USER_SPACE_MAX < 2 ^ 64 - 1" by (simp add: USER_SPACE_MAX_def)
  ultimately show ?thesis by (simp add: min_def split: if_splits)
qed

lemma write_bytes_other:
  assumes "unat a + length bs \<le> unat e" and "e \<le> x"
  shows "write_bytes m a bs x = m x"
proof -
  have "a \<le> x" using assms by (simp add: word_le_nat_alt)
  then have "unat (x - a) = unat x - unat a" by (rule unat_sub)
  then have "\<not> unat (x - a) < length bs" using assms by (auto simp: word_le_nat_alt)
  then show ?thesis by (simp add: write_bytes_def)
qed

lemma copy_to_user_True:
  assumes "copy_to_user m dst src = (True, m')"
  shows "m' = write_bytes m dst src" "unat dst + length src \<le> unat USER_SPACE_MAX" "src \<noteq> []" "length src \<le> SYS_MAX_MSG_SIZE"
  using assms user_range [of dst "length src"] by (auto simp: copy_to_user_def not_le not_less split: if_splits)

lemma copy_to_user_False: "copy_to_user m dst src = (False, m') \<Longrightarrow> m' = m"
  by (auto simp: copy_to_user_def split: if_splits)

lemma copy_from_user_Some:
  assumes "copy_from_user m src len = Some bs"
  shows "bs = read_bytes m src (unat len)" "length bs = unat len" "unat src + unat len \<le> unat USER_SPACE_MAX"
  using assms user_range [of src "unat len"] by (auto simp: copy_from_user_def not_le not_less split: if_splits)

lemma le_byte: "ucast (ucast (drop_bit k w) :: u8) = take_bit 8 (drop_bit k w)" for w :: u64
  by (rule bit_word_eqI) (auto simp: bit_simps)

lemma take_bit_Suc_byte: "take_bit k w OR push_bit k (take_bit 8 (drop_bit k w)) = take_bit (8 + k) w" for w :: u64
  by (rule bit_word_eqI) (auto simp: bit_simps)

lemma fold_le_bytes:
  "fold (\<lambda>i v. v OR push_bit (8 * i) (ucast (ucast (drop_bit (8 * i) w) :: u8))) [0..<n] 0 = take_bit (8 * n) w" for w :: u64
  by (induction n) (simp_all only: upt_Suc_append fold_append le0 fold.simps comp_def id_apply mult_Suc_right le_byte
      take_bit_Suc_byte mult_0_right take_bit_0 upt_0)

lemma from_to_le_bytes: "from_le_bytes (to_le_bytes w) = w"
proof -
  have "from_le_bytes (to_le_bytes w) = fold (\<lambda>i v. v OR push_bit (8 * i) (ucast (ucast (drop_bit (8 * i) w) :: u8))) [0..<8] 0"
    unfolding from_le_bytes_def to_le_bytes_def by (rule fold_cong) auto
  then show ?thesis using take_bit_length_eq [of w] by (simp add: fold_le_bytes)
qed

end
