(* ===== verification/Syscall_Proc.thy ===== *)
theory Syscall_Proc
  imports Sched_Lookup User_Mem
begin

text \<open>
  The system calls of \<open>kernel/src/syscall/mod.rs\<close> that act on tasks: processes, threads, process
  groups, signals, the environment, descriptors and task listing. The state is the scheduler and the
  memory of the active address space. \<open>cpu\<close> is the executing CPU and \<open>ctx\<close> what
  \<open>capture_current_context\<close> returns, the registers saved by the entry stub. An \<open>i64\<close> result is an
  integer; a cast \<open>x as i64\<close> is \<open>sint\<close>.
\<close>

record kst =
  k_sched :: sched
  k_mem :: memory

text \<open>A call returns, or halts the CPU for ever.\<close>

datatype outcome = Ret int | Halted

definition cur_mut :: "nat \<Rightarrow> 'z kst_scheme \<Rightarrow> (task \<Rightarrow> 'r \<times> task) \<Rightarrow> ('r option \<times> 'z kst_scheme) panics" where
  "cur_mut cpu k f = do { (r, s) \<leftarrow> with_current_task_mut cpu (k_sched k) f; Some (r, k\<lparr>k_sched := s\<rparr>) }"

definition task_mut :: "nat \<Rightarrow> 'z kst_scheme \<Rightarrow> u64 \<Rightarrow> (task \<Rightarrow> 'r \<times> task) \<Rightarrow> ('r option \<times> 'z kst_scheme) panics" where
  "task_mut cpu k tid f = do { (r, s) \<leftarrow> with_task_mut cpu (k_sched k) tid f; Some (r, k\<lparr>k_sched := s\<rparr>) }"

definition wake :: "nat \<Rightarrow> 'z kst_scheme \<Rightarrow> u64 \<Rightarrow> 'z kst_scheme panics" where
  "wake cpu k tid = do { s \<leftarrow> wake_task_by_id cpu (k_sched k) tid; Some (k\<lparr>k_sched := s\<rparr>) }"

definition err :: "'z kst_scheme \<Rightarrow> sys_error \<Rightarrow> (int \<times> 'z kst_scheme) panics" where
  "err k e = Some (error_code e, k)"

text \<open>\<open>i64::try_from(x).unwrap_or(d)\<close>.\<close>

definition i64_or :: "u64 \<Rightarrow> int \<Rightarrow> int" where
  "i64_or x d = (if x < 0x8000000000000000 then uint x else d)"

subsection \<open>Processes and threads\<close>

definition sys_process_create :: "nat \<Rightarrow> 'z kst_scheme \<Rightarrow> u64 \<Rightarrow> u64 \<Rightarrow> (int \<times> 'z kst_scheme) panics" where
  "sys_process_create cpu k name_ptr name_len =
     (case copy_from_user (k_mem k) name_ptr name_len of
        None \<Rightarrow> err k BadPointer
      | Some name \<Rightarrow>
          if \<not> utf8_ok name then err k InvalidArgument
          else do {
            (r, s) \<leftarrow> spawn_task_with_id (k_sched k) name 0;
            (case r of
               Inl _ \<Rightarrow> err (k\<lparr>k_sched := s\<rparr>) OutOfMemory
             | Inr task_id \<Rightarrow> do {
                 let creator_id = current_task_id s;
                 (_, k) \<leftarrow> task_mut cpu (k\<lparr>k_sched := s\<rparr>) task_id (\<lambda>t. ((), t\<lparr>t_parent_id := Some creator_id\<rparr>));
                 Some (i64_or task_id (error_code InvalidArgument), k) }) })"

definition sys_process_exit :: "nat \<Rightarrow> 'z kst_scheme \<Rightarrow> u64 \<Rightarrow> (outcome \<times> 'z kst_scheme) panics" where
  "sys_process_exit cpu k status = do {
     s \<leftarrow> terminate_current cpu (k_sched k) status;
     Some (Halted, k\<lparr>k_sched := s\<rparr>) }"

text \<open>The loop of \<open>sys_process_wait\<close>. Between two rounds the CPU halts and other CPUs run: \<open>env n\<close> is the
  scheduler and the tick count that round \<open>n\<close> finds. \<open>None\<close> inside: still waiting after \<open>fuel\<close> rounds.\<close>

fun process_wait_loop :: "nat \<Rightarrow> (nat \<Rightarrow> sched \<times> u64) \<Rightarrow> nat \<Rightarrow> u64 \<Rightarrow> u64 \<Rightarrow> u64 \<Rightarrow> int option panics" where
  "process_wait_loop 0 env n start child timeout = Some None"
| "process_wait_loop (Suc fuel) env n start child timeout =
     (case get_exit_status (fst (env n)) child of
        Some status \<Rightarrow> Some (Some (i64_or status 0))
      | None \<Rightarrow>
          if timeout = 0 then Some (Some (error_code WouldBlock))
          else if timeout = - 1 then process_wait_loop fuel env (Suc n) start child timeout
          else do {
            elapsed \<leftarrow> sub_c (snd (env n)) start;
            if elapsed \<ge> timeout then Some (Some (error_code WouldBlock))
            else process_wait_loop fuel env (Suc n) start child timeout })"

definition sys_thread_create :: "nat \<Rightarrow> 'z kst_scheme \<Rightarrow> u64 \<Rightarrow> u64 \<Rightarrow> u64 \<Rightarrow> (int \<times> 'z kst_scheme) panics" where
  "sys_thread_create cpu k entry_point stack_ptr arg =
     (if entry_point \<ge> USER_SPACE_MAX \<or> entry_point = 0 then err k InvalidArgument
      else if stack_ptr \<ge> USER_SPACE_MAX \<or> stack_ptr = 0 then err k InvalidArgument
      else do {
        parent_info \<leftarrow> with_current_task cpu (k_sched k) (\<lambda>t. (t_page_table t, t_id t));
        (case parent_info of
           None \<Rightarrow> err k InvalidArgument
         | Some (None, _) \<Rightarrow> err k InvalidArgument
         | Some (Some cr3, parent_id) \<Rightarrow>
             (let (tid, s) = task_id_new (k_sched k);
                  new_task = (task_new tid (str ''thread'') 5)
                    \<lparr>t_context := Some ((user_mode entry_point stack_ptr cr3)\<lparr>cx_rdi := arg\<rparr>),
                     t_page_table := Some cr3, t_parent_id := Some parent_id\<rparr>
              in do {
                (r, s) \<leftarrow> spawn_task_from s new_task;
                (case r of
                   Inl _ \<Rightarrow> err (k\<lparr>k_sched := s\<rparr>) OutOfMemory
                 | Inr tid \<Rightarrow> Some (i64_or tid (error_code OutOfMemory), k\<lparr>k_sched := s\<rparr>)) })) })"

definition sys_thread_exit :: "nat \<Rightarrow> 'z kst_scheme \<Rightarrow> saved_context \<Rightarrow> (outcome \<times> 'z kst_scheme) panics" where
  "sys_thread_exit cpu k ctx = do {
     s \<leftarrow> terminate_current cpu (k_sched k) 0;
     (switched, s) \<leftarrow> block_and_switch cpu s ctx;
     Some (if switched then Ret 0 else Halted, k\<lparr>k_sched := s\<rparr>) }"

definition sys_thread_yield :: "nat \<Rightarrow> 'z kst_scheme \<Rightarrow> saved_context \<Rightarrow> (int \<times> 'z kst_scheme) panics" where
  "sys_thread_yield cpu k ctx = do {
     (switched, s) \<leftarrow> block_and_switch cpu (k_sched k) ctx;
     Some (0, k\<lparr>k_sched := s\<rparr>) }"

definition sys_sched_yield :: "nat \<Rightarrow> 'z kst_scheme \<Rightarrow> saved_context \<Rightarrow> (int \<times> 'z kst_scheme) panics" where
  "sys_sched_yield cpu k ctx = do {
     (switched, s) \<leftarrow> block_and_switch cpu (k_sched k) ctx;
     Some (0, k\<lparr>k_sched := s\<rparr>) }"

text \<open>The preemption check at the entry of \<open>handle_syscall_raw\<close>; \<open>need\<close> is the swapped-out flag.\<close>

definition preempt_check :: "nat \<Rightarrow> 'z kst_scheme \<Rightarrow> bool \<Rightarrow> saved_context \<Rightarrow> 'z kst_scheme panics" where
  "preempt_check cpu k need ctx =
     (if need then do { (_, s) \<leftarrow> block_and_switch cpu (k_sched k) ctx; Some (k\<lparr>k_sched := s\<rparr>) } else Some k)"

subsection \<open>Identity and process groups\<close>

definition sys_getpid :: "'z kst_scheme \<Rightarrow> int" where
  "sys_getpid k = sint (current_task_id (k_sched k))"

definition sys_gettid :: "'z kst_scheme \<Rightarrow> int" where
  "sys_gettid k = sint (current_task_id (k_sched k))"

definition sys_getppid :: "nat \<Rightarrow> 'z kst_scheme \<Rightarrow> int panics" where
  "sys_getppid cpu k = do {
     parent \<leftarrow> with_current_task cpu (k_sched k) t_parent_id;
     (case parent of Some (Some pid) \<Rightarrow> Some (sint pid) | _ \<Rightarrow> Some 0) }"

definition sys_setpgid :: "nat \<Rightarrow> 'z kst_scheme \<Rightarrow> u64 \<Rightarrow> u64 \<Rightarrow> (int \<times> 'z kst_scheme) panics" where
  "sys_setpgid cpu k pid pgid =
     (let target_id = (if pid = 0 then current_task_id (k_sched k) else pid);
          new_pgid = (if pgid = 0 then target_id else pgid)
      in do {
        (r, k) \<leftarrow> task_mut cpu k target_id (\<lambda>t. ((), t\<lparr>t_pgid := new_pgid\<rparr>));
        (case r of Some _ \<Rightarrow> Some (0, k) | None \<Rightarrow> err k NotFound) })"

definition sys_getpgid :: "nat \<Rightarrow> 'z kst_scheme \<Rightarrow> u64 \<Rightarrow> int panics" where
  "sys_getpgid cpu k pid =
     (if pid = 0 then do {
        r \<leftarrow> with_current_task cpu (k_sched k) t_pgid;
        Some (case r of Some pgid \<Rightarrow> sint pgid | None \<Rightarrow> error_code NotFound) }
      else do {
        r \<leftarrow> with_task cpu (k_sched k) pid t_pgid;
        Some (case r of Some pgid \<Rightarrow> sint pgid | None \<Rightarrow> error_code NotFound) })"

definition sys_setsid :: "nat \<Rightarrow> 'z kst_scheme \<Rightarrow> (int \<times> 'z kst_scheme) panics" where
  "sys_setsid cpu k =
     (let id_value = current_task_id (k_sched k) in do {
        (r, k) \<leftarrow> cur_mut cpu k (\<lambda>t. ((), t\<lparr>t_sid := id_value, t_pgid := id_value\<rparr>));
        (case r of Some _ \<Rightarrow> Some (sint id_value, k) | None \<Rightarrow> err k NotFound) })"

subsection \<open>Listing tasks\<close>

definition TASK_ENTRY_SIZE :: nat where "TASK_ENTRY_SIZE = 40"

fun state_code :: "task_state \<Rightarrow> u8" where
  "state_code Ready = 0"
| "state_code Running = 1"
| "state_code Blocked = 2"
| "state_code Terminated = 3"

fun list_fill :: "nat \<Rightarrow> task_info list \<Rightarrow> u8 list \<Rightarrow> u8 list panics" where
  "list_fill i [] buf = Some buf"
| "list_fill i (t # ts) buf = (let base = i * TASK_ENTRY_SIZE in do {
     buf \<leftarrow> put_slice base (to_le_bytes (ti_id t)) buf;
     buf \<leftarrow> put_slice (base + 8) [state_code (ti_state t)] buf;
     buf \<leftarrow> put_slice (base + 9) [ti_priority t] buf;
     buf \<leftarrow> put_slice 12 (take (unat (ti_name_len t)) (ti_name t)) buf;
     list_fill (i + 1) ts buf })"

definition sys_list_tasks :: "'z kst_scheme \<Rightarrow> u64 \<Rightarrow> u64 \<Rightarrow> (int \<times> 'z kst_scheme) panics" where
  "sys_list_tasks k buf_ptr buf_len =
     (if buf_ptr = 0 \<or> buf_ptr \<ge> USER_SPACE_MAX then err k BadPointer
      else if sat_add buf_ptr buf_len > USER_SPACE_MAX then err k BadPointer
      else
        let tasks = list_tasks (k_sched k);
            count = length tasks;
            required = count * TASK_ENTRY_SIZE
        in if unat buf_len < required then Some (int count, k)
           else do {
             buf \<leftarrow> list_fill 0 tasks (replicate required 0);
             let (ok, m) = copy_to_user (k_mem k) buf_ptr buf;
             if ok then Some (int count, k\<lparr>k_mem := m\<rparr>) else err k BadPointer })"

end
