(* ===== verification/Syscall_Signal.thy ===== *)
theory Syscall_Signal
  imports Syscall_Proc
begin

text \<open>
  The signal system calls of \<open>kernel/src/syscall/mod.rs\<close>: sending a signal to a task, installing handlers,
  changing the mask, and returning from a handler.
\<close>

text \<open>\<open>u8::try_from(sig)\<close> and the range check that follows it.\<close>

definition sig_arg :: "u64 \<Rightarrow> u8 option" where
  "sig_arg sig = (if sig < 256 \<and> sig \<noteq> 0 \<and> sig \<le> 31 then Some (ucast sig) else None)"

definition sys_kill :: "nat \<Rightarrow> 'z kst_scheme \<Rightarrow> u64 \<Rightarrow> u64 \<Rightarrow> (int \<times> 'z kst_scheme) panics" where
  "sys_kill cpu k pid sig =
     (case sig_arg sig of
        None \<Rightarrow> err k InvalidArgument
      | Some sig_num \<Rightarrow> do {
          (found, k) \<leftarrow> task_mut cpu k pid (\<lambda>t. ((), t\<lparr>t_signal_state := send_signal (t_signal_state t) sig_num\<rparr>));
          (case found of
             Some _ \<Rightarrow> do { k \<leftarrow> wake cpu k pid; Some (0, k) }
           | None \<Rightarrow> err k NotFound) })"

definition set_handler :: "signal_state \<Rightarrow> u8 \<Rightarrow> u64 \<Rightarrow> signal_state" where
  "set_handler g sig_num handler = g\<lparr>sg_handlers := (sg_handlers g)[unat sig_num := handler]\<rparr>"

definition sys_signal :: "nat \<Rightarrow> 'z kst_scheme \<Rightarrow> u64 \<Rightarrow> u64 \<Rightarrow> (int \<times> 'z kst_scheme) panics" where
  "sys_signal cpu k sig handler =
     (case sig_arg sig of
        None \<Rightarrow> err k InvalidArgument
      | Some sig_num \<Rightarrow>
          if sig_num = SIGKILL then err k PermissionDenied
          else do {
            (r, k) \<leftarrow> cur_mut cpu k (\<lambda>t. (sg_handlers (t_signal_state t) ! unat sig_num,
                        t\<lparr>t_signal_state := set_handler (t_signal_state t) sig_num handler\<rparr>));
            (case r of Some old_handler \<Rightarrow> Some (sint old_handler, k) | None \<Rightarrow> err k NotFound) })"

text \<open>The \<open>SignalFrame\<close> in 48 bytes of user memory.\<close>

definition frame_of :: "u8 list \<Rightarrow> signal_frame" where
  "frame_of bs = \<lparr>sf_ret_addr = from_le_bytes (take 8 bs), sf_sig_num = from_le_bytes (take 8 (drop 8 bs)),
     sf_saved_rdi = from_le_bytes (take 8 (drop 16 bs)), sf_saved_rsp = from_le_bytes (take 8 (drop 24 bs)),
     sf_saved_rcx = from_le_bytes (take 8 (drop 32 bs)), sf_saved_r11 = from_le_bytes (take 8 (drop 40 bs))\<rparr>"

definition restore_frame :: "signal_frame \<Rightarrow> task \<Rightarrow> task" where
  "restore_frame f t = t\<lparr>t_context := map_option (\<lambda>ctx. ctx\<lparr>cx_rsp := sf_saved_rsp f, cx_rcx := sf_saved_rcx f,
     cx_r11 := sf_saved_r11 f, cx_rdi := sf_saved_rdi f\<rparr>) (t_context t)\<rparr>"

definition sys_sigreturn :: "nat \<Rightarrow> 'z kst_scheme \<Rightarrow> u64 \<Rightarrow> (int \<times> 'z kst_scheme) panics" where
  "sys_sigreturn cpu k frame_ptr =
     (if frame_ptr = 0 \<or> frame_ptr \<ge> USER_SPACE_MAX then err k BadPointer
      else do {
        let frame = frame_of (read_bytes (k_mem k) frame_ptr 48);
        (_, k) \<leftarrow> cur_mut cpu k (\<lambda>t. ((), restore_frame frame t));
        Some (0, k) })"

text \<open>The change of the mask; an unknown operation is an error, but only when there is a set.\<close>

definition apply_mask :: "u64 \<Rightarrow> u64 option \<Rightarrow> u64 \<Rightarrow> sys_error + u64" where
  "apply_mask how new_mask blocked =
     (case new_mask of
        None \<Rightarrow> Inr blocked
      | Some msk \<Rightarrow>
          if how = SIG_BLOCK then Inr (blocked OR msk)
          else if how = SIG_UNBLOCK then Inr (blocked AND NOT msk)
          else if how = SIG_SETMASK then Inr msk
          else Inl InvalidArgument)"

definition sys_sigprocmask :: "nat \<Rightarrow> 'z kst_scheme \<Rightarrow> u64 \<Rightarrow> u64 \<Rightarrow> u64 \<Rightarrow> (int \<times> 'z kst_scheme) panics" where
  "sys_sigprocmask cpu k how set_ptr oldset_ptr =
     (if set_ptr \<noteq> 0 \<and> set_ptr \<ge> USER_SPACE_MAX then err k BadPointer
      else do {
        let new_mask = (if set_ptr \<noteq> 0 then Some (from_le_bytes (read_bytes (k_mem k) set_ptr 8)) else None);
        (result, k) \<leftarrow> cur_mut cpu k (\<lambda>t.
           let old_blocked = sg_blocked (t_signal_state t) in
           case apply_mask how new_mask old_blocked of
             Inl e \<Rightarrow> (Inl e, t)
           | Inr b \<Rightarrow> (Inr old_blocked, t\<lparr>t_signal_state := (t_signal_state t)\<lparr>sg_blocked := b\<rparr>\<rparr>));
        (case result of
           Some (Inr old_blocked) \<Rightarrow>
             Some (0, if oldset_ptr \<noteq> 0 \<and> oldset_ptr < USER_SPACE_MAX
                      then k\<lparr>k_mem := write_bytes (k_mem k) oldset_ptr (to_le_bytes old_blocked)\<rparr> else k)
         | Some (Inl e) \<Rightarrow> err k e
         | None \<Rightarrow> err k NotFound) })"

definition sys_tgkill :: "nat \<Rightarrow> 'z kst_scheme \<Rightarrow> u64 \<Rightarrow> u64 \<Rightarrow> u64 \<Rightarrow> (int \<times> 'z kst_scheme) panics" where
  "sys_tgkill cpu k tgid tid sig =
     (case sig_arg sig of
        None \<Rightarrow> err k InvalidArgument
      | Some sig_num \<Rightarrow> do {
          (found, k) \<leftarrow> task_mut cpu k tid (\<lambda>t.
             if tgid \<noteq> 0 \<and> t_id t \<noteq> tgid \<and> t_parent_id t \<noteq> Some tgid then (False, t)
             else (True, t\<lparr>t_signal_state := send_signal (t_signal_state t) sig_num\<rparr>));
          (case found of
             Some True \<Rightarrow> do { k \<leftarrow> wake cpu k tid; Some (0, k) }
           | Some False \<Rightarrow> err k PermissionDenied
           | None \<Rightarrow> err k NotFound) })"

definition SIGACTION_SIZE :: u64 where "SIGACTION_SIZE = 32"

text \<open>A non-null pointer to a \<open>sigaction\<close> that is not in user space.\<close>

definition bad_action_ptr :: "u64 \<Rightarrow> bool" where
  "bad_action_ptr p \<longleftrightarrow> p \<ge> USER_SPACE_MAX \<or> sat_add p SIGACTION_SIZE > USER_SPACE_MAX"

definition write_old_action :: "nat \<Rightarrow> 'z kst_scheme \<Rightarrow> u8 \<Rightarrow> u64 \<Rightarrow> (bool \<times> 'z kst_scheme) panics" where
  "write_old_action cpu k sig_num oact_ptr =
     (if oact_ptr = 0 then Some (True, k)
      else if bad_action_ptr oact_ptr then Some (False, k)
      else do {
        h \<leftarrow> with_current_task cpu (k_sched k) (\<lambda>t. get_handler (t_signal_state t) sig_num);
        let old_handler = (case h of Some h \<Rightarrow> h | None \<Rightarrow> SIG_DFL);
        let (ok, m) = copy_to_user (k_mem k) oact_ptr (to_le_bytes old_handler @ replicate 24 0);
        Some (ok, k\<lparr>k_mem := m\<rparr>) })"

definition sys_rt_sigaction :: "nat \<Rightarrow> 'z kst_scheme \<Rightarrow> u64 \<Rightarrow> u64 \<Rightarrow> u64 \<Rightarrow> (int \<times> 'z kst_scheme) panics" where
  "sys_rt_sigaction cpu k sig act_ptr oact_ptr =
     (case sig_arg sig of
        None \<Rightarrow> err k InvalidArgument
      | Some sig_num \<Rightarrow>
          if sig_num = SIGKILL then err k PermissionDenied
          else do {
            (ok, k) \<leftarrow> write_old_action cpu k sig_num oact_ptr;
            if \<not> ok then err k BadPointer
            else if act_ptr = 0 then Some (0, k)
            else if bad_action_ptr act_ptr then err k BadPointer
            else (case copy_from_user (k_mem k) act_ptr SIGACTION_SIZE of
                    None \<Rightarrow> err k BadPointer
                  | Some act_bytes \<Rightarrow> do {
                      let handler = from_le_bytes (take 8 act_bytes);
                      (_, k) \<leftarrow> cur_mut cpu k (\<lambda>t. ((), t\<lparr>t_signal_state := set_handler (t_signal_state t) sig_num handler\<rparr>));
                      Some (0, k) }) })"

end
