(* ===== verification/Vfs.thy ===== *)
theory Vfs
  imports Task "HOL-Library.Sublist"
begin

text \<open>
  The virtual file system layer, \<open>kernel/src/fs/vfs.rs\<close>: error values, permission bits, open flags,
  inode metadata, the trait \<open>FileSystem\<close> and the mount table with its longest-prefix lookup. A value of
  type \<open>dyn FileSystem\<close> is a record of operations over the state \<open>'w\<close> that the file systems own; each
  operation may panic, and returns its result with the new state. A string is the list of its bytes.
\<close>

datatype fs_error =
    FsNotFound | FsAlreadyExists | FsPermissionDenied | FsNoSpace | FsInvalidName | FsFileTooLarge
  | FsBadFileDescriptor | FsNotSupported | FsIoError | FsNotADirectory | FsTooManyLinks | FsInvalidArgument

subsection \<open>Permission bits and flags\<close>

definition S_IRUSR :: u16 where "S_IRUSR = 0x100"
definition S_IWUSR :: u16 where "S_IWUSR = 0x80"
definition S_IXUSR :: u16 where "S_IXUSR = 0x40"
definition S_IRWXU :: u16 where "S_IRWXU = 0x1C0"
definition S_IRGRP :: u16 where "S_IRGRP = 0x20"
definition S_IWGRP :: u16 where "S_IWGRP = 0x10"
definition S_IXGRP :: u16 where "S_IXGRP = 8"
definition S_IRWXG :: u16 where "S_IRWXG = 0x38"
definition S_IROTH :: u16 where "S_IROTH = 4"
definition S_IWOTH :: u16 where "S_IWOTH = 2"
definition S_IXOTH :: u16 where "S_IXOTH = 1"
definition S_IRWXO :: u16 where "S_IRWXO = 7"
definition S_IFREG :: u16 where "S_IFREG = 0x8000"
definition S_IFDIR :: u16 where "S_IFDIR = 0x4000"
definition S_IFLNK :: u16 where "S_IFLNK = 0xA000"
definition S_IFIFO :: u16 where "S_IFIFO = 0x1000"

definition DEFAULT_FILE_MODE :: u16 where
  "DEFAULT_FILE_MODE = S_IRUSR OR S_IWUSR OR S_IRGRP OR S_IROTH"

definition DEFAULT_DIR_MODE :: u16 where
  "DEFAULT_DIR_MODE = S_IRWXU OR S_IRGRP OR S_IXGRP OR S_IROTH OR S_IXOTH"

type_synonym open_flags = u32

definition OF_READ :: open_flags where "OF_READ = 1"
definition OF_WRITE :: open_flags where "OF_WRITE = 2"
definition OF_CREATE :: open_flags where "OF_CREATE = 4"
definition OF_TRUNCATE :: open_flags where "OF_TRUNCATE = 8"
definition OF_READ_WRITE :: open_flags where "OF_READ_WRITE = OF_READ OR OF_WRITE"

definition of_contains :: "open_flags \<Rightarrow> open_flags \<Rightarrow> bool" where
  "of_contains self flag \<longleftrightarrow> self AND flag = flag"

subsection \<open>The trait\<close>

record inode_meta =
  im_ino :: u64
  im_is_dir :: bool
  im_is_symlink :: bool
  im_is_fifo :: bool
  im_size :: u64
  im_nlink :: u32
  im_mode :: u16

record dir_entry =
  de_name :: rstr
  de_ino :: u64
  de_is_dir :: bool

type_synonym ('w, 'a) fs_call = "'w \<Rightarrow> ((fs_error + 'a) \<times> 'w) panics"

record 'w file_system =
  fo_open :: "rstr \<Rightarrow> open_flags \<Rightarrow> ('w, u64) fs_call"
  fo_close :: "u64 \<Rightarrow> ('w, unit) fs_call"
  fo_read :: "u64 \<Rightarrow> u64 \<Rightarrow> u8 list \<Rightarrow> ('w, nat \<times> u8 list) fs_call"
  fo_write :: "u64 \<Rightarrow> u64 \<Rightarrow> u8 list \<Rightarrow> ('w, nat) fs_call"
  fo_stat :: "u64 \<Rightarrow> ('w, inode_meta) fs_call"
  fo_readdir :: "u64 \<Rightarrow> ('w, dir_entry list) fs_call"
  fo_create :: "u64 \<Rightarrow> rstr \<Rightarrow> ('w, u64) fs_call"
  fo_unlink :: "u64 \<Rightarrow> rstr \<Rightarrow> ('w, unit) fs_call"
  fo_symlink :: "u64 \<Rightarrow> rstr \<Rightarrow> rstr \<Rightarrow> ('w, u64) fs_call"
  fo_readlink :: "u64 \<Rightarrow> u8 list \<Rightarrow> ('w, nat \<times> u8 list) fs_call"
  fo_mkdir :: "u64 \<Rightarrow> rstr \<Rightarrow> ('w, u64) fs_call"
  fo_rmdir :: "u64 \<Rightarrow> rstr \<Rightarrow> ('w, unit) fs_call"
  fo_mkfifo :: "u64 \<Rightarrow> rstr \<Rightarrow> ('w, u64) fs_call"
  fo_chmod :: "u64 \<Rightarrow> u16 \<Rightarrow> ('w, unit) fs_call"
  fo_get_fifo_buffer :: "u64 \<Rightarrow> ('w, arc) fs_call"

text \<open>The provided methods of the trait.\<close>

definition default_mkdir :: "u64 \<Rightarrow> rstr \<Rightarrow> ('w, u64) fs_call" where
  "default_mkdir parent_ino name w = Some (Inl FsNotSupported, w)"

definition default_rmdir :: "u64 \<Rightarrow> rstr \<Rightarrow> ('w, unit) fs_call" where
  "default_rmdir parent_ino name w = Some (Inl FsNotSupported, w)"

definition default_mkfifo :: "u64 \<Rightarrow> rstr \<Rightarrow> ('w, u64) fs_call" where
  "default_mkfifo parent_ino name w = Some (Inl FsNotSupported, w)"

definition default_chmod :: "u64 \<Rightarrow> u16 \<Rightarrow> ('w, unit) fs_call" where
  "default_chmod ino mode w = Some (Inl FsNotSupported, w)"

definition default_get_fifo_buffer :: "u64 \<Rightarrow> ('w, arc) fs_call" where
  "default_get_fifo_buffer ino w = Some (Inl FsNotSupported, w)"

subsection \<open>The mount table\<close>

record 'w mount_point =
  mp_path :: rstr
  mp_device_idx :: nat
  mp_fs :: "'w file_system"

abbreviation (input) slash :: u8 where "slash \<equiv> 47"

definition mount :: "'w mount_point list \<Rightarrow> rstr \<Rightarrow> nat \<Rightarrow> 'w file_system \<Rightarrow> (unit + unit) \<times> 'w mount_point list" where
  "mount tab path device_idx fs =
     (if path = [] \<or> hd path \<noteq> slash then (Inl (), tab)
      else if \<exists>mp\<in>set tab. mp_path mp = path then (Inl (), tab)
      else (Inr (), tab @ [\<lparr>mp_path = path, mp_device_idx = device_idx, mp_fs = fs\<rparr>]))"

definition unmount :: "'w mount_point list \<Rightarrow> rstr \<Rightarrow> (unit + unit) \<times> 'w mount_point list" where
  "unmount tab path =
     (let len_before = length tab;
          tab = filter (\<lambda>mp. mp_path mp \<noteq> path) tab
      in if length tab = len_before then (Inl (), tab) else (Inr (), tab))"

text \<open>The loop of \<open>resolve_fs\<close>, with the best match so far and its length.\<close>

fun best_mount :: "'w mount_point list \<Rightarrow> rstr \<Rightarrow> 'w mount_point option \<Rightarrow> nat \<Rightarrow> 'w mount_point option \<times> nat" where
  "best_mount [] path best_match best_len = (best_match, best_len)"
| "best_mount (mp # mps) path best_match best_len =
     (if prefix (mp_path mp) path \<and> length (mp_path mp) > best_len
      then best_mount mps path (Some mp) (length (mp_path mp))
      else best_mount mps path best_match best_len)"

definition strip_slash :: "rstr \<Rightarrow> rstr" where
  "strip_slash rest = (case rest of [] \<Rightarrow> [] | c # cs \<Rightarrow> if c = slash then cs else rest)"

definition resolve_fs :: "'w mount_point list \<Rightarrow> rstr \<Rightarrow> ('w file_system \<times> rstr) panics" where
  "resolve_fs tab path =
     (case best_mount tab path None 0 of
        (None, _) \<Rightarrow> None
      | (Some mp, best_len) \<Rightarrow>
          Some (mp_fs mp, if length path > best_len then strip_slash (drop best_len path) else []))"

subsection \<open>Lemmas\<close>

text \<open>Paths of a mount table are absolute and pairwise different.\<close>

definition mounts_inv :: "'w mount_point list \<Rightarrow> bool" where
  "mounts_inv tab \<longleftrightarrow> distinct (map mp_path tab) \<and> (\<forall>mp\<in>set tab. mp_path mp \<noteq> [] \<and> hd (mp_path mp) = slash)"

lemma mount_inv: "mounts_inv tab \<Longrightarrow> mounts_inv (snd (mount tab path d fs))"
  by (auto simp: mounts_inv_def mount_def)

lemma unmount_inv: "mounts_inv tab \<Longrightarrow> mounts_inv (snd (unmount tab path))"
  by (auto simp: mounts_inv_def unmount_def Let_def distinct_map_filter)

lemma best_mount_spec:
  assumes "best_mount mps path b n = (r, m)"
  shows "n \<le> m \<and> (\<forall>mp\<in>set mps. prefix (mp_path mp) path \<longrightarrow> length (mp_path mp) \<le> m) \<and>
    (r = b \<and> m = n \<or> (\<exists>mp\<in>set mps. r = Some mp \<and> prefix (mp_path mp) path \<and> m = length (mp_path mp)))"
  using assms
proof (induction mps arbitrary: b n)
  case (Cons mp mps)
  show ?case
  proof (cases "prefix (mp_path mp) path \<and> length (mp_path mp) > n")
    case True
    then show ?thesis using Cons.prems Cons.IH [of "Some mp" "length (mp_path mp)"] by auto
  next
    case False
    then show ?thesis using Cons.prems Cons.IH [of b n] by auto
  qed
qed simp

lemma resolve_fs_panics:
  assumes "\<forall>mp\<in>set tab. \<not> prefix (mp_path mp) path"
  shows "resolve_fs tab path = None"
proof -
  obtain r m where r: "best_mount tab path None 0 = (r, m)" by fastforce
  then show ?thesis using best_mount_spec [OF r] assms by (auto simp: resolve_fs_def)
qed

lemma resolve_fs_root:
  assumes "mp_path mp = [slash]" and "path \<noteq> []" and "hd path = slash"
  shows "resolve_fs [mp] path = Some (mp_fs mp, strip_slash (tl path))"
  using assms by (cases path) (auto simp: resolve_fs_def strip_slash_def)

text \<open>C34: A path is served by the mounted file system with the longest mount path that is a prefix of it, with the rest of
  the path less one slash. The prefix is one of bytes and not of path components: with a file system mounted at
  \<open>/disk\<close>, the path \<open>/diskette\<close> is the file \<open>ette\<close> of that file system.\<close>

theorem resolve_fs_longest:
  assumes inv: "mounts_inv tab" and root: "\<exists>mp\<in>set tab. prefix (mp_path mp) path"
  shows "\<exists>mp\<in>set tab. prefix (mp_path mp) path \<and>
    (\<forall>mp'\<in>set tab. prefix (mp_path mp') path \<longrightarrow> length (mp_path mp') \<le> length (mp_path mp)) \<and>
    resolve_fs tab path = Some (mp_fs mp, strip_slash (drop (length (mp_path mp)) path))"
proof -
  obtain r m where r: "best_mount tab path None 0 = (r, m)" by fastforce
  note spec = best_mount_spec [OF r]
  obtain mp0 where mp0: "mp0 \<in> set tab" "prefix (mp_path mp0) path" using root by blast
  then have "0 < length (mp_path mp0)" using inv by (simp add: mounts_inv_def)
  then have "m \<noteq> 0" using spec mp0 by (metis le_zero_eq less_irrefl)
  then obtain mp where mp: "mp \<in> set tab" "r = Some mp" "prefix (mp_path mp) path" "m = length (mp_path mp)"
    using spec by blast
  have "resolve_fs tab path = Some (mp_fs mp, strip_slash (drop (length (mp_path mp)) path))"
    using r mp(2,4) by (auto simp: resolve_fs_def strip_slash_def)
  then show ?thesis using mp spec by blast
qed

theorem resolve_fs_longest_witness:
  "\<forall>root disk :: nat file_system. resolve_fs
     [\<lparr>mp_path = str ''/'', mp_device_idx = 0, mp_fs = root\<rparr>, \<lparr>mp_path = str ''/disk'', mp_device_idx = 0, mp_fs = disk\<rparr>]
     (str ''/diskette'') = Some (disk, str ''ette'')"
proof (intro allI)
  fix root disk :: "nat file_system"
  let ?tab = "[\<lparr>mp_path = str ''/'', mp_device_idx = 0, mp_fs = root\<rparr>, \<lparr>mp_path = str ''/disk'', mp_device_idx = 0, mp_fs = disk\<rparr>]"
  have inv: "mounts_inv ?tab" by (simp add: mounts_inv_def str_def)
  have "\<exists>mp\<in>set ?tab. prefix (mp_path mp) (str ''/diskette'')" by (simp add: str_def)
  from resolve_fs_longest [OF inv this]
  show "resolve_fs ?tab (str ''/diskette'') = Some (disk, str ''ette'')" by (auto simp: str_def strip_slash_def)
qed

end
