(* ===== verification/Syscall_Fd.thy ===== *)
theory Syscall_Fd
  imports Syscall_Proc Pipe Vfs
begin

text \<open>
  System calls on descriptors, environment and working directory, from \<open>kernel/src/syscall/mod.rs\<close>. The kernel state
  of the earlier calls is extended by the mount table, the state of the file systems and the pipes. A pipe is
  known by the \<open>Arc\<close> of its buffer: both ends hold it. Output on the console is not represented.
\<close>

record 'w kfs = kst +
  k_mounts :: "'w mount_point list"
  k_fs :: 'w
  k_pipes :: "arc \<Rightarrow> pipe_buffer"
  k_next_pipe :: arc

definition FD_STDIN :: u64 where "FD_STDIN = 0"
definition FD_STDOUT :: u64 where "FD_STDOUT = 1"
definition FD_FIRST_USABLE :: u64 where "FD_FIRST_USABLE = 2"
definition FD_LIMIT :: u64 where "FD_LIMIT = 1024"

text \<open>A closure on the current task that may panic.\<close>

definition cur_mut_p :: "nat \<Rightarrow> 'z kst_scheme \<Rightarrow> (task \<Rightarrow> ('r \<times> task) panics) \<Rightarrow> ('r option \<times> 'z kst_scheme) panics" where
  "cur_mut_p cpu k f = do {
     (r, k) \<leftarrow> cur_mut cpu k (\<lambda>t. case f t of None \<Rightarrow> (None, t) | Some (x, t') \<Rightarrow> (Some x, t'));
     (case r of
        None \<Rightarrow> Some (None, k)
      | Some None \<Rightarrow> None
      | Some (Some x) \<Rightarrow> Some (Some x, k)) }"

subsection \<open>Descriptors\<close>

text \<open>\<open>while fd_table.contains_key(&fd) { fd += 1; if fd >= FD_LIMIT { return None; } }\<close>\<close>

function fd_scan :: "(u64, fd_entry) btree \<Rightarrow> u64 \<Rightarrow> u64 option panics" where
  "fd_scan tab fd =
     (if bt_get tab fd \<noteq> None
      then (case add_c fd 1 of
              None \<Rightarrow> None
            | Some fd' \<Rightarrow> if fd' \<ge> FD_LIMIT then Some None else fd_scan tab fd')
      else Some (Some fd))"
  by pat_completeness auto
termination
proof (relation "measure (\<lambda>(_, fd). 1024 - unat fd)")
  fix tab :: "(u64, fd_entry) btree" and fd fd' :: u64
  assume "add_c fd 1 = Some fd'" and "\<not> FD_LIMIT \<le> fd'"
  then have "unat fd' = unat fd + 1" "unat fd' < 1024" by (auto dest: add_c_unat simp: FD_LIMIT_def word_le_nat_alt)
  then show "((tab, fd'), (tab, fd)) \<in> measure (\<lambda>(_, fd). 1024 - unat fd)" by simp
qed simp

declare fd_scan.simps [simp del]

definition fd_install :: "u64 \<Rightarrow> rstr \<Rightarrow> u64 \<Rightarrow> task \<Rightarrow> task" where
  "fd_install fd path ino t =
     t\<lparr>t_fd_table := bt_insert fd \<lparr>fd_path = path, fd_ino = ino, fd_offset = 0\<rparr> (t_fd_table t)\<rparr>"

definition sys_dup2 :: "nat \<Rightarrow> 'z kst_scheme \<Rightarrow> u64 \<Rightarrow> u64 \<Rightarrow> (int \<times> 'z kst_scheme) panics" where
  "sys_dup2 cpu k old_fd new_fd =
     (if old_fd = new_fd then
        (if old_fd < FD_FIRST_USABLE then err k InvalidArgument
         else do {
           exists \<leftarrow> with_current_task cpu (k_sched k) (\<lambda>t. bt_get (t_fd_table t) old_fd \<noteq> None);
           if exists = Some True then Some (sint new_fd, k) else err k NotFound })
      else if old_fd < FD_FIRST_USABLE \<or> new_fd < FD_FIRST_USABLE then err k InvalidArgument
      else if old_fd \<ge> FD_LIMIT \<or> new_fd \<ge> FD_LIMIT then err k InvalidArgument
      else do {
        (result, k) \<leftarrow> cur_mut cpu k (\<lambda>t.
           case bt_get (t_fd_table t) old_fd of
             None \<Rightarrow> (None, t)
           | Some old_entry \<Rightarrow> (Some new_fd, t\<lparr>t_fd_table := bt_insert new_fd old_entry (bt_remove new_fd (t_fd_table t))\<rparr>));
        (case result of Some (Some fd) \<Rightarrow> Some (sint fd, k) | _ \<Rightarrow> err k NotFound) })"

definition sys_dup3 :: "nat \<Rightarrow> 'z kst_scheme \<Rightarrow> u64 \<Rightarrow> u64 \<Rightarrow> u64 \<Rightarrow> (int \<times> 'z kst_scheme) panics" where
  "sys_dup3 cpu k old_fd new_fd flags = sys_dup2 cpu k old_fd new_fd"

definition sys_epoll_create :: "nat \<Rightarrow> 'z kst_scheme \<Rightarrow> u64 \<Rightarrow> (int \<times> 'z kst_scheme) panics" where
  "sys_epoll_create cpu k flags = do {
     (result, k) \<leftarrow> cur_mut_p cpu k (\<lambda>t. do {
        r \<leftarrow> fd_scan (t_fd_table t) 3;
        (case r of None \<Rightarrow> Some (None, t) | Some fd \<Rightarrow> Some (Some fd, fd_install fd (str ''<epoll>'') 0 t)) });
     (case result of Some (Some fd) \<Rightarrow> Some (sint fd, k) | _ \<Rightarrow> err k OutOfMemory) }"

text \<open>\<open>create_pipe\<close>: a fresh buffer, held by both ends.\<close>

definition new_pipe :: "'w kfs \<Rightarrow> arc \<times> 'w kfs" where
  "new_pipe k = (k_next_pipe k, k\<lparr>k_pipes := (k_pipes k)(k_next_pipe k := create_pipe), k_next_pipe := k_next_pipe k + 1\<rparr>)"

text \<open>The closure of \<open>sys_pipe\<close>: two handles, then two descriptors; what was inserted before a failure stays.\<close>

definition pipe_task :: "arc \<Rightarrow> task \<Rightarrow> ((u64 \<times> u64) option \<times> task) panics" where
  "pipe_task a t = do {
     (read_handle, tab) \<leftarrow> ht_insert (t_handle_table t) (PipeReaderObj a) RIGHTS_READ;
     (write_handle, tab) \<leftarrow> ht_insert tab (PipeWriterObj a) RIGHTS_WRITE;
     let t = t\<lparr>t_handle_table := tab\<rparr>;
     r \<leftarrow> fd_scan (t_fd_table t) FD_FIRST_USABLE;
     (case r of
        None \<Rightarrow> Some (None, t)
      | Some read_fd \<Rightarrow> do {
          let t = fd_install read_fd (str ''<pipe:r>'') (as_u64 read_handle) t;
          next_fd \<leftarrow> add_c read_fd 1;
          w \<leftarrow> fd_scan (t_fd_table t) next_fd;
          (case w of
             None \<Rightarrow> Some (None, t)
           | Some write_fd \<Rightarrow>
               Some (Some (read_fd, write_fd), fd_install write_fd (str ''<pipe:w>'') (as_u64 write_handle) t)) }) }"

definition sys_pipe :: "nat \<Rightarrow> 'w kfs \<Rightarrow> u64 \<Rightarrow> (int \<times> 'w kfs) panics" where
  "sys_pipe cpu k fds_ptr =
     (if fds_ptr = 0 \<or> fds_ptr \<ge> USER_SPACE_MAX then err k BadPointer
      else if sat_add fds_ptr 16 > USER_SPACE_MAX then err k BadPointer
      else do {
        let (a, k) = new_pipe k;
        (result, k) \<leftarrow> cur_mut_p cpu k (pipe_task a);
        (case result of
           Some (Some (read_fd, write_fd)) \<Rightarrow>
             (let (ok, m) = copy_to_user (k_mem k) fds_ptr (to_le_bytes read_fd @ to_le_bytes write_fd)
              in if ok then Some (0, k\<lparr>k_mem := m\<rparr>) else err k BadPointer)
         | Some None \<Rightarrow> err k OutOfMemory
         | None \<Rightarrow> err k NotFound) })"

subsection \<open>Environment and working directory\<close>

definition sys_env_get :: "nat \<Rightarrow> 'z kst_scheme \<Rightarrow> u64 \<Rightarrow> u64 \<Rightarrow> u64 \<Rightarrow> u64 \<Rightarrow> (int \<times> 'z kst_scheme) panics" where
  "sys_env_get cpu k key_ptr key_len val_ptr val_len =
     (case copy_from_user (k_mem k) key_ptr key_len of
        None \<Rightarrow> err k BadPointer
      | Some key \<Rightarrow>
          if \<not> utf8_ok key then err k InvalidArgument
          else do {
            result \<leftarrow> with_current_task cpu (k_sched k) (\<lambda>t. bt_get (t_env t) key);
            (case result of
               Some (Some value) \<Rightarrow>
                 (let (ok, m) = copy_to_user (k_mem k) val_ptr value
                  in if ok then Some (i64_or (of_nat (length value)) (- 1), k\<lparr>k_mem := m\<rparr>) else err k BadPointer)
             | Some None \<Rightarrow> Some (0, k)
             | None \<Rightarrow> err k NotFound) })"

definition sys_env_set :: "nat \<Rightarrow> 'z kst_scheme \<Rightarrow> u64 \<Rightarrow> u64 \<Rightarrow> u64 \<Rightarrow> u64 \<Rightarrow> (int \<times> 'z kst_scheme) panics" where
  "sys_env_set cpu k key_ptr key_len val_ptr val_len =
     (case (copy_from_user (k_mem k) key_ptr key_len, copy_from_user (k_mem k) val_ptr val_len) of
        (Some key, Some value) \<Rightarrow>
          if \<not> utf8_ok key then err k InvalidArgument
          else if \<not> utf8_ok value then err k InvalidArgument
          else do {
            (result, k) \<leftarrow> cur_mut cpu k (\<lambda>t. ((), t\<lparr>t_env := bt_insert key value (t_env t)\<rparr>));
            (case result of Some _ \<Rightarrow> Some (0, k) | None \<Rightarrow> err k NotFound) }
      | _ \<Rightarrow> err k BadPointer)"

definition sys_getcwd :: "nat \<Rightarrow> 'z kst_scheme \<Rightarrow> u64 \<Rightarrow> u64 \<Rightarrow> (int \<times> 'z kst_scheme) panics" where
  "sys_getcwd cpu k buf_ptr buf_len = do {
     result \<leftarrow> with_current_task cpu (k_sched k) t_cwd;
     (case result of
        Some cwd \<Rightarrow>
          if length cwd > unat buf_len then err k InvalidArgument
          else (let (ok, m) = copy_to_user (k_mem k) buf_ptr cwd
                in if ok then Some (i64_or (of_nat (length cwd)) (- 1), k\<lparr>k_mem := m\<rparr>) else err k BadPointer)
      | None \<Rightarrow> err k NotFound) }"

definition sys_umask :: "nat \<Rightarrow> 'z kst_scheme \<Rightarrow> u64 \<Rightarrow> (int \<times> 'z kst_scheme) panics" where
  "sys_umask cpu k msk = do {
     let new_umask = ucast (msk AND 0x1FF);
     (result, k) \<leftarrow> cur_mut cpu k (\<lambda>t. (t_umask t, t\<lparr>t_umask := new_umask\<rparr>));
     (case result of Some old_umask \<Rightarrow> Some (uint old_umask, k) | None \<Rightarrow> err k NotFound) }"

subsection \<open>Advisory locks\<close>

definition resolve_fs_id :: "rstr \<Rightarrow> u64" where
  "resolve_fs_id path =
     (if prefix (str ''/disk'') path then 1
      else if prefix (str ''/proc'') path then 2
      else if prefix (str ''/dev'') path then 3
      else 0)"

definition is_pipe_path :: "rstr \<Rightarrow> bool" where
  "is_pipe_path path \<longleftrightarrow> prefix (str ''<pipe:'') path \<or> prefix (str ''<fifo:'') path"

text \<open>A result, or the start of a spin loop in \<open>flock\<close>.\<close>

datatype flock_end = Flock_ret int | Flock_wait

definition sys_flock :: "nat \<Rightarrow> 'z kst_scheme \<Rightarrow> u64 \<Rightarrow> u64 \<Rightarrow> (flock_end \<times> 'z kst_scheme) panics" where
  "sys_flock cpu k fd operation =
     (let opn = operation AND NOT LOCK_NB in
      if opn \<noteq> LOCK_SH \<and> opn \<noteq> LOCK_EX \<and> opn \<noteq> LOCK_UN then Some (Flock_ret (error_code InvalidArgument), k)
      else if fd = FD_STDIN \<or> fd = FD_STDOUT then Some (Flock_ret (error_code InvalidArgument), k)
      else do {
        result \<leftarrow> with_current_task cpu (k_sched k) (\<lambda>t. bt_get (t_fd_table t) fd);
        (case result of
           Some (Some entry) \<Rightarrow>
             if is_pipe_path (fd_path entry) then Some (Flock_ret (error_code NotSupported), k)
             else do {
               let fs_id = resolve_fs_id (fd_path entry);
               let pid = current_task_id (k_sched k);
               (r, locks) \<leftarrow> flock (sc_locks (k_sched k)) (fs_id, fd_ino entry) operation pid;
               let k = k\<lparr>k_sched := (k_sched k)\<lparr>sc_locks := locks\<rparr>\<rparr>;
               Some (case r of
                       Lock_ok \<Rightarrow> Flock_ret 0
                     | Lock_err code \<Rightarrow>
                         Flock_ret (if code = ERR_WOULD_BLOCK then error_code WouldBlock
                                    else if code = - 1 then error_code InvalidArgument else code)
                     | _ \<Rightarrow> Flock_wait, k) }
         | _ \<Rightarrow> Some (Flock_ret (error_code NotFound), k)) })"

subsection \<open>Terminal and resource queries\<close>

definition put_user :: "'z kst_scheme \<Rightarrow> u64 \<Rightarrow> u8 list \<Rightarrow> (int \<times> 'z kst_scheme) panics" where
  "put_user k p bs =
     (let (ok, m) = copy_to_user (k_mem k) p bs in if ok then Some (0, k\<lparr>k_mem := m\<rparr>) else err k BadPointer)"

definition sys_ioctl :: "'z kst_scheme \<Rightarrow> u64 \<Rightarrow> u64 \<Rightarrow> u64 \<Rightarrow> (int \<times> 'z kst_scheme) panics" where
  "sys_ioctl k fd request argp =
     (let is_tty = (fd \<le> 2) in
      if is_tty \<and> request = 0x5413 then
        (if argp = 0 \<or> argp \<ge> USER_SPACE_MAX then err k BadPointer else put_user k argp [24, 0, 80, 0, 0, 0, 0, 0])
      else if is_tty \<and> request = 0x5401 then
        (if argp = 0 \<or> argp \<ge> USER_SPACE_MAX then err k BadPointer else put_user k argp (replicate 60 0))
      else err k NotSupported)"

definition sys_getrusage :: "'z kst_scheme \<Rightarrow> u64 \<Rightarrow> u64 \<Rightarrow> (int \<times> 'z kst_scheme) panics" where
  "sys_getrusage k who buf_ptr =
     (if who \<noteq> 0 \<and> who \<noteq> 1 then err k InvalidArgument
      else if buf_ptr = 0 \<or> buf_ptr \<ge> USER_SPACE_MAX then err k BadPointer
      else if sat_add buf_ptr 144 > USER_SPACE_MAX then err k BadPointer
      else put_user k buf_ptr (replicate 144 0))"

definition sys_prlimit :: "'z kst_scheme \<Rightarrow> u64 \<Rightarrow> u64 \<Rightarrow> u64 \<Rightarrow> u64 \<Rightarrow> (int \<times> 'z kst_scheme) panics" where
  "sys_prlimit k pid resource new_limit old_limit =
     (if old_limit \<noteq> 0 then
        (if old_limit \<ge> USER_SPACE_MAX then err k BadPointer
         else if sat_add old_limit 16 > USER_SPACE_MAX then err k BadPointer
         else put_user k old_limit (to_le_bytes (- 1) @ to_le_bytes (- 1)))
      else Some (0, k))"

end
