(* ===== verification/Syscall_File.thy ===== *)
theory Syscall_File
  imports Syscall_Fd
begin

text \<open>
  The file system calls of \<open>kernel/src/syscall/mod.rs\<close>, over the mount table and any file systems that
  implement the trait. \<open>resolve_fs\<close> panics when no mount path is a prefix of its argument; the calls inherit that.
\<close>

subsection \<open>Paths\<close>

text \<open>Copy a string argument in: \<open>BadPointer\<close> or \<open>InvalidArgument\<close>.\<close>

definition user_str :: "'z kst_scheme \<Rightarrow> u64 \<Rightarrow> u64 \<Rightarrow> sys_error + rstr" where
  "user_str k p len =
     (case copy_from_user (k_mem k) p len of
        None \<Rightarrow> Inl BadPointer
      | Some bs \<Rightarrow> if utf8_ok bs then Inr bs else Inl InvalidArgument)"

definition resolve_path :: "nat \<Rightarrow> 'z kst_scheme \<Rightarrow> rstr \<Rightarrow> rstr panics" where
  "resolve_path cpu k path =
     (if path \<noteq> [] \<and> hd path = slash then Some path
      else do {
        c \<leftarrow> with_current_task cpu (k_sched k) t_cwd;
        let cwd = (case c of Some cwd \<Rightarrow> cwd | None \<Rightarrow> str ''/'');
        Some (if path = [] then cwd
              else if cwd \<noteq> [] \<and> last cwd = slash then cwd @ path
              else cwd @ [slash] @ path) })"

definition trim_end :: "rstr \<Rightarrow> rstr" where
  "trim_end path = rev (dropWhile (\<lambda>c. c = slash) (rev path))"

text \<open>\<open>rfind('/')\<close>.\<close>

definition rfind_slash :: "rstr \<Rightarrow> nat option" where
  "rfind_slash s = map_option (\<lambda>i. length s - 1 - i) (position (\<lambda>c. c = slash) (rev s))"

definition split_parent_name :: "rstr \<Rightarrow> (rstr \<times> rstr) option" where
  "split_parent_name path =
     (let trimmed = trim_end path in
      case rfind_slash trimmed of
        None \<Rightarrow> None
      | Some pos \<Rightarrow>
          let parent = (if pos = 0 then str ''/'' else take pos trimmed);
              name = drop (pos + 1) trimmed
          in if name = [] then None else Some (parent, name))"

text \<open>A call of a method of a file system.\<close>

definition on_fs :: "('w, 'a) fs_call \<Rightarrow> 'w kfs \<Rightarrow> ((fs_error + 'a) \<times> 'w kfs) panics" where
  "on_fs c k = do { (r, w) \<leftarrow> c (k_fs k); Some (r, k\<lparr>k_fs := w\<rparr>) }"

text \<open>\<open>let _ = fs.close(ino)\<close>.\<close>

definition close_ino :: "'w file_system \<Rightarrow> u64 \<Rightarrow> 'w kfs \<Rightarrow> 'w kfs panics" where
  "close_ino fs ino k = do { (_, k) \<leftarrow> on_fs (fo_close fs ino) k; Some k }"

definition OPEN_RWC :: open_flags where "OPEN_RWC = 7"

subsection \<open>Open, read, write, close, seek\<close>

definition fd_alloc :: "rstr \<Rightarrow> u64 \<Rightarrow> task \<Rightarrow> (u64 option \<times> task) panics" where
  "fd_alloc path ino t = do {
     r \<leftarrow> fd_scan (t_fd_table t) FD_FIRST_USABLE;
     (case r of None \<Rightarrow> Some (None, t) | Some fd \<Rightarrow> Some (Some fd, fd_install fd path ino t)) }"

definition fifo_path :: "rstr \<Rightarrow> rstr" where
  "fifo_path full_path = str ''<fifo:'' @ full_path @ str ''>''"

text \<open>The closure for a named pipe: handles for the directions asked for, the descriptor on the reader when there is one.\<close>

definition fifo_task :: "arc \<Rightarrow> bool \<Rightarrow> bool \<Rightarrow> rstr \<Rightarrow> task \<Rightarrow> (u64 option \<times> task) panics" where
  "fifo_task a is_read is_write full_path t = do {
     r \<leftarrow> fd_scan (t_fd_table t) FD_FIRST_USABLE;
     (case r of
        None \<Rightarrow> Some (None, t)
      | Some fd \<Rightarrow>
          if is_read then do {
            (reader, tab) \<leftarrow> ht_insert (t_handle_table t) (PipeReaderObj a) RIGHTS_READ;
            tab \<leftarrow> (if is_write then map_option snd (ht_insert tab (PipeWriterObj a) RIGHTS_WRITE) else Some tab);
            Some (Some fd, fd_install fd (fifo_path full_path) (as_u64 reader) (t\<lparr>t_handle_table := tab\<rparr>)) }
          else if is_write then do {
            (writer, tab) \<leftarrow> ht_insert (t_handle_table t) (PipeWriterObj a) RIGHTS_WRITE;
            Some (Some fd, fd_install fd (fifo_path full_path) (as_u64 writer) (t\<lparr>t_handle_table := tab\<rparr>)) }
          else Some (None, t)) }"

text \<open>The result of the descriptor allocation.\<close>

definition fd_result :: "u64 option option \<Rightarrow> int" where
  "fd_result r = (case r of Some (Some fd) \<Rightarrow> sint fd | Some None \<Rightarrow> error_code OutOfMemory | None \<Rightarrow> error_code NotFound)"

definition sys_fs_open :: "nat \<Rightarrow> 'w kfs \<Rightarrow> u64 \<Rightarrow> u64 \<Rightarrow> u64 \<Rightarrow> (int \<times> 'w kfs) panics" where
  "sys_fs_open cpu k name_ptr name_len flags =
     (if flags > 1 then err k InvalidArgument
      else case user_str k name_ptr name_len of
        Inl e \<Rightarrow> err k e
      | Inr filename \<Rightarrow> do {
          full_path \<leftarrow> resolve_path cpu k filename;
          (fs, rel_path) \<leftarrow> resolve_fs (k_mounts k) full_path;
          let open_flags = (if flags = 0 then OF_READ else OPEN_RWC);
          (r, k) \<leftarrow> on_fs (fo_open fs rel_path open_flags) k;
          (case r of
             Inl _ \<Rightarrow> err k NotFound
           | Inr ino \<Rightarrow> do {
               (meta, k) \<leftarrow> on_fs (fo_stat fs ino) k;
               if (case meta of Inr m \<Rightarrow> im_is_fifo m | Inl _ \<Rightarrow> False) then do {
                 k \<leftarrow> close_ino fs ino k;
                 (b, k) \<leftarrow> on_fs (fo_get_fifo_buffer fs ino) k;
                 (case b of
                    Inl _ \<Rightarrow> err k NotSupported
                  | Inr a \<Rightarrow> do {
                      (result, k) \<leftarrow> cur_mut_p cpu k
                        (fifo_task a (of_contains open_flags OF_READ) (of_contains open_flags OF_WRITE) full_path);
                      Some (fd_result result, k) }) }
               else do {
                 (result, k) \<leftarrow> cur_mut_p cpu k (fd_alloc full_path ino);
                 Some (fd_result result, k) } }) })"

definition fd_lookup :: "nat \<Rightarrow> 'z kst_scheme \<Rightarrow> u64 \<Rightarrow> fd_entry option panics" where
  "fd_lookup cpu k fd = do {
     result \<leftarrow> with_current_task cpu (k_sched k) (\<lambda>t. bt_get (t_fd_table t) fd);
     Some (case result of Some (Some entry) \<Rightarrow> Some entry | _ \<Rightarrow> None) }"

text \<open>\<open>entry.offset += n\<close>, when the descriptor is still there.\<close>

definition advance :: "u64 \<Rightarrow> nat \<Rightarrow> task \<Rightarrow> (unit \<times> task) panics" where
  "advance fd n t =
     (case bt_get (t_fd_table t) fd of
        None \<Rightarrow> Some ((), t)
      | Some entry \<Rightarrow> do {
          off \<leftarrow> add_c (fd_offset entry) (of_nat n);
          Some ((), t\<lparr>t_fd_table := bt_insert fd (entry\<lparr>fd_offset := off\<rparr>) (t_fd_table t)\<rparr>) })"

definition sys_fs_read :: "nat \<Rightarrow> 'w kfs \<Rightarrow> u64 \<Rightarrow> u64 \<Rightarrow> u64 \<Rightarrow> (int \<times> 'w kfs) panics" where
  "sys_fs_read cpu k fd buf_ptr buf_len =
     (if fd = FD_STDIN \<or> fd = FD_STDOUT then err k InvalidArgument
      else do {
        e \<leftarrow> fd_lookup cpu k fd;
        (case e of
           None \<Rightarrow> err k NotFound
         | Some entry \<Rightarrow>
             let buf = replicate (min (unat buf_len) SYS_MAX_MSG_SIZE) 0 in
             if is_pipe_path (fd_path entry) then do {
               obj \<leftarrow> with_current_task cpu (k_sched k) (\<lambda>t. ht_get (t_handle_table t) (handle_from_raw (fd_ino entry)));
               (case obj of
                  Some (Some (PipeReaderObj a)) \<Rightarrow>
                    (case pipe_read (k_pipes k a) buf of (n, buf, p) \<Rightarrow>
                       let k = k\<lparr>k_pipes := (k_pipes k)(a := p)\<rparr>; (ok, m) = copy_to_user (k_mem k) buf_ptr (take n buf) in
                       if n > 0 \<and> \<not> ok then err k BadPointer
                       else Some (int n, if n > 0 then k\<lparr>k_mem := m\<rparr> else k))
                | _ \<Rightarrow> err k NotFound) }
             else do {
               (fs, _) \<leftarrow> resolve_fs (k_mounts k) (fd_path entry);
               (r, k) \<leftarrow> on_fs (fo_read fs (fd_ino entry) (fd_offset entry) buf) k;
               (case r of
                  Inl _ \<Rightarrow> err k NotFound
                | Inr (bytes_read, buf) \<Rightarrow>
                    if bytes_read > length buf then None
                    else let (ok, m) = copy_to_user (k_mem k) buf_ptr (take bytes_read buf) in
                    if \<not> ok then err k BadPointer
                    else do {
                      (_, k) \<leftarrow> cur_mut_p cpu (k\<lparr>k_mem := m\<rparr>) (advance fd bytes_read);
                      Some (int bytes_read, k) }) }) })"

definition sys_fs_write :: "nat \<Rightarrow> 'w kfs \<Rightarrow> u64 \<Rightarrow> u64 \<Rightarrow> u64 \<Rightarrow> (int \<times> 'w kfs) panics" where
  "sys_fs_write cpu k fd data_ptr data_len =
     (if fd = FD_STDOUT then
        (case copy_from_user (k_mem k) data_ptr data_len of
           None \<Rightarrow> err k BadPointer
         | Some _ \<Rightarrow> Some (i64_or data_len (- 1), k))
      else if fd = FD_STDIN then err k InvalidArgument
      else case copy_from_user (k_mem k) data_ptr data_len of
        None \<Rightarrow> err k BadPointer
      | Some data \<Rightarrow> do {
          e \<leftarrow> fd_lookup cpu k fd;
          (case e of
             None \<Rightarrow> err k NotFound
           | Some entry \<Rightarrow>
               if is_pipe_path (fd_path entry) then do {
                 obj \<leftarrow> with_current_task cpu (k_sched k) (\<lambda>t. ht_get (t_handle_table t) (handle_from_raw (fd_ino entry)));
                 (case obj of
                    Some (Some (PipeWriterObj a)) \<Rightarrow> do {
                      (r, p) \<leftarrow> pipe_write (k_pipes k a) data;
                      Some (case r of Inr n \<Rightarrow> int n | Inl epipe \<Rightarrow> epipe, k\<lparr>k_pipes := (k_pipes k)(a := p)\<rparr>) }
                  | _ \<Rightarrow> err k NotFound) }
               else do {
                 (fs, _) \<leftarrow> resolve_fs (k_mounts k) (fd_path entry);
                 (r, k) \<leftarrow> on_fs (fo_write fs (fd_ino entry) (fd_offset entry) data) k;
                 (case r of
                    Inl _ \<Rightarrow> err k InvalidArgument
                  | Inr written \<Rightarrow> do {
                      (_, k) \<leftarrow> cur_mut_p cpu k (advance fd written);
                      Some (int written, k) }) }) })"

definition sys_fs_close :: "nat \<Rightarrow> 'w kfs \<Rightarrow> u64 \<Rightarrow> (int \<times> 'w kfs) panics" where
  "sys_fs_close cpu k fd =
     (if fd < FD_FIRST_USABLE then err k InvalidArgument
      else do {
        (result, k) \<leftarrow> cur_mut cpu k (\<lambda>t. (bt_get (t_fd_table t) fd, t\<lparr>t_fd_table := bt_remove fd (t_fd_table t)\<rparr>));
        (case result of
           Some (Some entry) \<Rightarrow> do {
             (fs, _) \<leftarrow> resolve_fs (k_mounts k) (fd_path entry);
             k \<leftarrow> close_ino fs (fd_ino entry) k;
             Some (0, k) }
         | _ \<Rightarrow> err k NotFound) })"

definition SEEK_SET :: u64 where "SEEK_SET = 0"
definition SEEK_CUR :: u64 where "SEEK_CUR = 1"
definition SEEK_END :: u64 where "SEEK_END = 2"

text \<open>\<open>(-offset) as usize\<close>: the negation of \<open>i64::MIN\<close> panics.\<close>

definition neg_abs :: "u64 \<Rightarrow> u64 panics" where
  "neg_abs raw = (if raw = 0x8000000000000000 then None else Some (- raw))"

definition seek_target :: "u64 \<Rightarrow> u64 \<Rightarrow> u64 \<Rightarrow> u64 \<Rightarrow> (sys_error + u64) panics" where
  "seek_target whence offset_raw current_offset file_len =
     (if whence = SEEK_SET then
        Some (if sint offset_raw < 0 then Inl InvalidArgument else Inr offset_raw)
      else if whence = SEEK_CUR then
        (if sint offset_raw \<ge> 0 then Some (Inr (sat_add current_offset offset_raw))
         else do { a \<leftarrow> neg_abs offset_raw; Some (Inr (sat_sub current_offset a)) })
      else if whence = SEEK_END then
        (if sint offset_raw \<ge> 0 then Some (Inr file_len)
         else do { a \<leftarrow> neg_abs offset_raw; Some (Inr (sat_sub file_len a)) })
      else Some (Inl InvalidArgument))"

definition sys_fs_seek :: "nat \<Rightarrow> 'w kfs \<Rightarrow> u64 \<Rightarrow> u64 \<Rightarrow> u64 \<Rightarrow> (int \<times> 'w kfs) panics" where
  "sys_fs_seek cpu k fd offset_raw whence =
     (if fd = FD_STDIN \<or> fd = FD_STDOUT then err k InvalidArgument
      else do {
        e \<leftarrow> fd_lookup cpu k fd;
        (case e of
           None \<Rightarrow> err k NotFound
         | Some entry \<Rightarrow> do {
             (fs, _) \<leftarrow> resolve_fs (k_mounts k) (fd_path entry);
             (r, k) \<leftarrow> on_fs (fo_stat fs (fd_ino entry)) k;
             (case r of
                Inl _ \<Rightarrow> err k NotFound
              | Inr meta \<Rightarrow> do {
                  t \<leftarrow> seek_target whence offset_raw (fd_offset entry) (im_size meta);
                  (case t of
                     Inl e \<Rightarrow> err k e
                   | Inr new_offset \<Rightarrow> do {
                       (_, k) \<leftarrow> cur_mut cpu k (\<lambda>t. ((),
                          t\<lparr>t_fd_table := bt_modify fd (\<lambda>en. en\<lparr>fd_offset := new_offset\<rparr>) (t_fd_table t)\<rparr>));
                       Some (sint new_offset, k) }) }) }) })"

subsection \<open>Directories and names\<close>

text \<open>The common part of the calls that change a directory: the parent is opened, the method called, the parent closed.\<close>

definition in_parent ::
  "nat \<Rightarrow> 'w kfs \<Rightarrow> rstr \<Rightarrow> ('w file_system \<Rightarrow> u64 \<Rightarrow> rstr \<Rightarrow> ('w, 'a) fs_call) \<Rightarrow> (fs_error \<Rightarrow> sys_error) \<Rightarrow> (int \<times> 'w kfs) panics" where
  "in_parent cpu k path act code = do {
     full_path \<leftarrow> resolve_path cpu k path;
     (case split_parent_name full_path of
        None \<Rightarrow> err k InvalidArgument
      | Some (parent, name) \<Rightarrow> do {
          (fs, rel_parent) \<leftarrow> resolve_fs (k_mounts k) parent;
          (r, k) \<leftarrow> on_fs (fo_open fs rel_parent OF_READ) k;
          (case r of
             Inl _ \<Rightarrow> err k NotFound
           | Inr parent_ino \<Rightarrow> do {
               (x, k) \<leftarrow> on_fs (act fs parent_ino name) k;
               k \<leftarrow> close_ino fs parent_ino k;
               (case x of Inr _ \<Rightarrow> Some (0, k) | Inl e \<Rightarrow> err k (code e)) }) }) }"

definition sys_fs_unlink :: "nat \<Rightarrow> 'w kfs \<Rightarrow> u64 \<Rightarrow> u64 \<Rightarrow> (int \<times> 'w kfs) panics" where
  "sys_fs_unlink cpu k path_ptr path_len =
     (case user_str k path_ptr path_len of
        Inl e \<Rightarrow> err k e
      | Inr path \<Rightarrow> in_parent cpu k path fo_unlink (\<lambda>_. NotFound))"

fun mkdir_error :: "fs_error \<Rightarrow> sys_error" where
  "mkdir_error FsNotFound = NotFound"
| "mkdir_error FsNoSpace = OutOfMemory"
| "mkdir_error FsNotADirectory = InvalidArgument"
| "mkdir_error FsInvalidName = InvalidArgument"
| "mkdir_error _ = Busy"

definition sys_fs_mkdir :: "nat \<Rightarrow> 'w kfs \<Rightarrow> u64 \<Rightarrow> u64 \<Rightarrow> u64 \<Rightarrow> (int \<times> 'w kfs) panics" where
  "sys_fs_mkdir cpu k path_ptr path_len perms =
     (case user_str k path_ptr path_len of
        Inl e \<Rightarrow> err k e
      | Inr path \<Rightarrow> in_parent cpu k path fo_mkdir mkdir_error)"

fun rmdir_error :: "fs_error \<Rightarrow> sys_error" where
  "rmdir_error FsNotFound = NotFound"
| "rmdir_error FsNotADirectory = InvalidArgument"
| "rmdir_error _ = Busy"

definition sys_fs_rmdir :: "nat \<Rightarrow> 'w kfs \<Rightarrow> u64 \<Rightarrow> u64 \<Rightarrow> (int \<times> 'w kfs) panics" where
  "sys_fs_rmdir cpu k path_ptr path_len =
     (case user_str k path_ptr path_len of
        Inl e \<Rightarrow> err k e
      | Inr path \<Rightarrow> in_parent cpu k path fo_rmdir rmdir_error)"

fun mkfifo_error :: "fs_error \<Rightarrow> sys_error" where
  "mkfifo_error FsNotFound = NotFound"
| "mkfifo_error FsNoSpace = OutOfMemory"
| "mkfifo_error FsAlreadyExists = AlreadyExists"
| "mkfifo_error _ = InvalidArgument"

definition sys_mkfifo :: "nat \<Rightarrow> 'w kfs \<Rightarrow> u64 \<Rightarrow> u64 \<Rightarrow> (int \<times> 'w kfs) panics" where
  "sys_mkfifo cpu k path_ptr path_len =
     (case user_str k path_ptr path_len of
        Inl e \<Rightarrow> err k e
      | Inr path \<Rightarrow> in_parent cpu k path fo_mkfifo mkfifo_error)"

fun symlink_error :: "fs_error \<Rightarrow> sys_error" where
  "symlink_error FsAlreadyExists = AlreadyExists"
| "symlink_error FsPermissionDenied = PermissionDenied"
| "symlink_error _ = InvalidArgument"

definition sys_symlink :: "nat \<Rightarrow> 'w kfs \<Rightarrow> u64 \<Rightarrow> u64 \<Rightarrow> u64 \<Rightarrow> u64 \<Rightarrow> (int \<times> 'w kfs) panics" where
  "sys_symlink cpu k target_ptr target_len link_ptr link_len =
     (case user_str k target_ptr target_len of
        Inl e \<Rightarrow> err k e
      | Inr target \<Rightarrow>
          (case user_str k link_ptr link_len of
             Inl e \<Rightarrow> err k e
           | Inr link_path \<Rightarrow> in_parent cpu k link_path (\<lambda>fs p name. fo_symlink fs p name target) symlink_error))"

definition sys_fs_rename :: "nat \<Rightarrow> 'w kfs \<Rightarrow> u64 \<Rightarrow> u64 \<Rightarrow> u64 \<Rightarrow> u64 \<Rightarrow> (int \<times> 'w kfs) panics" where
  "sys_fs_rename cpu k old_ptr old_len new_ptr new_len =
     (case (copy_from_user (k_mem k) old_ptr old_len, copy_from_user (k_mem k) new_ptr new_len) of
        (Some old_path, Some new_path) \<Rightarrow>
          if \<not> utf8_ok old_path then err k InvalidArgument
          else if \<not> utf8_ok new_path then err k InvalidArgument
          else do {
            full_old \<leftarrow> resolve_path cpu k old_path;
            full_new \<leftarrow> resolve_path cpu k new_path;
            (fs_old, rel_old) \<leftarrow> resolve_fs (k_mounts k) full_old;
            (r, k) \<leftarrow> on_fs (fo_open fs_old rel_old OF_READ) k;
            (case r of
               Inl _ \<Rightarrow> err k NotFound
             | Inr old_ino \<Rightarrow> do {
                 (rd, k) \<leftarrow> on_fs (fo_read fs_old old_ino 0 (replicate 8192 0)) k;
                 let (n, buf) = (case rd of Inr (n, buf) \<Rightarrow> (n, buf) | Inl _ \<Rightarrow> (0, replicate 8192 0));
                 k \<leftarrow> close_ino fs_old old_ino k;
                 (fs_new, rel_new) \<leftarrow> resolve_fs (k_mounts k) full_new;
                 (r, k) \<leftarrow> on_fs (fo_open fs_new rel_new OPEN_RWC) k;
                 (case r of
                    Inl _ \<Rightarrow> err k Busy
                  | Inr new_ino \<Rightarrow> do {
                      k \<leftarrow> (if n > length buf then None
                             else if n > 0 then do { (_, k) \<leftarrow> on_fs (fo_write fs_new new_ino 0 (take n buf)) k; Some k } else Some k);
                      k \<leftarrow> close_ino fs_new new_ino k;
                      (case split_parent_name full_old of
                         None \<Rightarrow> Some (0, k)
                       | Some (parent, name) \<Rightarrow> do {
                           (fs_p, rel_p) \<leftarrow> resolve_fs (k_mounts k) parent;
                           (r, k) \<leftarrow> on_fs (fo_open fs_p rel_p OF_READ) k;
                           (case r of
                              Inl _ \<Rightarrow> Some (0, k)
                            | Inr p_ino \<Rightarrow> do {
                                (_, k) \<leftarrow> on_fs (fo_unlink fs_p p_ino name) k;
                                k \<leftarrow> close_ino fs_p p_ino k;
                                Some (0, k) }) }) }) }) }
      | _ \<Rightarrow> err k BadPointer)"

definition sys_chdir :: "nat \<Rightarrow> 'w kfs \<Rightarrow> u64 \<Rightarrow> u64 \<Rightarrow> (int \<times> 'w kfs) panics" where
  "sys_chdir cpu k path_ptr path_len =
     (case user_str k path_ptr path_len of
        Inl e \<Rightarrow> err k e
      | Inr path \<Rightarrow> do {
          full_path \<leftarrow> resolve_path cpu k path;
          (fs, rel) \<leftarrow> resolve_fs (k_mounts k) full_path;
          (r, k) \<leftarrow> on_fs (fo_open fs rel OF_READ) k;
          (case r of
             Inl _ \<Rightarrow> err k NotFound
           | Inr ino \<Rightarrow> do {
               (stat_result, k) \<leftarrow> on_fs (fo_stat fs ino) k;
               k \<leftarrow> close_ino fs ino k;
               (case stat_result of
                  Inl _ \<Rightarrow> err k NotFound
                | Inr meta \<Rightarrow>
                    if \<not> im_is_dir meta then err k InvalidArgument
                    else do {
                      (result, k) \<leftarrow> cur_mut cpu k (\<lambda>t. ((), t\<lparr>t_cwd := full_path\<rparr>));
                      (case result of Some _ \<Rightarrow> Some (0, k) | None \<Rightarrow> err k NotFound) }) }) })"

subsection \<open>Metadata\<close>

definition to_le_bytes32 :: "u32 \<Rightarrow> u8 list" where
  "to_le_bytes32 w = map (\<lambda>i. ucast (drop_bit (8 * i) w)) [0..<4]"

definition to_le_bytes16 :: "u16 \<Rightarrow> u8 list" where
  "to_le_bytes16 w = map (\<lambda>i. ucast (drop_bit (8 * i) w)) [0..<2]"

text \<open>Modes \<open>0o40755\<close> and \<open>0o100644\<close>.\<close>

definition stat_buf :: "inode_meta \<Rightarrow> u8 list" where
  "stat_buf meta = to_le_bytes (im_size meta) @ to_le_bytes (im_ino meta) @ to_le_bytes32 (if im_is_dir meta then 0x41ED else 0x81A4)"

definition sys_fs_stat :: "nat \<Rightarrow> 'w kfs \<Rightarrow> u64 \<Rightarrow> u64 \<Rightarrow> u64 \<Rightarrow> (int \<times> 'w kfs) panics" where
  "sys_fs_stat cpu k path_ptr path_len out_ptr =
     (case user_str k path_ptr path_len of
        Inl e \<Rightarrow> err k e
      | Inr path \<Rightarrow> do {
          full_path \<leftarrow> resolve_path cpu k path;
          (fs, rel) \<leftarrow> resolve_fs (k_mounts k) full_path;
          (r, k) \<leftarrow> on_fs (fo_open fs rel OF_READ) k;
          (case r of
             Inl _ \<Rightarrow> err k NotFound
           | Inr ino \<Rightarrow> do {
               (s, k) \<leftarrow> on_fs (fo_stat fs ino) k;
               k \<leftarrow> close_ino fs ino k;
               (case s of Inr meta \<Rightarrow> put_user k out_ptr (stat_buf meta) | Inl _ \<Rightarrow> err k NotFound) }) })"

definition sys_lstat :: "nat \<Rightarrow> 'w kfs \<Rightarrow> u64 \<Rightarrow> u64 \<Rightarrow> u64 \<Rightarrow> (int \<times> 'w kfs) panics" where
  "sys_lstat cpu k path_ptr path_len out_ptr = sys_fs_stat cpu k path_ptr path_len out_ptr"

definition sys_fstat :: "nat \<Rightarrow> 'w kfs \<Rightarrow> u64 \<Rightarrow> u64 \<Rightarrow> (int \<times> 'w kfs) panics" where
  "sys_fstat cpu k fd out_ptr = do {
     e \<leftarrow> fd_lookup cpu k fd;
     (case e of
        None \<Rightarrow> err k NotFound
      | Some entry \<Rightarrow> do {
          (fs, _) \<leftarrow> resolve_fs (k_mounts k) (fd_path entry);
          (s, k) \<leftarrow> on_fs (fo_stat fs (fd_ino entry)) k;
          (case s of Inr meta \<Rightarrow> put_user k out_ptr (stat_buf meta) | Inl _ \<Rightarrow> err k NotFound) }) }"

text \<open>Names packed into the 4096-byte buffer, each with a terminator, until one does not fit.\<close>

fun pack_names :: "u8 list \<Rightarrow> dir_entry list \<Rightarrow> u8 list" where
  "pack_names acc [] = acc"
| "pack_names acc (e # es) =
     (if length acc + length (de_name e) + 1 > 4096 then acc else pack_names (acc @ de_name e @ [0]) es)"

definition sys_fs_readdir :: "nat \<Rightarrow> 'w kfs \<Rightarrow> u64 \<Rightarrow> u64 \<Rightarrow> u64 \<Rightarrow> (int \<times> 'w kfs) panics" where
  "sys_fs_readdir cpu k path_ptr path_len out_ptr =
     (case user_str k path_ptr path_len of
        Inl e \<Rightarrow> err k e
      | Inr path \<Rightarrow> do {
          full_path \<leftarrow> resolve_path cpu k path;
          (fs, rel) \<leftarrow> resolve_fs (k_mounts k) full_path;
          (r, k) \<leftarrow> on_fs (fo_open fs rel OF_READ) k;
          (case r of
             Inl _ \<Rightarrow> err k NotFound
           | Inr dir_ino \<Rightarrow> do {
               (es, k) \<leftarrow> on_fs (fo_readdir fs dir_ino) k;
               k \<leftarrow> close_ino fs dir_ino k;
               (case es of
                  Inl _ \<Rightarrow> err k NotFound
                | Inr entries \<Rightarrow>
                    let buf = pack_names [] entries; (ok, m) = copy_to_user (k_mem k) out_ptr buf in
                    if ok then Some (int (length buf), k\<lparr>k_mem := m\<rparr>) else err k BadPointer) }) })"

definition DIRENT_TYPE_FILE :: u8 where "DIRENT_TYPE_FILE = 8"
definition DIRENT_TYPE_DIR :: u8 where "DIRENT_TYPE_DIR = 4"
definition DIRENT_HEADER_SIZE :: nat where "DIRENT_HEADER_SIZE = 19"

definition dirent_reclen :: "rstr \<Rightarrow> u16" where
  "dirent_reclen name = of_nat ((DIRENT_HEADER_SIZE + (length name + 1) + 7) div 8 * 8)"

fun dents_fill :: "nat \<Rightarrow> dir_entry list \<Rightarrow> u8 list \<Rightarrow> nat \<Rightarrow> (u8 list \<times> nat) panics" where
  "dents_fill buf_len [] out pos = Some (out, pos)"
| "dents_fill buf_len (e # es) out pos =
     (let reclen = dirent_reclen (de_name e); next_off = pos + unat reclen; name_start = pos + DIRENT_HEADER_SIZE in
      if next_off > buf_len then Some (out, pos)
      else do {
        out \<leftarrow> put_slice pos (to_le_bytes (de_ino e)) out;
        out \<leftarrow> put_slice (pos + 8) (to_le_bytes (of_nat next_off)) out;
        out \<leftarrow> put_slice (pos + 16) (to_le_bytes16 reclen) out;
        out \<leftarrow> put_slice (pos + 18) [if de_is_dir e then DIRENT_TYPE_DIR else DIRENT_TYPE_FILE] out;
        out \<leftarrow> put_slice name_start (de_name e) out;
        out \<leftarrow> put_slice (name_start + length (de_name e)) [0] out;
        dents_fill buf_len es out next_off })"

definition sys_getdents64 :: "nat \<Rightarrow> 'w kfs \<Rightarrow> u64 \<Rightarrow> u64 \<Rightarrow> u64 \<Rightarrow> (int \<times> 'w kfs) panics" where
  "sys_getdents64 cpu k fd buf_ptr buf_len =
     (if fd = FD_STDIN \<or> fd = FD_STDOUT then err k InvalidArgument
      else if buf_ptr = 0 \<or> buf_ptr \<ge> USER_SPACE_MAX then err k BadPointer
      else if sat_add buf_ptr buf_len > USER_SPACE_MAX then err k BadPointer
      else let buf_len = min (unat buf_len) SYS_MAX_MSG_SIZE in
        if buf_len < DIRENT_HEADER_SIZE + 2 then err k InvalidArgument
        else do {
          e \<leftarrow> fd_lookup cpu k fd;
          (case e of
             None \<Rightarrow> err k NotFound
           | Some entry \<Rightarrow> do {
               (fs, _) \<leftarrow> resolve_fs (k_mounts k) (fd_path entry);
               (r, k) \<leftarrow> on_fs (fo_readdir fs (fd_ino entry)) k;
               (case r of
                  Inl _ \<Rightarrow> err k NotFound
                | Inr entries \<Rightarrow>
                    if entries = [] then Some (0, k)
                    else do {
                      (out, pos) \<leftarrow> dents_fill buf_len entries (replicate buf_len 0) 0;
                      if pos = 0 then Some (0, k)
                      else let (ok, m) = copy_to_user (k_mem k) buf_ptr (take pos out) in
                        if ok then Some (int pos, k\<lparr>k_mem := m\<rparr>) else err k BadPointer }) }) })"

definition ACCESS_R_OK :: u64 where "ACCESS_R_OK = 1"
definition ACCESS_W_OK :: u64 where "ACCESS_W_OK = 2"
definition ACCESS_X_OK :: u64 where "ACCESS_X_OK = 4"

text \<open>The write check of \<open>access\<close>: close, open for writing and close, and reopen when execution is asked for too. \<open>Inl\<close> ends
  the call.\<close>

definition access_write :: "'w file_system \<Rightarrow> rstr \<Rightarrow> u64 \<Rightarrow> u64 \<Rightarrow> 'w kfs \<Rightarrow> ((sys_error + unit) \<times> 'w kfs) panics" where
  "access_write fs rel mode ino k = do {
     k \<leftarrow> close_ino fs ino k;
     (w, k) \<leftarrow> on_fs (fo_open fs rel 3) k;
     (case w of
        Inl _ \<Rightarrow> Some (Inl PermissionDenied, k)
      | Inr write_ino \<Rightarrow> do {
          k \<leftarrow> close_ino fs write_ino k;
          if mode AND ACCESS_X_OK \<noteq> 0 then do {
            (r, k) \<leftarrow> on_fs (fo_open fs rel OF_READ) k;
            (case r of
               Inl _ \<Rightarrow> Some (Inl NotFound, k)
             | Inr reopened \<Rightarrow> do { k \<leftarrow> close_ino fs reopened k; Some (Inr (), k) }) }
          else Some (Inr (), k) }) }"

definition sys_access :: "nat \<Rightarrow> 'w kfs \<Rightarrow> u64 \<Rightarrow> u64 \<Rightarrow> u64 \<Rightarrow> (int \<times> 'w kfs) panics" where
  "sys_access cpu k path_ptr path_len mode =
     (case user_str k path_ptr path_len of
        Inl e \<Rightarrow> err k e
      | Inr path \<Rightarrow>
          if mode AND NOT (ACCESS_R_OK OR ACCESS_W_OK OR ACCESS_X_OK) \<noteq> 0 then err k InvalidArgument
          else do {
            full_path \<leftarrow> resolve_path cpu k path;
            (fs, rel) \<leftarrow> resolve_fs (k_mounts k) full_path;
            (r, k) \<leftarrow> on_fs (fo_open fs rel OF_READ) k;
            (case r of
               Inl _ \<Rightarrow> err k NotFound
             | Inr ino \<Rightarrow>
                 if mode = 0 then do { k \<leftarrow> close_ino fs ino k; Some (0, k) }
                 else do {
                   (s, k) \<leftarrow> on_fs (fo_stat fs ino) k;
                   (case s of
                      Inl _ \<Rightarrow> do { k \<leftarrow> close_ino fs ino k; err k NotFound }
                    | Inr meta \<Rightarrow> do {
                        (w, k) \<leftarrow> (if mode AND ACCESS_W_OK \<noteq> 0 then access_write fs rel mode ino k else Some (Inr (), k));
                        (case w of
                           Inl e \<Rightarrow> err k e
                         | Inr _ \<Rightarrow> do {
                             k \<leftarrow> close_ino fs ino k;
                             if mode AND ACCESS_X_OK \<noteq> 0 \<and> im_is_dir meta then err k PermissionDenied
                             else Some (0, k) }) }) }) })"

text \<open>The path is used as given, not resolved against the working directory.\<close>

definition sys_readlink :: "'w kfs \<Rightarrow> u64 \<Rightarrow> u64 \<Rightarrow> u64 \<Rightarrow> u64 \<Rightarrow> (int \<times> 'w kfs) panics" where
  "sys_readlink k path_ptr path_len buf_ptr buf_len =
     (case user_str k path_ptr path_len of
        Inl e \<Rightarrow> err k e
      | Inr path \<Rightarrow> do {
          (fs, rel) \<leftarrow> resolve_fs (k_mounts k) path;
          (r, k) \<leftarrow> on_fs (fo_open fs rel OF_READ) k;
          (case r of
             Inl _ \<Rightarrow> err k NotFound
           | Inr ino \<Rightarrow> do {
               (x, k) \<leftarrow> on_fs (fo_readlink fs ino (replicate (min (unat buf_len) SYS_MAX_MSG_SIZE) 0)) k;
               k \<leftarrow> close_ino fs ino k;
               (case x of
                  Inl _ \<Rightarrow> err k NotFound
                | Inr (n, buf) \<Rightarrow>
                    if n > length buf then None
                    else let (ok, m) = copy_to_user (k_mem k) buf_ptr (take n buf) in
                    if ok then Some (int n, k\<lparr>k_mem := m\<rparr>) else err k BadPointer) }) })"

fun chmod_error :: "fs_error \<Rightarrow> sys_error" where
  "chmod_error FsNotFound = NotFound"
| "chmod_error FsPermissionDenied = PermissionDenied"
| "chmod_error _ = NotSupported"

definition sys_chmod :: "nat \<Rightarrow> 'w kfs \<Rightarrow> u64 \<Rightarrow> u64 \<Rightarrow> u64 \<Rightarrow> (int \<times> 'w kfs) panics" where
  "sys_chmod cpu k path_ptr path_len mode =
     (case user_str k path_ptr path_len of
        Inl e \<Rightarrow> err k e
      | Inr path \<Rightarrow> do {
          full_path \<leftarrow> resolve_path cpu k path;
          (fs, rel) \<leftarrow> resolve_fs (k_mounts k) full_path;
          (r, k) \<leftarrow> on_fs (fo_open fs rel OF_READ) k;
          (case r of
             Inl _ \<Rightarrow> err k NotFound
           | Inr ino \<Rightarrow> do {
               (result, k) \<leftarrow> on_fs (fo_chmod fs ino (ucast (mode AND 0xFFF))) k;
               k \<leftarrow> close_ino fs ino k;
               (case result of Inr _ \<Rightarrow> Some (0, k) | Inl e \<Rightarrow> err k (chmod_error e)) }) })"

end
