(* ===== verification/Sched_All.thy ===== *)
theory Sched_All
  imports Sched_Lookup
begin

text \<open>
  Properties of single tasks that the scheduler keeps. The scheduler itself changes only the state and the
  context of a task, and its callers change a task through a closure; so a predicate that is closed
  under the first and kept by the closures holds of every task after any run. The locale is interpreted
  on the well-formedness of a task and on its having no exit status.
\<close>

definition all_tasks :: "(task \<Rightarrow> bool) \<Rightarrow> sched \<Rightarrow> bool" where
  "all_tasks P s \<longleftrightarrow> (\<forall>q\<in>set (sc_cpus s). \<forall>t\<in>set (cq_ready q). P t) \<and> (\<forall>t\<in>set (sc_blocked s). P t)
     \<and> (\<forall>t\<in>set (sc_migration s). P t)"

lemma all_tasks_visible: "all_tasks P s \<Longrightarrow> t \<in># visible s \<Longrightarrow> P t"
  by (auto simp: all_tasks_def visible_def ready_tasks_in)

lemma all_tasks_queue: "all_tasks P s \<Longrightarrow> queue_at s c = Some q \<Longrightarrow> t \<in> set (cq_ready q) \<Longrightarrow> P t"
  by (auto simp: all_tasks_def queue_at_Some)

lemma all_put_queue:
  "all_tasks P s \<Longrightarrow> \<forall>t\<in>set (cq_ready q). P t \<Longrightarrow> all_tasks P (put_queue s c q)"
  unfolding all_tasks_def put_queue_def using set_update_subset_insert [of "sc_cpus s" c q] by auto

lemma all_push_ready: "all_tasks P s \<Longrightarrow> P t \<Longrightarrow> push_ready s c t = Some s' \<Longrightarrow> all_tasks P s'"
  by (auto dest!: push_ready_spec(2) intro!: all_put_queue simp: all_tasks_queue)

lemma all_fields [simp]:
  "all_tasks P (s\<lparr>sc_current_id := a\<rparr>) = all_tasks P s" "all_tasks P (s\<lparr>sc_next_id := b\<rparr>) = all_tasks P s"
  "all_tasks P (s\<lparr>sc_switch := c\<rparr>) = all_tasks P s" "all_tasks P (s\<lparr>sc_ipis := d\<rparr>) = all_tasks P s"
  "all_tasks P (s\<lparr>sc_locks := e\<rparr>) = all_tasks P s" "all_tasks P (s\<lparr>sc_freed := f\<rparr>) = all_tasks P s"
  "all_tasks P (s\<lparr>sc_blocked_cpu := g\<rparr>) = all_tasks P s"
  by (simp_all add: all_tasks_def)

lemma all_ipi [simp]: "all_tasks P (send_ipi_to_cpu s c) = all_tasks P s"
  by (simp add: send_ipi_to_cpu_def split: option.split)

lemma all_unblocked: "all_tasks P s \<Longrightarrow> all_tasks P (s\<lparr>sc_blocked := remove_at i (sc_blocked s)\<rparr>)"
  using set_remove_at_subset [of i "sc_blocked s"] by (auto simp: all_tasks_def)

lemma all_spawn: "all_tasks P s \<Longrightarrow> P t \<Longrightarrow> spawn_task_from s t = Some (r, s') \<Longrightarrow> all_tasks P s'"
  by (auto simp: spawn_task_from_def bind_eq_Some_conv split: if_splits intro: all_push_ready)

lemma all_spawn_here: "all_tasks P s \<Longrightarrow> P t \<Longrightarrow> spawn_task_on_current c s t = Some (r, s') \<Longrightarrow> all_tasks P s'"
  by (auto simp: spawn_task_on_current_def bind_eq_Some_conv split: if_splits intro: all_push_ready)

text \<open>A task taken out of a ready queue.\<close>

lemma all_dequeue:
  assumes "all_tasks P s" and "queue_at s c = Some q"
  shows "all_tasks P (put_queue s c (q\<lparr>cq_ready := remove_at i (cq_ready q)\<rparr>))"
  using all_put_queue [OF assms(1), of "q\<lparr>cq_ready := remove_at i (cq_ready q)\<rparr>" c] all_tasks_queue [OF assms]
    set_remove_at_subset [of i "cq_ready q"] by auto

lemma all_position:
  "\<forall>t\<in>set ts. P t \<Longrightarrow> position p ts = Some i \<Longrightarrow> P (ts ! i)"
  using position_lt nth_mem by metis

lemma all_migrate:
  assumes a: "all_tasks P s" and r: "migrate_task s tid x y = Some (b, s')"
  shows "all_tasks P s'"
proof (cases "b")
  case True
  from r True obtain q i where q: "queue_at s x = Some q" and i: "position (\<lambda>t. t_id t = tid) (cq_ready q) = Some i"
    and p: "push_ready (put_queue s x (q\<lparr>cq_ready := remove_at i (cq_ready q)\<rparr>)) y (cq_ready q ! i) = Some s'"
    by (auto simp: migrate_task_def bind_eq_Some_conv split: if_splits option.splits)
  show ?thesis
    by (rule all_push_ready [OF all_dequeue [OF a q] _ p]) (rule all_position [OF _ i, of P], use all_tasks_queue [OF a q] in blast)
next
  case False
  then show ?thesis using a r by (auto simp: migrate_task_def bind_eq_Some_conv split: if_splits option.splits)
qed

lemma all_steal:
  assumes a: "all_tasks P s" and r: "steal_from_migration c s = Some (b, s')"
  shows "all_tasks P s'"
proof (cases "sc_migration s")
  case Nil
  then show ?thesis using a r by (simp add: steal_from_migration_def)
next
  case (Cons t ts)
  then obtain u where "push_ready (s\<lparr>sc_migration := ts\<rparr>) c t = Some u" "s' = u"
    using r by (auto simp: steal_from_migration_def bind_eq_Some_conv)
  moreover have "all_tasks P (s\<lparr>sc_migration := ts\<rparr>)" "P t" using a Cons by (simp_all add: all_tasks_def)
  ultimately show ?thesis using all_push_ready by blast
qed

lemma find_mut_all:
  assumes "find_mut p f ts = Some (r, us)" and "\<forall>t\<in>set ts. P t" and "\<And>t. P t \<Longrightarrow> P (snd (f t))"
  shows "\<forall>t\<in>set us. P t"
  using assms(1,2) by (induction ts arbitrary: us) (auto simp: assms(3) split: if_splits)

lemma in_queue_all:
  assumes a: "all_tasks P s" and f: "\<And>t. P t \<Longrightarrow> P (snd (f t))" and r: "in_queue s c tid f = Some (x, s')"
  shows "all_tasks P s'"
proof -
  obtain q where q: "queue_at s c = Some q" using r by (auto simp: in_queue_def bind_eq_Some_conv)
  have qa: "\<forall>t\<in>set (cq_ready q). P t" using all_tasks_queue [OF a q] by blast
  show ?thesis
  proof (cases "find_mut (\<lambda>t. t_id t = tid) f (cq_ready q)")
    case None
    then show ?thesis using r q a by (simp add: in_queue_def)
  next
    case (Some p)
    obtain y ts where p: "p = (y, ts)" by (cases p)
    have "s' = put_queue s c (q\<lparr>cq_ready := ts\<rparr>)" using Some r q by (simp add: in_queue_def p)
    then show ?thesis using all_put_queue [OF a] find_mut_all [OF Some [unfolded p] qa f] by simp
  qed
qed

lemma in_queues_all:
  assumes a: "all_tasks P s" and f: "\<And>t. P t \<Longrightarrow> P (snd (f t))"
  shows "in_queues cs s tid f = Some (x, s') \<Longrightarrow> all_tasks P s'"
proof (induction cs)
  case (Cons c cs)
  then obtain r u where u: "in_queue s c tid f = Some (r, u)" by (auto simp: bind_eq_Some_conv)
  show ?case using Cons in_queue_all [OF a f u] by (cases r) (simp_all add: u)
qed (use a in simp)

lemma in_blocked_all:
  assumes a: "all_tasks P s" and f: "\<And>t. P t \<Longrightarrow> P (snd (f t))" and r: "in_blocked s tid f = (x, s')"
  shows "all_tasks P s'"
proof (cases "find_mut (\<lambda>t. t_id t = tid) f (sc_blocked s)")
  case None
  then show ?thesis using a r by (simp add: in_blocked_def)
next
  case (Some p)
  obtain y ts where p: "p = (y, ts)" by (cases p)
  have b: "\<forall>t\<in>set (sc_blocked s). P t" using a by (simp add: all_tasks_def)
  have "\<forall>t\<in>set ts. P t" by (rule find_mut_all [OF Some [unfolded p] b f])
  then show ?thesis using a r Some by (auto simp: in_blocked_def all_tasks_def p)
qed

lemma with_task_mut_all:
  assumes a: "all_tasks P s" and f: "\<And>t. P t \<Longrightarrow> P (snd (f t))" and r: "with_task_mut cpu s tid f = Some (x, s')"
  shows "all_tasks P s'"
proof -
  obtain y u where u: "in_queues (cpu # filter (\<lambda>i. i \<noteq> cpu) [0..<MAX_CPUS]) s tid f = Some (y, u)"
    using r by (auto simp: with_task_mut_def bind_eq_Some_conv simp del: in_queues.simps)
  show ?thesis
  proof (cases y)
    case None
    then show ?thesis using r u in_blocked_all [OF a f] by (simp add: with_task_mut_def del: in_queues.simps)
  next
    case (Some z)
    then show ?thesis using r u in_queues_all [OF a f u] by (simp add: with_task_mut_def del: in_queues.simps)
  qed
qed

lemma with_current_task_mut_all:
  assumes a: "all_tasks P s" and f: "\<And>t. P t \<Longrightarrow> P (snd (f t))" and r: "with_current_task_mut cpu s f = Some (x, s')"
  shows "all_tasks P s'"
proof -
  obtain y u where u: "in_queue s cpu (current_task_id s) f = Some (y, u)"
    using r by (auto simp: with_current_task_mut_def bind_eq_Some_conv)
  show ?thesis
  proof (cases y)
    case None
    then show ?thesis using r u in_blocked_all [OF a f] by (simp add: with_current_task_mut_def)
  next
    case (Some z)
    then show ?thesis using r u in_queue_all [OF a f u] by (simp add: with_current_task_mut_def)
  qed
qed

subsection \<open>Predicates closed under the scheduler's own changes\<close>

locale task_property =
  fixes P :: "task \<Rightarrow> bool"
  assumes P_state: "P t \<Longrightarrow> P (t\<lparr>t_state := x\<rparr>)"
    and P_context: "P t \<Longrightarrow> P (t\<lparr>t_context := c\<rparr>)"
begin

lemma wake_all:
  assumes a: "all_tasks P s" and r: "wake_task_by_id cpu s tid = Some s'"
  shows "all_tasks P s'"
proof (cases "position (\<lambda>t. t_id t = tid) (sc_blocked s)")
  case None
  then show ?thesis using a r by (simp add: wake_task_by_id_def)
next
  case (Some i)
  let ?t = "(sc_blocked s ! i)\<lparr>t_state := Ready\<rparr>"
  let ?s = "s\<lparr>sc_blocked := remove_at i (sc_blocked s), sc_blocked_cpu := bt_remove tid (sc_blocked_cpu s)\<rparr>"
  obtain c u where "push_ready ?s c ?t = Some u" "s' = u \<or> s' = send_ipi_to_cpu u c"
    using r Some by (auto simp: wake_task_by_id_def Let_def bind_eq_Some_conv split: if_splits)
  moreover have "all_tasks P ?s" using all_unblocked [OF a, of i] by simp
  moreover have "P ?t" using all_position [OF _ Some, of P] a P_state by (simp add: all_tasks_def)
  ultimately show ?thesis using all_push_ready [of P ?s ?t] by auto
qed

lemma unblock_all:
  assumes a: "all_tasks P s" and r: "unblock_current cpu s = Some s'"
  shows "all_tasks P s'"
proof -
  consider "s' = s" | i p where "position p (sc_blocked s) = Some i"
      "push_ready (s\<lparr>sc_blocked := remove_at i (sc_blocked s)\<rparr>) cpu ((sc_blocked s ! i)\<lparr>t_state := Ready\<rparr>) = Some s'"
    using r by (auto simp: unblock_current_def Let_def bind_eq_Some_conv split: option.splits)
  then show ?thesis
  proof cases
    case 2
    show ?thesis
      by (rule all_push_ready [OF all_unblocked [OF a] P_state 2(2)]) (rule all_position [OF _ 2(1), of P], use a in \<open>simp add: all_tasks_def\<close>)
  qed (use a in simp)
qed

lemma block_task_all:
  assumes a: "all_tasks P s" and q: "queue_at s cpu = Some q"
  shows "all_tasks P (block_task cpu s q tid ctx)"
proof (cases "position (\<lambda>t. t_id t = tid) (cq_ready q)")
  case None
  then show ?thesis using a by (simp add: block_task_def)
next
  case (Some i)
  have "P ((cq_ready q ! i)\<lparr>t_state := Blocked, t_context := Some ctx\<rparr>)"
    by (rule P_context, rule P_state, rule all_position [OF _ Some, of P]) (use all_tasks_queue [OF a q] in blast)
  then show ?thesis using all_dequeue [OF a q, of i] Some by (simp add: block_task_def Let_def all_tasks_def)
qed

lemma switch_all:
  assumes a: "all_tasks P s" and r: "switch_next cpu s = Some (b, s')"
  shows "all_tasks P s'"
proof -
  obtain q where q: "queue_at s cpu = Some q" using r by (auto simp: switch_next_def bind_eq_Some_conv)
  show ?thesis
  proof (cases "cq_ready q")
    case Nil
    then show ?thesis using r q a by (simp add: switch_next_def)
  next
    case (Cons t ts)
    then have "P (t\<lparr>t_state := Running\<rparr>)" "\<forall>t\<in>set ts. P t" using all_tasks_queue [OF a q] P_state by simp_all
    then have "all_tasks P (put_queue s cpu \<lparr>cq_ready = ts @ [t\<lparr>t_state := Running\<rparr>], cq_current = Some (t_id t)\<rparr>)"
      by (intro all_put_queue [OF a]) simp
    then show ?thesis using r q Cons by (auto simp: switch_next_def Let_def split: option.splits)
  qed
qed

lemma block_all:
  assumes a: "all_tasks P s" and r: "block_and_switch cpu s ctx = Some (b, s')"
  shows "all_tasks P s'"
proof -
  obtain q where q: "queue_at s cpu = Some q" using r by (auto simp: block_and_switch_def bind_eq_Some_conv)
  show ?thesis
  proof (cases "cq_current q")
    case None
    then show ?thesis using r q a by (simp add: block_and_switch_def)
  next
    case (Some c)
    then have "switch_next cpu (block_task cpu s q c ctx) = Some (b, s')" using r q by (simp add: block_and_switch_def)
    then show ?thesis by (rule switch_all [OF block_task_all [OF a q]])
  qed
qed

lemma schedule_all:
  assumes a: "all_tasks P s" and r: "schedule_next_local s cpu = Some (b, s')"
  shows "all_tasks P s'"
proof -
  obtain q where q: "queue_at s cpu = Some q" using r by (auto simp: schedule_next_local_def bind_eq_Some_conv)
  show ?thesis
  proof (cases "cq_ready q = []")
    case True
    then show ?thesis using r q a by (simp add: schedule_next_local_def)
  next
    case False
    let ?i = "max_priority_idx (cq_ready q)"
    let ?t = "(cq_ready q ! ?i)\<lparr>t_state := Running\<rparr>"
    have "?i < length (cq_ready q)" using max_priority_idx_spec(1) False by blast
    then have "\<forall>t\<in>set (remove_at ?i (cq_ready q) @ [?t]). P t"
      using all_tasks_queue [OF a q] P_state set_remove_at_subset [of ?i "cq_ready q"] by auto
    then have "all_tasks P (put_queue s cpu \<lparr>cq_ready = remove_at ?i (cq_ready q) @ [?t], cq_current = Some (t_id ?t)\<rparr>)"
      by (intro all_put_queue [OF a]) simp
    then show ?thesis using r q False by (auto simp: schedule_next_local_def Let_def)
  qed
qed

lemma terminate_all:
  assumes a: "all_tasks P s" and r: "terminate_current cpu s status = Some s'"
  shows "all_tasks P s'"
proof -
  obtain q where q: "queue_at s cpu = Some q" using r by (auto simp: terminate_current_def bind_eq_Some_conv)
  show ?thesis
  proof (cases "\<exists>c i. cq_current q = Some c \<and> position (\<lambda>t. t_id t = c) (cq_ready q) = Some i")
    case True
    then obtain c i where c: "cq_current q = Some c" "position (\<lambda>t. t_id t = c) (cq_ready q) = Some i" by blast
    let ?u = "\<lambda>fr. put_queue s cpu (q\<lparr>cq_ready := remove_at i (cq_ready q)\<rparr>)
      \<lparr>sc_locks := release_all_for_task (sc_locks s) c, sc_freed := fr\<rparr>"
    let ?fr = "case t_page_table (cq_ready q ! i) of Some p \<Rightarrow> sc_freed s @ [p] | None \<Rightarrow> sc_freed s"
    have "terminate_current cpu s status =
      (case t_parent_id (cq_ready q ! i) of Some pid \<Rightarrow> wake_task_by_id cpu (?u ?fr) pid | None \<Rightarrow> Some (?u ?fr))"
      using q c by (cases "t_page_table (cq_ready q ! i)"; cases "t_parent_id (cq_ready q ! i)")
        (simp_all add: terminate_current_def Let_def put_queue_def)
    moreover have "all_tasks P (?u ?fr)" using all_dequeue [OF a q, of i] by simp
    ultimately show ?thesis using r wake_all [of "?u ?fr" cpu _ s'] by (cases "t_parent_id (cq_ready q ! i)") (simp_all del: all_fields)
  next
    case False
    then have "s' = s" using r q by (auto simp: terminate_current_def split: option.splits)
    then show ?thesis using a by simp
  qed
qed

end

interpretation ok: task_property task_ok
  by unfold_locales (simp_all add: task_ok_def)

interpretation alive: task_property "\<lambda>t. t_exit_status t = None"
  by unfold_locales simp_all

end
