(* ===== verification/Syscall_Inv.thy ===== *)
theory Syscall_Inv
  imports Syscall_Signal Syscall_File Sched_All
begin

text \<open>
  What every system call keeps: the invariant of the scheduler, well-formed tasks without exit status in all
  queues, and the memory above user space. The rules of the collection \<open>safe_intros\<close> follow the structure of the
  calls, so that the lemma of a call is an application of them.
\<close>

named_theorems safe_intros
named_theorems tame_simps

definition task_live :: "task \<Rightarrow> bool" where
  "task_live t \<longleftrightarrow> task_ok t \<and> t_exit_status t = None"

interpretation live: task_property task_live
  by unfold_locales (simp_all add: task_live_def task_ok_def)

definition kernel_inv :: "'z kst_scheme \<Rightarrow> bool" where
  "kernel_inv k \<longleftrightarrow> sched_inv (k_sched k) \<and> all_tasks task_live (k_sched k)"

text \<open>The memory from the end of user space on is unchanged.\<close>

definition confined :: "memory \<Rightarrow> memory \<Rightarrow> bool" where
  "confined m m' \<longleftrightarrow> (\<forall>a. USER_SPACE_MAX \<le> a \<longrightarrow> m' a = m a)"

definition good :: "'z kst_scheme \<Rightarrow> 'z kst_scheme \<Rightarrow> bool" where
  "good k k' \<longleftrightarrow> (kernel_inv k \<longrightarrow> kernel_inv k') \<and> confined (k_mem k) (k_mem k')"

definition safe :: "'z kst_scheme \<Rightarrow> ('a \<times> 'z kst_scheme) panics \<Rightarrow> bool" where
  "safe k m \<longleftrightarrow> (\<forall>r k'. m = Some (r, k') \<longrightarrow> good k k')"

text \<open>A closure on a task that keeps its identifier and its well-formedness.\<close>

definition tame :: "(task \<Rightarrow> 'r \<times> task) \<Rightarrow> bool" where
  "tame f \<longleftrightarrow> (\<forall>t. t_id (snd (f t)) = t_id t \<and> (task_live t \<longrightarrow> task_live (snd (f t))))"

subsection \<open>Rules\<close>

lemma confined_refl [simp]: "confined m m"
  by (simp add: confined_def)

lemma confined_trans: "confined a b \<Longrightarrow> confined b c \<Longrightarrow> confined a c"
  by (simp add: confined_def)

lemma good_refl [simp]: "good k k"
  by (simp add: good_def)

lemma good_trans: "good a b \<Longrightarrow> good b c \<Longrightarrow> good a c"
  unfolding good_def using confined_trans by blast

lemma safeD: "safe k m \<Longrightarrow> m = Some (r, k') \<Longrightarrow> good k k'"
  by (simp add: safe_def)

lemma safe_None [simp, safe_intros]: "safe k None"
  by (simp add: safe_def)

lemma safe_err [simp, safe_intros]: "safe k (err k e)"
  by (simp add: safe_def err_def)

lemma safe_ret [simp, safe_intros]: "safe k (Some (r, k))"
  by (simp add: safe_def)

lemma safe_step: "good k k' \<Longrightarrow> safe k' m \<Longrightarrow> safe k m"
  unfolding safe_def using good_trans by blast

lemma safe_bind [safe_intros]:
  assumes "safe k m" and "\<And>r k'. safe k' (g r k')"
  shows "safe k (m \<bind> (\<lambda>(r, k'). g r k'))"
  unfolding safe_def
proof (intro allI impI)
  fix r k' assume "m \<bind> (\<lambda>(r, k'). g r k') = Some (r, k')"
  then obtain x k1 where m: "m = Some (x, k1)" and g: "g x k1 = Some (r, k')" by (auto simp: bind_eq_Some_conv)
  show "good k k'" using good_trans [OF safeD [OF assms(1) m] safeD [OF assms(2) g]] .
qed

text \<open>A step whose result is only the new state, and one without effect on it.\<close>

lemma safe_bind_state:
  assumes "\<And>k'. m = Some k' \<Longrightarrow> good k k'" and "\<And>k'. safe k' (g k')"
  shows "safe k (m \<bind> g)"
proof (cases m)
  case (Some k')
  then show ?thesis using safe_step [OF assms(1) assms(2)] by simp
qed simp

lemma safe_bind_pure:
  assumes "\<And>x. m = Some x \<Longrightarrow> safe k (g x)"
  shows "safe k (m \<bind> g)"
  using assms by (cases m) simp_all

lemma safe_bind_pure2:
  assumes "\<And>x y. m = Some (x, y) \<Longrightarrow> safe k (g x y)"
  shows "safe k (m \<bind> (\<lambda>(x, y). g x y))"
  using assms by (cases m) auto

lemma safe_let: "(\<And>x. x = a \<Longrightarrow> safe k (g x)) \<Longrightarrow> safe k (let x = a in g x)"
  by simp

lemma safe_map: "safe k m \<Longrightarrow> safe k (map_option (\<lambda>(r, k'). (f r, k')) m)"
  by (auto simp: safe_def)

subsection \<open>User memory\<close>

lemma copy_to_user_confined: "copy_to_user m a bs = (ok, m') \<Longrightarrow> confined m m'"
  using copy_to_user_True [of m a bs m'] copy_to_user_False [of m a bs m'] write_bytes_other
  by (cases ok) (auto simp: confined_def)

lemma good_mem [simp]: "good k (k\<lparr>k_mem := m\<rparr>) \<longleftrightarrow> confined (k_mem k) m"
  by (auto simp: good_def kernel_inv_def)

lemma safe_copy_out [safe_intros]:
  assumes "\<And>m. confined (k_mem k) m \<Longrightarrow> safe (k\<lparr>k_mem := m\<rparr>) (f (k\<lparr>k_mem := m\<rparr>))" and "safe k e"
  shows "safe k (let (ok, m) = copy_to_user (k_mem k) a bs in if ok then f (k\<lparr>k_mem := m\<rparr>) else e)"
proof -
  obtain ok m where r: "copy_to_user (k_mem k) a bs = (ok, m)" by fastforce
  note c = copy_to_user_confined [OF r]
  have "safe k (f (k\<lparr>k_mem := m\<rparr>))" by (rule safe_step [OF _ assms(1) [OF c]]) (simp add: c)
  then show ?thesis using assms(2) r by simp
qed

lemma put_user_safe [safe_intros]: "safe k (put_user k a bs)"
  unfolding put_user_def by (rule safe_copy_out) simp_all

subsection \<open>Tasks\<close>

lemma cur_mut_safe [safe_intros]:
  assumes cpu: "cpu < MAX_CPUS" and f: "tame f"
  shows "safe k (cur_mut cpu k f)"
  unfolding safe_def
proof (intro allI impI)
  fix r k' assume r: "cur_mut cpu k f = Some (r, k')"
  then obtain s where s: "with_current_task_mut cpu (k_sched k) f = Some (r, s)" "k' = k\<lparr>k_sched := s\<rparr>"
    by (auto simp: cur_mut_def bind_eq_Some_conv)
  have "kernel_inv k \<longrightarrow> kernel_inv k'"
  proof
    assume k: "kernel_inv k"
    then have inv: "sched_inv (k_sched k)" and all: "all_tasks task_live (k_sched k)" by (simp_all add: kernel_inv_def)
    have fid: "\<And>t. t_id (snd (f t)) = t_id t" and fl: "\<And>t. task_live t \<Longrightarrow> task_live (snd (f t))" using f by (simp_all add: tame_def)
    have "keeps (k_sched k) s"
      using s(1) in_queue_ok [OF inv cpu fid, of "current_task_id (k_sched k)"]
        in_blocked_ok [OF inv fid, of "current_task_id (k_sched k)"]
      by (auto simp: with_current_task_mut_def split: option.splits)
    moreover have "all_tasks task_live s" by (rule with_current_task_mut_all [OF all fl s(1)])
    ultimately show "kernel_inv k'" by (simp add: kernel_inv_def s(2) keeps_def)
  qed
  then show "good k k'" by (simp add: good_def s(2))
qed

lemma task_mut_safe [safe_intros]:
  assumes cpu: "cpu < MAX_CPUS" and f: "tame f"
  shows "safe k (task_mut cpu k tid f)"
  unfolding safe_def
proof (intro allI impI)
  fix r k' assume r: "task_mut cpu k tid f = Some (r, k')"
  then obtain s where s: "with_task_mut cpu (k_sched k) tid f = Some (r, s)" "k' = k\<lparr>k_sched := s\<rparr>"
    by (auto simp: task_mut_def bind_eq_Some_conv)
  have "kernel_inv k \<longrightarrow> kernel_inv k'"
  proof
    assume k: "kernel_inv k"
    then have inv: "sched_inv (k_sched k)" and all: "all_tasks task_live (k_sched k)" by (simp_all add: kernel_inv_def)
    have fid: "\<And>t. t_id (snd (f t)) = t_id t" and fl: "\<And>t. task_live t \<Longrightarrow> task_live (snd (f t))" using f by (simp_all add: tame_def)
    have "keeps (k_sched k) s" using with_task_mut_ok [OF inv cpu fid, of tid] s(1) by auto
    moreover have "all_tasks task_live s" by (rule with_task_mut_all [OF all fl s(1)])
    ultimately show "kernel_inv k'" by (simp add: kernel_inv_def s(2) keeps_def)
  qed
  then show "good k k'" by (simp add: good_def s(2))
qed

lemma wake_good:
  assumes cpu: "cpu < MAX_CPUS" and r: "wake cpu k tid = Some k'"
  shows "good k k'"
proof -
  obtain s where s: "wake_task_by_id cpu (k_sched k) tid = Some s" "k' = k\<lparr>k_sched := s\<rparr>"
    using r by (auto simp: wake_def bind_eq_Some_conv)
  have "kernel_inv k \<longrightarrow> kernel_inv k'"
    using wake_task_ok [OF _ cpu, of "k_sched k" tid] live.wake_all [OF _ s(1)] s by (auto simp: kernel_inv_def keeps_def)
  then show ?thesis by (simp add: good_def s(2))
qed

lemma block_good:
  assumes cpu: "cpu < MAX_CPUS" and r: "block_and_switch cpu (k_sched k) ctx = Some (b, s)"
  shows "good k (k\<lparr>k_sched := s\<rparr>)"
  using block_and_switch_ok [OF _ cpu, of "k_sched k" ctx] live.block_all [OF _ r] r
  by (auto simp: good_def kernel_inv_def keeps_def)

lemma terminate_good:
  assumes cpu: "cpu < MAX_CPUS" and r: "terminate_current cpu (k_sched k) status = Some s"
  shows "good k (k\<lparr>k_sched := s\<rparr>)"
  using terminate_ok [OF _ cpu, of "k_sched k" status] live.terminate_all [OF _ r] r
  by (auto simp: good_def kernel_inv_def)

subsection \<open>Control structure\<close>

lemma safe_if [safe_intros]: "safe k a \<Longrightarrow> safe k b \<Longrightarrow> safe k (if c then a else b)"
  by simp

lemma safe_option [safe_intros]: "safe k a \<Longrightarrow> (\<And>y. safe k (b y)) \<Longrightarrow> safe k (case x of None \<Rightarrow> a | Some y \<Rightarrow> b y)"
  by (cases x) simp_all

lemma safe_sum [safe_intros]: "(\<And>y. safe k (a y)) \<Longrightarrow> (\<And>y. safe k (b y)) \<Longrightarrow> safe k (case x of Inl y \<Rightarrow> a y | Inr y \<Rightarrow> b y)"
  by (cases x) simp_all

lemma safe_pure [safe_intros]:
  "(\<And>x. safe k (g1 x)) \<Longrightarrow> safe k (with_current_task cpu s f \<bind> g1)"
  "(\<And>x. safe k (g2 x)) \<Longrightarrow> safe k (with_task cpu s tid f \<bind> g2)"
  "(\<And>x. safe k (g3 x)) \<Longrightarrow> safe k (fd_lookup cpu k' fd \<bind> g3)"
  "(\<And>x. safe k (g4 x)) \<Longrightarrow> safe k (resolve_path cpu k' path \<bind> g4)"
  "(\<And>x. safe k (g5 x)) \<Longrightarrow> safe k (seek_target w a b c \<bind> g5)"
  "(\<And>x. safe k (g6 x)) \<Longrightarrow> safe k (list_fill i ts buf \<bind> g6)"
  by (rule safe_bind_pure, simp)+

lemma safe_pure2 [safe_intros]:
  "(\<And>fs rel. safe k (h fs rel)) \<Longrightarrow> safe k (resolve_fs tab path \<bind> (\<lambda>(fs, rel). h fs rel))"
  "(\<And>out pos. safe k (h' out pos)) \<Longrightarrow> safe k (dents_fill n es buf p \<bind> (\<lambda>(out, pos). h' out pos))"
  by (rule safe_bind_pure2, simp)+

lemma safe_put [safe_intros]:
  "safe k (case copy_to_user (k_mem k) a bs of (ok, m) \<Rightarrow> if ok then Some (r, k\<lparr>k_mem := m\<rparr>) else err k e)"
  using safe_copy_out [of k "\<lambda>k. Some (r, k)" "err k e" a bs] by simp

lemma safe_wake [safe_intros]: "cpu < MAX_CPUS \<Longrightarrow> (\<And>k'. safe k' (g k')) \<Longrightarrow> safe k (wake cpu k tid \<bind> g)"
  by (rule safe_bind_state) (rule wake_good)

lemma safe_block [safe_intros]:
  assumes "cpu < MAX_CPUS" and "\<And>b k'. safe k' (g b k')"
  shows "safe k (block_and_switch cpu (k_sched k) ctx \<bind> (\<lambda>(b, s). g b (k\<lparr>k_sched := s\<rparr>)))"
proof (rule safe_bind_pure2)
  fix b s assume "block_and_switch cpu (k_sched k) ctx = Some (b, s)"
  from safe_step [OF block_good [OF assms(1) this] assms(2)] show "safe k (g b (k\<lparr>k_sched := s\<rparr>))" .
qed

subsection \<open>Closures\<close>

lemmas live_simps = tame_def task_live_def task_ok_def

lemma set_handler_inv [intro]: "signal_inv g \<Longrightarrow> signal_inv (set_handler g n h)"
  by (simp add: signal_inv_def set_handler_def pending_set_def)

lemma blocked_inv [intro]: "signal_inv g \<Longrightarrow> signal_inv (g\<lparr>sg_blocked := b\<rparr>)"
  by (simp add: signal_inv_def pending_set_def)

lemma tame_fields [safe_intros]:
  "tame (\<lambda>t. (r t, t\<lparr>t_parent_id := p\<rparr>))" "tame (\<lambda>t. (r t, t\<lparr>t_pgid := g\<rparr>))" "tame (\<lambda>t. (r t, t\<lparr>t_sid := a, t_pgid := b\<rparr>))"
  "tame (\<lambda>t. (r t, t\<lparr>t_umask := u\<rparr>))" "tame (\<lambda>t. (r t, t\<lparr>t_cwd := c\<rparr>))" "tame (\<lambda>t. (r t, restore_frame f t))"
  "tame (\<lambda>t. (r t, t\<lparr>t_env := bt_insert key value (t_env t)\<rparr>))"
  "tame (\<lambda>t. (r t, t\<lparr>t_fd_table := bt_remove fd (t_fd_table t)\<rparr>))"
  "tame (\<lambda>t. (r t, t\<lparr>t_fd_table := bt_modify fd e (t_fd_table t)\<rparr>))"
  "tame (\<lambda>t. (r t, t\<lparr>t_signal_state := send_signal (t_signal_state t) n\<rparr>))"
  "tame (\<lambda>t. (r t, t\<lparr>t_signal_state := set_handler (t_signal_state t) n h\<rparr>))"
  by (auto simp: live_simps restore_frame_def inv_intros bt_wf_insert bt_wf_remove bt_wf_modify)

lemma tame_option:
  "tame (\<lambda>t. case c t of None \<Rightarrow> (None, t) | Some x \<Rightarrow> (Some (r x), f x t)) \<longleftrightarrow> 
   (\<forall>t x. c t = Some x \<longrightarrow> t_id (f x t) = t_id t \<and> (task_live t \<longrightarrow> task_live (f x t)))"
  by (auto simp: tame_def split: option.split)

definition tame_p :: "(task \<Rightarrow> ('r \<times> task) panics) \<Rightarrow> bool" where
  "tame_p f \<longleftrightarrow> (\<forall>t x t'. f t = Some (x, t') \<longrightarrow> t_id t' = t_id t \<and> (task_live t \<longrightarrow> task_live t'))"

lemma tame_p_tame: "tame_p f \<Longrightarrow> tame (\<lambda>t. case f t of None \<Rightarrow> (None, t) | Some (x, t') \<Rightarrow> (Some x, t'))"
  by (auto simp: tame_p_def tame_def split: option.split)

lemma cur_mut_p_safe [safe_intros]:
  assumes "cpu < MAX_CPUS" and "tame_p f"
  shows "safe k (cur_mut_p cpu k f)"
  unfolding cur_mut_p_def
  by (rule safe_bind [OF cur_mut_safe [OF assms(1) tame_p_tame [OF assms(2)]]]) (simp split: option.split)

lemma live_fd_insert: "task_live t \<Longrightarrow> task_live (t\<lparr>t_fd_table := bt_insert fd e (t_fd_table t)\<rparr>)"
  by (simp add: task_live_def task_ok_def bt_wf_insert)

lemma live_fd_install: "task_live t \<Longrightarrow> task_live (fd_install fd path ino t)"
  unfolding fd_install_def by (rule live_fd_insert)

lemma id_fd_install [simp]: "t_id (fd_install fd path ino t) = t_id t"
  by (simp add: fd_install_def)

lemma live_handles: "task_live t \<Longrightarrow> ht_inv tab \<Longrightarrow> task_live (t\<lparr>t_handle_table := tab\<rparr>)"
  by (simp add: task_live_def task_ok_def)

lemma ht_insert_inv: "ht_inv tab \<Longrightarrow> ht_insert tab obj r = Some (h, tab') \<Longrightarrow> ht_inv tab'"
  using ht_inv_step [of tab "HInsert obj r" tab'] by simp

lemma live_ht: "task_live t \<Longrightarrow> ht_inv (t_handle_table t)"
  by (simp add: task_live_def task_ok_def)

end
