(* ===== verification/Syscall_Safe.thy ===== *)
theory Syscall_Safe
  imports Syscall_Inv
begin

text \<open>
  Each system call is safe: it keeps the kernel invariant and the memory above user space. The exceptions are
  \<open>sys_sigprocmask\<close>, which writes eight bytes from any address below the end of user space, and the creation of
  tasks, which needs an identifier that was not used before.
\<close>

lemma tame_p_pipe [safe_intros]: "tame_p (pipe_task a)"
  unfolding tame_p_def
proof (intro allI impI conjI)
  fix t x t' assume r: "pipe_task a t = Some (x, t')"
  then show "t_id t' = t_id t"
    by (auto simp: pipe_task_def bind_eq_Some_conv Let_def split: option.splits)
  assume l: "task_live t"
  obtain h1 tab1 h2 tab2 where t1: "ht_insert (t_handle_table t) (PipeReaderObj a) RIGHTS_READ = Some (h1, tab1)"
    and t2: "ht_insert tab1 (PipeWriterObj a) RIGHTS_WRITE = Some (h2, tab2)"
    using r by (auto simp: pipe_task_def bind_eq_Some_conv)
  have "task_live (t\<lparr>t_handle_table := tab2\<rparr>)"
    by (intro live_handles l ht_insert_inv [OF _ t2] ht_insert_inv [OF _ t1] live_ht)
  then show "task_live t'" using r t1 t2
    by (auto simp: pipe_task_def bind_eq_Some_conv Let_def live_fd_install split: option.splits)
qed

lemma tame_p_fd_alloc [safe_intros]: "tame_p (fd_alloc path ino)"
  by (auto simp: tame_p_def fd_alloc_def bind_eq_Some_conv live_fd_install split: option.splits)

lemma fifo_task_cases:
  assumes r: "fifo_task a is_read is_write path t = Some (x, t')"
  obtains "t' = t" | tab fd ino where "t' = fd_install fd (fifo_path path) ino (t\<lparr>t_handle_table := tab\<rparr>)"
    "ht_inv (t_handle_table t) \<Longrightarrow> ht_inv tab"
proof -
  obtain y where y: "fd_scan (t_fd_table t) FD_FIRST_USABLE = Some y" using r by (auto simp: fifo_task_def bind_eq_Some_conv)
  show thesis
  proof (cases y)
    case None
    then show thesis using that(1) r y by (simp add: fifo_task_def)
  next
    case (Some fd)
    consider "is_read" | "\<not> is_read" "is_write" | "\<not> is_read" "\<not> is_write" by blast
    then show thesis
    proof cases
      case 1
      obtain h tab where h: "ht_insert (t_handle_table t) (PipeReaderObj a) RIGHTS_READ = Some (h, tab)"
        using r y Some 1 by (auto simp: fifo_task_def bind_eq_Some_conv)
      show thesis
      proof (cases is_write)
        case True
        then obtain h2 tab2 where h2: "ht_insert tab (PipeWriterObj a) RIGHTS_WRITE = Some (h2, tab2)"
          using r y Some 1 h by (auto simp: fifo_task_def bind_eq_Some_conv)
        then show thesis
          using that(2) [of fd "as_u64 h" tab2] r y Some 1 h True ht_insert_inv [OF ht_insert_inv [OF _ h] h2] by (simp add: fifo_task_def)
      next
        case False
        then show thesis using that(2) [of fd "as_u64 h" tab] r y Some 1 h ht_insert_inv [OF _ h] by (simp add: fifo_task_def)
      qed
    next
      case 2
      then obtain h tab where h: "ht_insert (t_handle_table t) (PipeWriterObj a) RIGHTS_WRITE = Some (h, tab)"
        using r y Some by (auto simp: fifo_task_def bind_eq_Some_conv)
      then show thesis using that(2) [of fd "as_u64 h" tab] r y Some 2 ht_insert_inv [OF _ h] by (simp add: fifo_task_def)
    next
      case 3
      then show thesis using that(1) r y Some by (simp add: fifo_task_def)
    qed
  qed
qed

lemma tame_p_fifo [safe_intros]: "tame_p (fifo_task a is_read is_write path)"
  unfolding tame_p_def
  by (auto elim!: fifo_task_cases intro: live_fd_install live_handles live_ht)

lemma tame_p_advance [safe_intros]: "tame_p (advance fd n)"
  by (auto simp: tame_p_def advance_def bind_eq_Some_conv live_fd_insert split: option.splits)

lemma tame_p_epoll [safe_intros]:
  "tame_p (\<lambda>t. do { r \<leftarrow> fd_scan (t_fd_table t) n;
     (case r of None \<Rightarrow> Some (None, t) | Some fd \<Rightarrow> Some (Some fd, fd_install fd path ino t)) })"
  by (auto simp: tame_p_def bind_eq_Some_conv live_fd_install split: option.splits)

lemma on_fs_safe [safe_intros]: "safe k (on_fs c k)"
  by (auto simp: safe_def on_fs_def bind_eq_Some_conv good_def kernel_inv_def)

lemma close_ino_safe [safe_intros]: "(\<And>k'. safe k' (g k')) \<Longrightarrow> safe k (close_ino fs ino k \<bind> g)"
  by (rule safe_bind_state) (auto simp: close_ino_def on_fs_def bind_eq_Some_conv good_def kernel_inv_def)

subsection \<open>Tasks and groups\<close>

lemma sys_setpgid_safe: "cpu < MAX_CPUS \<Longrightarrow> safe k (sys_setpgid cpu k pid pgid)"
  unfolding sys_setpgid_def Let_def by (rule safe_intros | assumption)+

lemma sys_setsid_safe: "cpu < MAX_CPUS \<Longrightarrow> safe k (sys_setsid cpu k)"
  unfolding sys_setsid_def Let_def by (rule safe_intros | assumption)+

lemma sys_thread_yield_safe: "cpu < MAX_CPUS \<Longrightarrow> safe k (sys_thread_yield cpu k ctx)"
  unfolding sys_thread_yield_def by (rule safe_intros | assumption)+

lemma sys_sched_yield_safe: "cpu < MAX_CPUS \<Longrightarrow> safe k (sys_sched_yield cpu k ctx)"
  unfolding sys_sched_yield_def by (rule safe_intros | assumption)+

lemma sys_process_exit_safe: "cpu < MAX_CPUS \<Longrightarrow> safe k (sys_process_exit cpu k status)"
  unfolding sys_process_exit_def by (rule safe_bind_pure) (simp add: safe_def terminate_good)

lemma sys_thread_exit_safe: "cpu < MAX_CPUS \<Longrightarrow> safe k (sys_thread_exit cpu k ctx)"
  unfolding sys_thread_exit_def
proof (rule safe_bind_pure)
  fix s assume cpu: "cpu < MAX_CPUS" and s: "terminate_current cpu (k_sched k) 0 = Some s"
  have "safe (k\<lparr>k_sched := s\<rparr>) (block_and_switch cpu (k_sched (k\<lparr>k_sched := s\<rparr>)) ctx \<bind>
      (\<lambda>(b, s'). Some (if b then Ret 0 else Halted, k\<lparr>k_sched := s\<rparr>\<lparr>k_sched := s'\<rparr>)))"
    using cpu by (rule safe_block) simp
  then show "safe k (block_and_switch cpu s ctx \<bind> (\<lambda>(b, s). Some (if b then Ret 0 else Halted, k\<lparr>k_sched := s\<rparr>)))"
    using safe_step [OF terminate_good [OF cpu s]] by simp
qed

lemma sys_list_tasks_safe: "safe k (sys_list_tasks k buf_ptr buf_len)"
  unfolding sys_list_tasks_def Let_def by (rule safe_intros)+

subsection \<open>Signals\<close>

lemma sys_kill_safe: "cpu < MAX_CPUS \<Longrightarrow> safe k (sys_kill cpu k pid sig)"
  unfolding sys_kill_def by (rule safe_intros | assumption)+

lemma sys_signal_safe: "cpu < MAX_CPUS \<Longrightarrow> safe k (sys_signal cpu k sig handler)"
  unfolding sys_signal_def by (rule safe_intros | assumption)+

lemma sys_sigreturn_safe: "cpu < MAX_CPUS \<Longrightarrow> safe k (sys_sigreturn cpu k p)"
  unfolding sys_sigreturn_def Let_def by (rule safe_intros | assumption)+

lemma tame_tgkill [safe_intros]:
  "tame (\<lambda>t. if c t then (False, t) else (True, t\<lparr>t_signal_state := send_signal (t_signal_state t) n\<rparr>))"
  by (auto simp: live_simps inv_intros)

lemma safe_bool [safe_intros]: "safe k a \<Longrightarrow> safe k b \<Longrightarrow> safe k (case x of True \<Rightarrow> a | False \<Rightarrow> b)"
  by (cases x) simp_all

lemma sys_tgkill_safe: "cpu < MAX_CPUS \<Longrightarrow> safe k (sys_tgkill cpu k tgid tid sig)"
  unfolding sys_tgkill_def by (rule safe_intros | assumption)+

lemma write_old_action_safe [safe_intros]: "safe k (write_old_action cpu k n p)"
  unfolding write_old_action_def Let_def
proof (rule safe_if [OF safe_ret] safe_if [OF safe_ret] safe_pure)+
  fix h :: "u64 option"
  let ?bs = "to_le_bytes (case h of Some h \<Rightarrow> h | None \<Rightarrow> SIG_DFL) @ replicate 24 0"
  obtain ok m where r: "copy_to_user (k_mem k) p ?bs = (ok, m)" by fastforce
  show "safe k (case copy_to_user (k_mem k) p ?bs of (ok, m) \<Rightarrow> Some (ok, k\<lparr>k_mem := m\<rparr>))"
    using copy_to_user_confined [OF r] by (simp add: r safe_def)
qed

lemma sys_rt_sigaction_safe: "cpu < MAX_CPUS \<Longrightarrow> safe k (sys_rt_sigaction cpu k sig a b)"
  unfolding sys_rt_sigaction_def Let_def by (rule safe_intros | assumption)+

subsection \<open>Descriptors and environment\<close>

lemma tame_dup [safe_intros]:
  "tame (\<lambda>t. case bt_get (t_fd_table t) a of None \<Rightarrow> (None, t)
     | Some e \<Rightarrow> (Some r, t\<lparr>t_fd_table := bt_insert b e (bt_remove c (t_fd_table t))\<rparr>))"
  by (auto simp: live_simps split: option.split)

lemma sys_dup2_safe: "cpu < MAX_CPUS \<Longrightarrow> safe k (sys_dup2 cpu k a b)"
  unfolding sys_dup2_def by (rule safe_intros | assumption)+

lemma sys_epoll_create_safe: "cpu < MAX_CPUS \<Longrightarrow> safe k (sys_epoll_create cpu k f)"
  unfolding sys_epoll_create_def by (rule safe_intros | assumption)+

lemma new_pipe_good: "good k (snd (new_pipe k))"
  by (simp add: new_pipe_def good_def kernel_inv_def)

lemma sys_env_get_safe: "safe k (sys_env_get cpu k a b c d)"
  unfolding sys_env_get_def Let_def by (rule safe_intros | assumption)+

lemma sys_env_set_safe: "cpu < MAX_CPUS \<Longrightarrow> safe k (sys_env_set cpu k a b c d)"
  unfolding sys_env_set_def by (simp split: option.split) (intro allI impI, (rule safe_intros | assumption)+)

lemma sys_getcwd_safe: "safe k (sys_getcwd cpu k a b)"
  unfolding sys_getcwd_def Let_def by (rule safe_intros | assumption)+

lemma sys_umask_safe: "cpu < MAX_CPUS \<Longrightarrow> safe k (sys_umask cpu k m)"
  unfolding sys_umask_def Let_def by (rule safe_intros | assumption)+

lemma sys_ioctl_safe: "safe k (sys_ioctl k a b c)"
  unfolding sys_ioctl_def Let_def by (rule safe_intros)+

lemma sys_getrusage_safe: "safe k (sys_getrusage k a b)"
  unfolding sys_getrusage_def by (rule safe_intros)+

lemma sys_prlimit_safe: "safe k (sys_prlimit k a b c d)"
  unfolding sys_prlimit_def by (rule safe_intros)+

lemma safe_pair: "(\<And>n buf. safe k (f n buf)) \<Longrightarrow> safe k (case p of (n, buf) \<Rightarrow> f n buf)"
  by (cases p) simp

lemma sys_pipe_safe:
  assumes "cpu < MAX_CPUS"
  shows "safe k (sys_pipe cpu k p)"
proof -
  let ?k = "snd (new_pipe k)"
  have "safe ?k (cur_mut_p cpu ?k (pipe_task (fst (new_pipe k))) \<bind> (\<lambda>(result, k). case result of
           Some (Some (read_fd, write_fd)) \<Rightarrow>
             (let (ok, m) = copy_to_user (k_mem k) p (to_le_bytes read_fd @ to_le_bytes write_fd)
              in if ok then Some (0, k\<lparr>k_mem := m\<rparr>) else err k BadPointer)
         | Some None \<Rightarrow> err k OutOfMemory
         | None \<Rightarrow> err k NotFound))"
    unfolding Let_def by (rule safe_bind [OF cur_mut_p_safe [OF assms tame_p_pipe]], (rule safe_intros | rule safe_pair)+)
  from safe_step [OF new_pipe_good this] show ?thesis
    unfolding sys_pipe_def by (auto simp: case_prod_beta Let_def)
qed

lemma locks_good: "good k (k\<lparr>k_sched := (k_sched k)\<lparr>sc_locks := l\<rparr>\<rparr>)"
  using keeps_fields(1) [of "k_sched k"] by (simp add: good_def kernel_inv_def sched_inv_def task_ids_def)

lemma sys_flock_safe: "safe k (sys_flock cpu k fd opn)"
  unfolding sys_flock_def Let_def
  by (rule safe_intros | rule safe_bind_pure2 | (simp add: safe_def locks_good; fail))+

subsection \<open>Files\<close>

lemma sys_fs_open_safe: "cpu < MAX_CPUS \<Longrightarrow> safe k (sys_fs_open cpu k a b c)"
  unfolding sys_fs_open_def Let_def by (rule safe_intros | assumption)+

lemma sys_fs_close_safe: "cpu < MAX_CPUS \<Longrightarrow> safe k (sys_fs_close cpu k fd)"
  unfolding sys_fs_close_def by (rule safe_intros | assumption)+

lemma sys_fs_seek_safe: "cpu < MAX_CPUS \<Longrightarrow> safe k (sys_fs_seek cpu k fd a b)"
  unfolding sys_fs_seek_def by (rule safe_intros | assumption)+

lemma in_parent_safe [safe_intros]: "safe k (in_parent cpu k path act code)"
  unfolding in_parent_def by (rule safe_intros | rule safe_pair)+

lemma sys_fs_unlink_safe: "safe k (sys_fs_unlink cpu k a b)"
  unfolding sys_fs_unlink_def by (rule safe_intros)+

lemma sys_fs_mkdir_safe: "safe k (sys_fs_mkdir cpu k a b c)"
  unfolding sys_fs_mkdir_def by (rule safe_intros)+

lemma sys_fs_rmdir_safe: "safe k (sys_fs_rmdir cpu k a b)"
  unfolding sys_fs_rmdir_def by (rule safe_intros)+

lemma sys_mkfifo_safe: "safe k (sys_mkfifo cpu k a b)"
  unfolding sys_mkfifo_def by (rule safe_intros)+

lemma sys_symlink_safe: "safe k (sys_symlink cpu k a b c d)"
  unfolding sys_symlink_def by (rule safe_intros)+

lemma sys_chdir_safe: "cpu < MAX_CPUS \<Longrightarrow> safe k (sys_chdir cpu k a b)"
  unfolding sys_chdir_def by (rule safe_intros | assumption)+

lemma sys_fs_stat_safe: "safe k (sys_fs_stat cpu k a b c)"
  unfolding sys_fs_stat_def by (rule safe_intros)+

lemma sys_fstat_safe: "safe k (sys_fstat cpu k a b)"
  unfolding sys_fstat_def by (rule safe_intros)+

lemma sys_fs_readdir_safe: "safe k (sys_fs_readdir cpu k a b c)"
  unfolding sys_fs_readdir_def Let_def by (rule safe_intros)+

lemma sys_getdents64_safe: "safe k (sys_getdents64 cpu k a b c)"
  unfolding sys_getdents64_def Let_def by (rule safe_intros)+

lemma access_write_safe: "safe k (access_write fs rel mode ino k)"
  unfolding access_write_def by (rule safe_intros)+

lemma sys_access_safe: "safe k (sys_access cpu k a b c)"
  unfolding sys_access_def by (rule safe_intros access_write_safe)+

lemma sys_chmod_safe: "safe k (sys_chmod cpu k a b c)"
  unfolding sys_chmod_def by (rule safe_intros)+

lemma sys_readlink_safe: "safe k (sys_readlink k a b c d)"
  unfolding sys_readlink_def Let_def by (rule safe_intros | rule safe_pair)+

lemma safe_put_then [safe_intros]:
  assumes "\<And>k'. safe k' (f k')"
  shows "safe k (case copy_to_user (k_mem k) a bs of (ok, m) \<Rightarrow> if \<not> ok then err k e else f (k\<lparr>k_mem := m\<rparr>))"
proof -
  obtain ok m where r: "copy_to_user (k_mem k) a bs = (ok, m)" by fastforce
  have "safe k (f (k\<lparr>k_mem := m\<rparr>))" by (rule safe_step [OF _ assms]) (simp add: copy_to_user_confined [OF r])
  then show ?thesis by (simp add: r)
qed

lemma pipe_read_safe:
  "safe k (case pipe_read q buf of (n, buf, p) \<Rightarrow>
     (case copy_to_user (k_mem (k\<lparr>k_pipes := f p\<rparr>)) a (take n buf) of (ok, m) \<Rightarrow>
        if n > 0 \<and> \<not> ok then err (k\<lparr>k_pipes := f p\<rparr>) e
        else Some (int n, if n > 0 then k\<lparr>k_pipes := f p\<rparr>\<lparr>k_mem := m\<rparr> else k\<lparr>k_pipes := f p\<rparr>)))"
  for k :: "'w kfs"
proof -
  obtain n bf p where q: "pipe_read q buf = (n, bf, p)" by (cases "pipe_read q buf") auto
  obtain ok m where r: "copy_to_user (k_mem k) a (take n bf) = (ok, m)" by fastforce
  have g: "good k (k\<lparr>k_pipes := f p\<rparr>)" by (simp add: good_def kernel_inv_def)
  have "good k (k\<lparr>k_pipes := f p\<rparr>\<lparr>k_mem := m\<rparr>)"
    by (rule good_trans [OF g]) (use copy_to_user_confined [OF r] in simp)
  then show ?thesis using g by (auto simp: q r safe_def err_def split: if_splits)
qed

lemma safe_object [safe_intros]:
  assumes "\<And>a. safe k (f a)" and "safe k e"
  shows "safe k (case x of Some (Some (PipeReaderObj a)) \<Rightarrow> f a | _ \<Rightarrow> e)"
    "safe k (case x of Some (Some (PipeWriterObj a)) \<Rightarrow> f a | _ \<Rightarrow> e)"
  using assms by (auto split: option.split kernel_object.split)

lemma sys_fs_read_safe: "cpu < MAX_CPUS \<Longrightarrow> safe k (sys_fs_read cpu k fd a b)"
  unfolding sys_fs_read_def Let_def by (rule safe_intros pipe_read_safe | assumption | rule safe_pair)+

lemma sys_fs_write_safe: "cpu < MAX_CPUS \<Longrightarrow> safe k (sys_fs_write cpu k fd a b)"
  unfolding sys_fs_write_def
  by (rule safe_intros | assumption | rule safe_bind_pure2, simp add: safe_def good_def kernel_inv_def)+

lemma write_back_safe [safe_intros]:
  "(\<And>k'. safe k' (g k')) \<Longrightarrow> safe k ((if b then None else if c then on_fs w k \<bind> (\<lambda>(_, k). Some k) else Some k) \<bind> g)"
  by (rule safe_bind_state) (auto simp: on_fs_def bind_eq_Some_conv good_def kernel_inv_def split: if_splits)

lemma sys_fs_rename_safe: "safe k (sys_fs_rename cpu k a b c d)"
  unfolding sys_fs_rename_def Let_def
  by (rule safe_intros | rule safe_pair)+

subsection \<open>New tasks\<close>

lemma task_new_live: "task_live (task_new tid name priority)"
  using task_new_ok by (simp add: task_live_def task_new_def)

lemma spawn_good:
  assumes room: "sc_next_id (k_sched k) \<noteq> - 1" and id: "t_id t = sc_next_id (k_sched k)" and t: "task_live t"
    and r: "spawn_task_from ((k_sched k)\<lparr>sc_next_id := sc_next_id (k_sched k) + 1\<rparr>) t = Some (x, s)"
  shows "good k (k\<lparr>k_sched := s\<rparr>)"
proof -
  let ?s = "(k_sched k)\<lparr>sc_next_id := sc_next_id (k_sched k) + 1\<rparr>"
  have "kernel_inv (k\<lparr>k_sched := s\<rparr>)" if k: "kernel_inv k"
  proof -
    have inv: "sched_inv (k_sched k)" and all: "all_tasks task_live (k_sched k)" using k by (simp_all add: kernel_inv_def)
    note new = task_id_new_spec [OF inv room]
    have ids: "task_ids ?s = task_ids (k_sched k)" by (rule task_ids_cong) simp_all
    have lt: "t_id t < sc_next_id ?s" using room by (simp add: id word_less_Suc)
    have "sched_inv s" using spawn_task_from_ok [OF new(2), of t] new(3) id ids lt r by auto
    moreover have "all_tasks task_live s" by (rule all_spawn [of task_live, OF _ t r]) (simp add: all)
    ultimately show ?thesis by (simp add: kernel_inv_def)
  qed
  then show ?thesis by (simp add: good_def)
qed

lemma sys_process_create_safe:
  assumes cpu: "cpu < MAX_CPUS" and room: "sc_next_id (k_sched k) \<noteq> - 1"
  shows "safe k (sys_process_create cpu k a b)"
proof -
  have sp: "good k (k\<lparr>k_sched := s\<rparr>)" if "spawn_task_with_id (k_sched k) name p = Some (x, s)" for name p x s
    using that spawn_good [OF room _ task_new_live] by (simp add: spawn_task_with_id_def spawn_task_def task_id_new_def task_new_def)
  show ?thesis
    unfolding sys_process_create_def Let_def
  proof (rule safe_option [OF safe_err], rule safe_if [OF safe_err], rule safe_bind_pure2)
    fix name r s assume "spawn_task_with_id (k_sched k) name 0 = Some (r, s)"
    from sp [OF this] show "safe k (case r of Inl _ \<Rightarrow> err (k\<lparr>k_sched := s\<rparr>) OutOfMemory
      | Inr task_id \<Rightarrow> task_mut cpu (k\<lparr>k_sched := s\<rparr>) task_id (\<lambda>t. ((), t\<lparr>t_parent_id := Some (current_task_id s)\<rparr>))
          \<bind> (\<lambda>(_, k). Some (i64_or task_id (error_code InvalidArgument), k)))"
      by (rule safe_step) (rule safe_intros cpu)+
  qed
qed

lemma sys_thread_create_safe:
  assumes room: "sc_next_id (k_sched k) \<noteq> - 1"
  shows "safe k (sys_thread_create cpu k a b c)"
proof -
  have live: "task_live ((task_new tid n p)\<lparr>t_context := x, t_page_table := y, t_parent_id := z\<rparr>)" for tid n p x y z
    using task_new_live [of tid n p] by (simp add: task_live_def task_ok_def)
  show ?thesis
    unfolding sys_thread_create_def Let_def task_id_new_def prod.case
  proof (rule safe_if [OF safe_err], rule safe_if [OF safe_err], rule safe_pure, rule safe_option [OF safe_err], rule safe_pair,
      rule safe_option [OF safe_err], rule safe_bind_pure2)
    fix info parent cr3 r s
    assume "spawn_task_from ((k_sched k)\<lparr>sc_next_id := sc_next_id (k_sched k) + 1\<rparr>)
      ((task_new (sc_next_id (k_sched k)) (str ''thread'') 5)\<lparr>t_context := Some ((user_mode a b cr3)\<lparr>cx_rdi := c\<rparr>),
        t_page_table := Some cr3, t_parent_id := Some parent\<rparr>) = Some (r, s)"
    from spawn_good [OF room _ live this] have "good k (k\<lparr>k_sched := s\<rparr>)" by (simp add: task_new_def)
    then show "safe k (case r of Inl _ \<Rightarrow> err (k\<lparr>k_sched := s\<rparr>) OutOfMemory
      | Inr tid \<Rightarrow> Some (i64_or tid (error_code OutOfMemory), k\<lparr>k_sched := s\<rparr>))"
      by (rule safe_step) (rule safe_intros)+
  qed
qed

text \<open>\<open>sys_sigprocmask\<close> checks only that the address of the old mask is below the end of user space: the last seven
  bytes may lie beyond it.\<close>

lemma tame_mask:
  "tame (\<lambda>t. case m (sg_blocked (t_signal_state t)) of Inl e \<Rightarrow> (Inl e, t)
     | Inr b \<Rightarrow> (Inr (sg_blocked (t_signal_state t)), t\<lparr>t_signal_state := (t_signal_state t)\<lparr>sg_blocked := b\<rparr>\<rparr>))"
  by (auto simp: live_simps split: sum.split)

lemma write_bytes_beyond:
  assumes "a < USER_SPACE_MAX" and "length bs \<le> 8" and "USER_SPACE_MAX + 7 \<le> x"
  shows "write_bytes m a bs x = m x"
proof (rule write_bytes_other [OF _ assms(3)])
  have "unat (USER_SPACE_MAX + 7) = unat USER_SPACE_MAX + 7" by (simp add: USER_SPACE_MAX_def)
  moreover have "unat a < unat USER_SPACE_MAX" using assms(1) by (simp add: word_less_nat_alt)
  ultimately show "unat a + length bs \<le> unat (USER_SPACE_MAX + 7)" using assms(2) by linarith
qed

lemma cur_mut_mem: "cur_mut cpu k f = Some (r, k') \<Longrightarrow> k_mem k' = k_mem k"
  by (auto simp: cur_mut_def bind_eq_Some_conv)

lemma sys_sigprocmask_ok:
  assumes cpu: "cpu < MAX_CPUS" and r: "sys_sigprocmask cpu k how p q = Some (x, k')"
  shows "(kernel_inv k \<longrightarrow> kernel_inv k') \<and> (\<forall>a. USER_SPACE_MAX + 7 \<le> a \<longrightarrow> k_mem k' a = k_mem k a)"
proof (cases "p \<noteq> 0 \<and> p \<ge> USER_SPACE_MAX")
  case True
  then have "k' = k" using r by (simp add: sys_sigprocmask_def err_def)
  then show ?thesis by simp
next
  case False
  define f where "f = (\<lambda>t :: task. case apply_mask how (if p \<noteq> 0 then Some (from_le_bytes (read_bytes (k_mem k) p 8)) else None)
     (sg_blocked (t_signal_state t)) of Inl e \<Rightarrow> (Inl e, t)
     | Inr b \<Rightarrow> (Inr (sg_blocked (t_signal_state t)), t\<lparr>t_signal_state := (t_signal_state t)\<lparr>sg_blocked := b\<rparr>\<rparr>))"
  have e: "sys_sigprocmask cpu k how p q = cur_mut cpu k f \<bind> (\<lambda>(result, k). case result of
      Some (Inr old_blocked) \<Rightarrow> Some (0, if q \<noteq> 0 \<and> q < USER_SPACE_MAX
        then k\<lparr>k_mem := write_bytes (k_mem k) q (to_le_bytes old_blocked)\<rparr> else k)
    | Some (Inl e) \<Rightarrow> err k e | None \<Rightarrow> err k NotFound)"
    using False by (simp only: sys_sigprocmask_def Let_def f_def if_False)
  obtain res k1 where c: "cur_mut cpu k f = Some (res, k1)" using r by (auto simp: e bind_eq_Some_conv)
  have k': "k' = k1 \<or> (\<exists>b. k' = k1\<lparr>k_mem := write_bytes (k_mem k1) q (to_le_bytes b)\<rparr> \<and> q < USER_SPACE_MAX)"
    using r unfolding e c by (auto simp: err_def split: option.splits sum.splits if_splits)
  have "tame f" unfolding f_def by (rule tame_mask)
  then have g: "good k k1" using safeD [OF cur_mut_safe [OF cpu] c] by blast
  have "length (to_le_bytes b) \<le> 8" for b by (simp add: to_le_bytes_def)
  then have "\<forall>a. USER_SPACE_MAX + 7 \<le> a \<longrightarrow> k_mem k' a = k_mem k a"
    using k' write_bytes_beyond [of q "to_le_bytes _"] cur_mut_mem [OF c] by auto
  moreover have "kernel_inv k' = kernel_inv k1" using k' by (auto simp: kernel_inv_def)
  ultimately show ?thesis using g by (simp add: good_def)
qed

subsection \<open>The dispatcher\<close>

text \<open>The calls that \<open>handle_syscall_raw\<close> dispatches to the definitions above, with the arguments they take.\<close>

datatype task_call =
    Process_create u64 u64 | Process_exit u64 | Thread_create u64 u64 u64 | Thread_exit | Thread_yield | Sched_yield
  | Setpgid u64 u64 | Setsid | List_tasks u64 u64

datatype signal_call =
    Kill u64 u64 | Signal u64 u64 | Sigreturn u64 | Sigprocmask u64 u64 u64 | Tgkill u64 u64 u64 | Rt_sigaction u64 u64 u64

datatype fd_call =
    Dup2 u64 u64 | Dup3 u64 u64 u64 | Epoll_create u64 | Pipe u64 | Env_get u64 u64 u64 u64 | Env_set u64 u64 u64 u64
  | Getcwd u64 u64 | Umask u64 | Flock u64 u64 | Ioctl u64 u64 u64 | Getrusage u64 u64 | Prlimit u64 u64 u64 u64

datatype file_call =
    Fs_open u64 u64 u64 | Fs_read u64 u64 u64 | Fs_write u64 u64 u64 | Fs_close u64 | Fs_seek u64 u64 u64
  | Fs_unlink u64 u64 | Fs_rename u64 u64 u64 u64 | Fs_mkdir u64 u64 u64 | Fs_rmdir u64 u64 | Mkfifo u64 u64 | Chdir u64 u64

datatype meta_call =
    Fs_stat u64 u64 u64 | Lstat u64 u64 u64 | Fstat u64 u64 | Fs_readdir u64 u64 u64 | Getdents64 u64 u64 u64
  | Access u64 u64 u64 | Symlink u64 u64 u64 u64 | Readlink u64 u64 u64 u64 | Chmod u64 u64 u64

datatype syscall = Task_call task_call | Signal_call signal_call | Fd_call fd_call | File_call file_call | Meta_call meta_call

text \<open>The state after the call; a call that panics leaves none.\<close>

primrec handle_task_call :: "nat \<Rightarrow> saved_context \<Rightarrow> 'w kfs \<Rightarrow> task_call \<Rightarrow> 'w kfs panics" where
  "handle_task_call cpu ctx k (Process_create a b) = map_option snd (sys_process_create cpu k a b)"
| "handle_task_call cpu ctx k (Process_exit a) = map_option snd (sys_process_exit cpu k a)"
| "handle_task_call cpu ctx k (Thread_create a b c) = map_option snd (sys_thread_create cpu k a b c)"
| "handle_task_call cpu ctx k Thread_exit = map_option snd (sys_thread_exit cpu k ctx)"
| "handle_task_call cpu ctx k Thread_yield = map_option snd (sys_thread_yield cpu k ctx)"
| "handle_task_call cpu ctx k Sched_yield = map_option snd (sys_sched_yield cpu k ctx)"
| "handle_task_call cpu ctx k (Setpgid a b) = map_option snd (sys_setpgid cpu k a b)"
| "handle_task_call cpu ctx k Setsid = map_option snd (sys_setsid cpu k)"
| "handle_task_call cpu ctx k (List_tasks a b) = map_option snd (sys_list_tasks k a b)"

primrec handle_signal_call :: "nat \<Rightarrow> saved_context \<Rightarrow> 'w kfs \<Rightarrow> signal_call \<Rightarrow> 'w kfs panics" where
  "handle_signal_call cpu ctx k (Kill a b) = map_option snd (sys_kill cpu k a b)"
| "handle_signal_call cpu ctx k (Signal a b) = map_option snd (sys_signal cpu k a b)"
| "handle_signal_call cpu ctx k (Sigreturn a) = map_option snd (sys_sigreturn cpu k a)"
| "handle_signal_call cpu ctx k (Sigprocmask a b c) = map_option snd (sys_sigprocmask cpu k a b c)"
| "handle_signal_call cpu ctx k (Tgkill a b c) = map_option snd (sys_tgkill cpu k a b c)"
| "handle_signal_call cpu ctx k (Rt_sigaction a b c) = map_option snd (sys_rt_sigaction cpu k a b c)"

primrec handle_fd_call :: "nat \<Rightarrow> saved_context \<Rightarrow> 'w kfs \<Rightarrow> fd_call \<Rightarrow> 'w kfs panics" where
  "handle_fd_call cpu ctx k (Dup2 a b) = map_option snd (sys_dup2 cpu k a b)"
| "handle_fd_call cpu ctx k (Dup3 a b c) = map_option snd (sys_dup3 cpu k a b c)"
| "handle_fd_call cpu ctx k (Epoll_create a) = map_option snd (sys_epoll_create cpu k a)"
| "handle_fd_call cpu ctx k (Pipe a) = map_option snd (sys_pipe cpu k a)"
| "handle_fd_call cpu ctx k (Env_get a b c d) = map_option snd (sys_env_get cpu k a b c d)"
| "handle_fd_call cpu ctx k (Env_set a b c d) = map_option snd (sys_env_set cpu k a b c d)"
| "handle_fd_call cpu ctx k (Getcwd a b) = map_option snd (sys_getcwd cpu k a b)"
| "handle_fd_call cpu ctx k (Umask a) = map_option snd (sys_umask cpu k a)"
| "handle_fd_call cpu ctx k (Flock a b) = map_option snd (sys_flock cpu k a b)"
| "handle_fd_call cpu ctx k (Ioctl a b c) = map_option snd (sys_ioctl k a b c)"
| "handle_fd_call cpu ctx k (Getrusage a b) = map_option snd (sys_getrusage k a b)"
| "handle_fd_call cpu ctx k (Prlimit a b c d) = map_option snd (sys_prlimit k a b c d)"

primrec handle_file_call :: "nat \<Rightarrow> saved_context \<Rightarrow> 'w kfs \<Rightarrow> file_call \<Rightarrow> 'w kfs panics" where
  "handle_file_call cpu ctx k (Fs_open a b c) = map_option snd (sys_fs_open cpu k a b c)"
| "handle_file_call cpu ctx k (Fs_read a b c) = map_option snd (sys_fs_read cpu k a b c)"
| "handle_file_call cpu ctx k (Fs_write a b c) = map_option snd (sys_fs_write cpu k a b c)"
| "handle_file_call cpu ctx k (Fs_close a) = map_option snd (sys_fs_close cpu k a)"
| "handle_file_call cpu ctx k (Fs_seek a b c) = map_option snd (sys_fs_seek cpu k a b c)"
| "handle_file_call cpu ctx k (Fs_unlink a b) = map_option snd (sys_fs_unlink cpu k a b)"
| "handle_file_call cpu ctx k (Fs_rename a b c d) = map_option snd (sys_fs_rename cpu k a b c d)"
| "handle_file_call cpu ctx k (Fs_mkdir a b c) = map_option snd (sys_fs_mkdir cpu k a b c)"
| "handle_file_call cpu ctx k (Fs_rmdir a b) = map_option snd (sys_fs_rmdir cpu k a b)"
| "handle_file_call cpu ctx k (Mkfifo a b) = map_option snd (sys_mkfifo cpu k a b)"
| "handle_file_call cpu ctx k (Chdir a b) = map_option snd (sys_chdir cpu k a b)"

primrec handle_meta_call :: "nat \<Rightarrow> saved_context \<Rightarrow> 'w kfs \<Rightarrow> meta_call \<Rightarrow> 'w kfs panics" where
  "handle_meta_call cpu ctx k (Fs_stat a b c) = map_option snd (sys_fs_stat cpu k a b c)"
| "handle_meta_call cpu ctx k (Lstat a b c) = map_option snd (sys_lstat cpu k a b c)"
| "handle_meta_call cpu ctx k (Fstat a b) = map_option snd (sys_fstat cpu k a b)"
| "handle_meta_call cpu ctx k (Fs_readdir a b c) = map_option snd (sys_fs_readdir cpu k a b c)"
| "handle_meta_call cpu ctx k (Getdents64 a b c) = map_option snd (sys_getdents64 cpu k a b c)"
| "handle_meta_call cpu ctx k (Access a b c) = map_option snd (sys_access cpu k a b c)"
| "handle_meta_call cpu ctx k (Symlink a b c d) = map_option snd (sys_symlink cpu k a b c d)"
| "handle_meta_call cpu ctx k (Readlink a b c d) = map_option snd (sys_readlink k a b c d)"
| "handle_meta_call cpu ctx k (Chmod a b c) = map_option snd (sys_chmod cpu k a b c)"

primrec handle_syscall :: "nat \<Rightarrow> saved_context \<Rightarrow> 'w kfs \<Rightarrow> syscall \<Rightarrow> 'w kfs panics" where
  "handle_syscall cpu ctx k (Task_call c) = handle_task_call cpu ctx k c"
| "handle_syscall cpu ctx k (Signal_call c) = handle_signal_call cpu ctx k c"
| "handle_syscall cpu ctx k (Fd_call c) = handle_fd_call cpu ctx k c"
| "handle_syscall cpu ctx k (File_call c) = handle_file_call cpu ctx k c"
| "handle_syscall cpu ctx k (Meta_call c) = handle_meta_call cpu ctx k c"

end
