(* ===== verification/Ramfs.thy ===== *)
theory Ramfs
  imports Vfs User_Mem
begin

text \<open>
  The in-memory file system, \<open>kernel/src/fs/ramfs.rs\<close>: an array of 32 entries. The entry of a
  directory lists its children by name and slot; the root directory is an entry named \<open>.\<close>
  that is made when it is first needed. Inode numbers are slot numbers plus one, and 0 is the root.
  The operations of \<open>RamFsVfs\<close> are collected in \<open>ramfs_vfs\<close>, the record behind \<open>dyn FileSystem\<close>. The
  console output of the operations is not represented.
\<close>

definition MAX_FILES :: nat where "MAX_FILES = 32"
definition MAX_NAME_LEN :: nat where "MAX_NAME_LEN = 64"
definition MAX_FILE_SIZE :: nat where "MAX_FILE_SIZE = 2048"
definition ROOT_INO :: u64 where "ROOT_INO = 0"
definition FILE_INO_OFFSET :: u64 where "FILE_INO_OFFSET = 1"

record file_entry =
  fe_name :: "u8 list"
  fe_data :: "u8 list"
  fe_in_use :: bool
  fe_symlink_target :: "rstr option"
  fe_is_dir :: bool
  fe_is_fifo :: bool
  fe_children :: "(u8 list \<times> nat) list"
  fe_fifo_buffer :: "arc option"
  fe_mode :: u16

type_synonym ramfs = "file_entry list"

definition empty_entry :: file_entry where
  "empty_entry = \<lparr>fe_name = replicate MAX_NAME_LEN 0, fe_data = [], fe_in_use = False, fe_symlink_target = None,
     fe_is_dir = False, fe_is_fifo = False, fe_children = [], fe_fifo_buffer = None, fe_mode = 0\<rparr>"

definition ramfs_new :: ramfs where
  "ramfs_new = replicate MAX_FILES empty_entry"

text \<open>\<open>files[idx]\<close>: an index out of range panics.\<close>

definition entry_at :: "ramfs \<Rightarrow> nat \<Rightarrow> file_entry panics" where
  "entry_at fs i = (if i < length fs then Some (fs ! i) else None)"

definition edit_entry :: "ramfs \<Rightarrow> nat \<Rightarrow> (file_entry \<Rightarrow> file_entry) \<Rightarrow> ramfs" where
  "edit_entry fs i f = fs[i := f (fs ! i)]"

text \<open>\<open>from_utf8\<close> of the name up to its first zero byte.\<close>

definition name_str :: "u8 list \<Rightarrow> rstr option" where
  "name_str nm = (let n = takeWhile (\<lambda>b. b \<noteq> 0) nm in if utf8_ok n then Some n else None)"

subsection \<open>Slots\<close>

definition find_file :: "ramfs \<Rightarrow> rstr \<Rightarrow> nat option" where
  "find_file fs name = position (\<lambda>f. fe_in_use f \<and> name_str (fe_name f) = Some name) fs"

definition find_free_slot :: "ramfs \<Rightarrow> nat option" where
  "find_free_slot fs = position (\<lambda>f. \<not> fe_in_use f) fs"

definition entry_name :: "ramfs \<Rightarrow> nat \<Rightarrow> rstr panics" where
  "entry_name fs idx = do {
     f \<leftarrow> entry_at fs idx;
     Some (case name_str (fe_name f) of Some n \<Rightarrow> n | None \<Rightarrow> []) }"

definition clear_slot :: "ramfs \<Rightarrow> nat \<Rightarrow> ramfs" where
  "clear_slot fs idx = (if idx \<ge> MAX_FILES then fs else fs[idx := empty_entry])"

text \<open>The name is copied into the first bytes of the field: a name longer than the field panics.\<close>

definition put_name :: "rstr \<Rightarrow> u8 list panics" where
  "put_name name = (if length name \<le> MAX_NAME_LEN then Some (name @ replicate (MAX_NAME_LEN - length name) 0) else None)"

definition init_slot :: "ramfs \<Rightarrow> nat \<Rightarrow> rstr \<Rightarrow> ramfs panics" where
  "init_slot fs slot name = do {
     assert_p (slot < MAX_FILES);
     f \<leftarrow> entry_at fs slot;
     assert_p (\<not> fe_in_use f);
     nm \<leftarrow> put_name name;
     Some (fs[slot := \<lparr>fe_name = nm, fe_data = [], fe_in_use = True, fe_symlink_target = None, fe_is_dir = False,
       fe_is_fifo = False, fe_children = [], fe_fifo_buffer = None, fe_mode = DEFAULT_FILE_MODE\<rparr>]) }"

definition find_child :: "ramfs \<Rightarrow> nat \<Rightarrow> rstr \<Rightarrow> nat option panics" where
  "find_child fs dir_idx name = do {
     d \<leftarrow> entry_at fs dir_idx;
     Some (if \<not> fe_is_dir d then None
           else map_option snd (find (\<lambda>(child_name, child_idx). name_str child_name = Some name) (fe_children d))) }"

definition add_child :: "ramfs \<Rightarrow> nat \<Rightarrow> nat \<Rightarrow> ramfs" where
  "add_child fs parent_idx slot =
     edit_entry fs parent_idx (\<lambda>d. d\<lparr>fe_children := fe_children d @ [(fe_name (fs ! slot), slot)]\<rparr>)"

definition drop_child :: "ramfs \<Rightarrow> nat \<Rightarrow> nat \<Rightarrow> ramfs" where
  "drop_child fs parent_idx child_idx =
     edit_entry fs parent_idx (\<lambda>d. d\<lparr>fe_children := filter (\<lambda>(_, ci). ci \<noteq> child_idx) (fe_children d)\<rparr>)"

definition get_root_dir_idx :: "ramfs \<Rightarrow> nat option" where
  "get_root_dir_idx fs = position (\<lambda>f. fe_in_use f \<and> fe_is_dir f \<and> name_str (fe_name f) = Some (str ''.'')) fs"

definition root_entry :: file_entry where
  "root_entry = \<lparr>fe_name = 46 # replicate (MAX_NAME_LEN - 1) 0, fe_data = [], fe_in_use = True,
     fe_symlink_target = None, fe_is_dir = True, fe_is_fifo = False, fe_children = [], fe_fifo_buffer = None,
     fe_mode = DEFAULT_DIR_MODE\<rparr>"

definition ensure_root_dir :: "ramfs \<Rightarrow> (nat \<times> ramfs) panics" where
  "ensure_root_dir fs =
     (case get_root_dir_idx fs of
        Some idx \<Rightarrow> Some (idx, fs)
      | None \<Rightarrow> do { slot \<leftarrow> find_free_slot fs; Some (slot, fs[slot := root_entry]) })"

text \<open>The checks \<open>idx >= MAX_FILES || !files[idx].in_use\<close> and with \<open>|| !files[idx].is_dir\<close>, for a non-root inode.\<close>

definition used_slot :: "ramfs \<Rightarrow> u64 \<Rightarrow> nat option" where
  "used_slot fs ino =
     (let idx = unat (ino - FILE_INO_OFFSET) in if idx \<ge> MAX_FILES \<or> \<not> fe_in_use (fs ! idx) then None else Some idx)"

definition used_dir :: "ramfs \<Rightarrow> u64 \<Rightarrow> nat option" where
  "used_dir fs ino = (let idx = unat (ino - FILE_INO_OFFSET) in
     if idx \<ge> MAX_FILES \<or> \<not> fe_in_use (fs ! idx) \<or> \<not> fe_is_dir (fs ! idx) then None else Some idx)"

definition slot_ino :: "nat \<Rightarrow> u64" where
  "slot_ino slot = of_nat slot + FILE_INO_OFFSET"

subsection \<open>Files\<close>

text \<open>\<open>trim_start_matches('/')\<close>.\<close>

definition trim_start :: "rstr \<Rightarrow> rstr" where
  "trim_start path = dropWhile (\<lambda>c. c = slash) path"

definition ramfs_open :: "rstr \<Rightarrow> open_flags \<Rightarrow> (ramfs, u64) fs_call" where
  "ramfs_open path flags fs =
     (let name = trim_start path in
      if name = [] then do { (_, fs) \<leftarrow> ensure_root_dir fs; Some (Inr ROOT_INO, fs) }
      else case find_file fs name of
        Some idx \<Rightarrow>
          Some (Inr (slot_ino idx),
                if of_contains flags OF_TRUNCATE then edit_entry fs idx (\<lambda>f. f\<lparr>fe_data := []\<rparr>) else fs)
      | None \<Rightarrow>
          if of_contains flags OF_CREATE then
            (case find_free_slot fs of
               None \<Rightarrow> Some (Inl FsNoSpace, fs)
             | Some slot \<Rightarrow> do {
                 fs \<leftarrow> init_slot fs slot name;
                 Some (Inr (slot_ino slot),
                       case get_root_dir_idx fs of Some root_idx \<Rightarrow> add_child fs root_idx slot | None \<Rightarrow> fs) })
          else Some (Inl FsNotFound, fs))"

definition ramfs_close :: "u64 \<Rightarrow> (ramfs, unit) fs_call" where
  "ramfs_close ino fs = Some (Inr (), fs)"

definition ramfs_read :: "u64 \<Rightarrow> u64 \<Rightarrow> u8 list \<Rightarrow> (ramfs, nat \<times> u8 list) fs_call" where
  "ramfs_read ino offset buf fs =
     (if ino = ROOT_INO then Some (Inl FsNotSupported, fs)
      else case used_slot fs ino of
        None \<Rightarrow> Some (Inl FsNotFound, fs)
      | Some idx \<Rightarrow>
          let data = fe_data (fs ! idx); off = unat offset in
          if off \<ge> length data then Some (Inr (0, buf), fs)
          else let available = length data - off;
                   to_read = min (length buf) available
               in Some (Inr (to_read, take to_read (drop off data) @ drop to_read buf), fs))"

text \<open>\<open>Vec::resize\<close> to a larger length, and \<open>copy_from_slice\<close> into a range.\<close>

definition grow :: "nat \<Rightarrow> u8 list \<Rightarrow> u8 list" where
  "grow n xs = xs @ replicate (n - length xs) 0"

definition splice :: "nat \<Rightarrow> u8 list \<Rightarrow> u8 list \<Rightarrow> u8 list" where
  "splice off data xs = take off xs @ data @ drop (off + length data) xs"

definition ramfs_write :: "u64 \<Rightarrow> u64 \<Rightarrow> u8 list \<Rightarrow> (ramfs, nat) fs_call" where
  "ramfs_write ino offset data fs =
     (if ino = ROOT_INO then Some (Inl FsNotSupported, fs)
      else case used_slot fs ino of
        None \<Rightarrow> Some (Inl FsNotFound, fs)
      | Some idx \<Rightarrow>
          if unat offset + length data \<ge> 2 ^ 64 then None
          else let e = unat offset + length data in
            if e > MAX_FILE_SIZE then Some (Inl FsFileTooLarge, fs)
            else Some (Inr (length data),
              edit_entry fs idx (\<lambda>f. f\<lparr>fe_data := splice (unat offset) data (grow e (fe_data f))\<rparr>)))"

definition ramfs_stat :: "u64 \<Rightarrow> (ramfs, inode_meta) fs_call" where
  "ramfs_stat ino fs =
     (if ino = ROOT_INO then
        let root_children = (case get_root_dir_idx fs of Some idx \<Rightarrow> length (fe_children (fs ! idx)) | None \<Rightarrow> 0)
        in Some (Inr \<lparr>im_ino = ROOT_INO, im_is_dir = True, im_is_symlink = False, im_is_fifo = False,
             im_size = of_nat root_children, im_nlink = 1, im_mode = DEFAULT_DIR_MODE\<rparr>, fs)
      else case used_slot fs ino of
        None \<Rightarrow> Some (Inl FsNotFound, fs)
      | Some idx \<Rightarrow>
          let f = fs ! idx;
              sz = (if fe_is_dir f then length (fe_children f) else length (fe_data f))
          in Some (Inr \<lparr>im_ino = ino, im_is_dir = fe_is_dir f, im_is_symlink = fe_symlink_target f \<noteq> None,
               im_is_fifo = fe_is_fifo f, im_size = of_nat sz, im_nlink = 1, im_mode = fe_mode f\<rparr>, fs))"

subsection \<open>Directories\<close>

text \<open>The entries of a list of children: those with a valid name whose slot is in use.\<close>

fun list_children :: "ramfs \<Rightarrow> (u8 list \<times> nat) list \<Rightarrow> dir_entry list panics" where
  "list_children fs [] = Some []"
| "list_children fs ((child_name, child_idx) # cs) =
     (case name_str child_name of
        None \<Rightarrow> list_children fs cs
      | Some cn \<Rightarrow> do {
          child \<leftarrow> entry_at fs child_idx;
          es \<leftarrow> list_children fs cs;
          Some (if fe_in_use child then \<lparr>de_name = cn, de_ino = slot_ino child_idx, de_is_dir = fe_is_dir child\<rparr> # es
                else es) })"

text \<open>Without a root entry: the files in use that are not directories.\<close>

definition list_flat :: "ramfs \<Rightarrow> dir_entry list" where
  "list_flat fs = List.map_filter (\<lambda>(i, f).
     if fe_in_use f \<and> \<not> fe_is_dir f
     then map_option (\<lambda>n. \<lparr>de_name = n, de_ino = slot_ino i, de_is_dir = False\<rparr>) (name_str (fe_name f)) else None)
     (enumerate 0 fs)"

definition dot_entries :: "u64 \<Rightarrow> u64 \<Rightarrow> dir_entry list" where
  "dot_entries self parent =
     [\<lparr>de_name = str ''.'', de_ino = self, de_is_dir = True\<rparr>, \<lparr>de_name = str ''..'', de_ino = parent, de_is_dir = True\<rparr>]"

definition ramfs_readdir :: "u64 \<Rightarrow> (ramfs, dir_entry list) fs_call" where
  "ramfs_readdir dir_ino fs =
     (let parent_ino = dir_ino in
      if dir_ino = ROOT_INO then
        (case get_root_dir_idx fs of
           Some root_idx \<Rightarrow> do {
             es \<leftarrow> list_children fs (fe_children (fs ! root_idx));
             Some (Inr (dot_entries ROOT_INO ROOT_INO @ es), fs) }
         | None \<Rightarrow> Some (Inr (dot_entries ROOT_INO ROOT_INO @ list_flat fs), fs))
      else case used_dir fs dir_ino of
        None \<Rightarrow> Some (Inl FsNotFound, fs)
      | Some idx \<Rightarrow> do {
          es \<leftarrow> list_children fs (fe_children (fs ! idx));
          Some (Inr (dot_entries dir_ino parent_ino @ es), fs) })"

text \<open>The parent directory of \<open>create\<close> and \<open>mkdir\<close>, which differ in the error for a bad parent.\<close>

definition parent_dir :: "u64 \<Rightarrow> fs_error \<Rightarrow> (ramfs, nat) fs_call" where
  "parent_dir parent_ino e fs =
     (if parent_ino = ROOT_INO then do { (idx, fs) \<leftarrow> ensure_root_dir fs; Some (Inr idx, fs) }
      else case used_dir fs parent_ino of None \<Rightarrow> Some (Inl e, fs) | Some idx \<Rightarrow> Some (Inr idx, fs))"

definition bad_name :: "rstr \<Rightarrow> bool" where
  "bad_name name \<longleftrightarrow> name = [] \<or> length name \<ge> MAX_NAME_LEN"

text \<open>A fresh slot, changed by \<open>f\<close>, registered in its parent.\<close>

definition new_child :: "nat \<Rightarrow> rstr \<Rightarrow> (file_entry \<Rightarrow> file_entry) \<Rightarrow> (ramfs, u64) fs_call" where
  "new_child parent_idx name f fs =
     (case find_free_slot fs of
        None \<Rightarrow> Some (Inl FsNoSpace, fs)
      | Some slot \<Rightarrow> do {
          fs \<leftarrow> init_slot fs slot name;
          let fs = edit_entry fs slot f;
          Some (Inr (slot_ino slot), add_child fs parent_idx slot) })"

definition ramfs_create :: "u64 \<Rightarrow> rstr \<Rightarrow> (ramfs, u64) fs_call" where
  "ramfs_create parent_ino name fs =
     (if bad_name name then Some (Inl FsInvalidName, fs)
      else do {
        (r, fs) \<leftarrow> parent_dir parent_ino FsNotFound fs;
        (case r of
           Inl e \<Rightarrow> Some (Inl e, fs)
         | Inr parent_idx \<Rightarrow> do {
             c \<leftarrow> find_child fs parent_idx name;
             if c \<noteq> None then Some (Inl FsAlreadyExists, fs)
             else new_child parent_idx name id fs }) })"

definition ramfs_mkdir :: "u64 \<Rightarrow> rstr \<Rightarrow> (ramfs, u64) fs_call" where
  "ramfs_mkdir parent_ino name fs =
     (if bad_name name then Some (Inl FsInvalidName, fs)
      else do {
        (r, fs) \<leftarrow> parent_dir parent_ino FsNotADirectory fs;
        (case r of
           Inl e \<Rightarrow> Some (Inl e, fs)
         | Inr parent_idx \<Rightarrow> do {
             c \<leftarrow> find_child fs parent_idx name;
             if c \<noteq> None then Some (Inl FsAlreadyExists, fs)
             else new_child parent_idx name (\<lambda>f. f\<lparr>fe_is_dir := True, fe_mode := DEFAULT_DIR_MODE\<rparr>) fs }) })"

definition ramfs_symlink :: "u64 \<Rightarrow> rstr \<Rightarrow> rstr \<Rightarrow> (ramfs, u64) fs_call" where
  "ramfs_symlink parent_ino name target fs =
     (if bad_name name then Some (Inl FsInvalidName, fs)
      else if parent_ino = ROOT_INO then
        if find_file fs name \<noteq> None then Some (Inl FsAlreadyExists, fs)
        else do {
          (parent_idx, fs) \<leftarrow> ensure_root_dir fs;
          new_child parent_idx name (\<lambda>f. f\<lparr>fe_symlink_target := Some target\<rparr>) fs }
      else case used_dir fs parent_ino of
        None \<Rightarrow> Some (Inl FsNotFound, fs)
      | Some idx \<Rightarrow> do {
          c \<leftarrow> find_child fs idx name;
          if c \<noteq> None then Some (Inl FsAlreadyExists, fs)
          else new_child idx name (\<lambda>f. f\<lparr>fe_symlink_target := Some target\<rparr>) fs })"

definition ramfs_readlink :: "u64 \<Rightarrow> u8 list \<Rightarrow> (ramfs, nat \<times> u8 list) fs_call" where
  "ramfs_readlink ino buf fs =
     (if ino = ROOT_INO then Some (Inl FsNotSupported, fs)
      else case used_slot fs ino of
        None \<Rightarrow> Some (Inl FsNotFound, fs)
      | Some idx \<Rightarrow>
          (case fe_symlink_target (fs ! idx) of
             None \<Rightarrow> Some (Inl FsNotSupported, fs)
           | Some target \<Rightarrow>
               let to_copy = min (length buf) (length target)
               in Some (Inr (to_copy, take to_copy target @ drop to_copy buf), fs)))"

definition remove_child :: "nat \<Rightarrow> nat \<Rightarrow> ramfs \<Rightarrow> ramfs" where
  "remove_child parent_idx child_idx fs = clear_slot (drop_child fs parent_idx child_idx) child_idx"

definition unlink_in :: "nat \<Rightarrow> rstr \<Rightarrow> (ramfs, unit) fs_call" where
  "unlink_in parent_idx name fs = do {
     c \<leftarrow> find_child fs parent_idx name;
     (case c of
        None \<Rightarrow> Some (Inl FsNotFound, fs)
      | Some child_idx \<Rightarrow> Some (Inr (), remove_child parent_idx child_idx fs)) }"

definition ramfs_unlink :: "u64 \<Rightarrow> rstr \<Rightarrow> (ramfs, unit) fs_call" where
  "ramfs_unlink parent_ino name fs =
     (if parent_ino = ROOT_INO then
        (case get_root_dir_idx fs of
           Some idx \<Rightarrow> unlink_in idx name fs
         | None \<Rightarrow>
             (case find_file fs name of
                None \<Rightarrow> Some (Inl FsNotFound, fs)
              | Some idx \<Rightarrow> Some (Inr (), edit_entry fs idx (\<lambda>f. f\<lparr>fe_in_use := False, fe_data := [],
                  fe_name := replicate MAX_NAME_LEN 0, fe_symlink_target := None\<rparr>))))
      else case used_dir fs parent_ino of
        None \<Rightarrow> Some (Inl FsNotFound, fs)
      | Some idx \<Rightarrow> unlink_in idx name fs)"

definition rmdir_in :: "nat \<Rightarrow> rstr \<Rightarrow> (ramfs, unit) fs_call" where
  "rmdir_in parent_idx name fs = do {
     c \<leftarrow> find_child fs parent_idx name;
     (case c of
        None \<Rightarrow> Some (Inl FsNotFound, fs)
      | Some child_idx \<Rightarrow> do {
          child \<leftarrow> entry_at fs child_idx;
          if \<not> fe_is_dir child then Some (Inl FsNotADirectory, fs)
          else if fe_children child \<noteq> [] then Some (Inl FsIoError, fs)
          else Some (Inr (), remove_child parent_idx child_idx fs) }) }"

definition ramfs_rmdir :: "u64 \<Rightarrow> rstr \<Rightarrow> (ramfs, unit) fs_call" where
  "ramfs_rmdir parent_ino name fs =
     (if parent_ino = ROOT_INO then
        (case get_root_dir_idx fs of None \<Rightarrow> Some (Inl FsNotFound, fs) | Some idx \<Rightarrow> rmdir_in idx name fs)
      else case used_dir fs parent_ino of
        None \<Rightarrow> Some (Inl FsNotADirectory, fs)
      | Some idx \<Rightarrow> rmdir_in idx name fs)"

definition ramfs_chmod :: "u64 \<Rightarrow> u16 \<Rightarrow> (ramfs, unit) fs_call" where
  "ramfs_chmod ino mode fs =
     (if ino = ROOT_INO then Some (Inl FsNotSupported, fs)
      else case used_slot fs ino of
        None \<Rightarrow> Some (Inl FsNotFound, fs)
      | Some idx \<Rightarrow> Some (Inr (), edit_entry fs idx (\<lambda>f. f\<lparr>fe_mode := mode AND 0xFFF\<rparr>)))"

definition ramfs_vfs :: "ramfs file_system" where
  "ramfs_vfs = \<lparr>fo_open = ramfs_open, fo_close = ramfs_close, fo_read = ramfs_read, fo_write = ramfs_write,
     fo_stat = ramfs_stat, fo_readdir = ramfs_readdir, fo_create = ramfs_create, fo_unlink = ramfs_unlink,
     fo_symlink = ramfs_symlink, fo_readlink = ramfs_readlink, fo_mkdir = ramfs_mkdir, fo_rmdir = ramfs_rmdir,
     fo_mkfifo = default_mkfifo, fo_chmod = ramfs_chmod, fo_get_fifo_buffer = default_get_fifo_buffer\<rparr>"

subsection \<open>The older interface by name\<close>

datatype ramfs_error = RNotFound | RAlreadyExists | RNoSpace | RFileTooLarge | RInvalidName

fun to_fs_error :: "ramfs_error \<Rightarrow> fs_error" where
  "to_fs_error RNotFound = FsNotFound"
| "to_fs_error RAlreadyExists = FsAlreadyExists"
| "to_fs_error RNoSpace = FsNoSpace"
| "to_fs_error RFileTooLarge = FsFileTooLarge"
| "to_fs_error RInvalidName = FsInvalidName"

definition create_file :: "rstr \<Rightarrow> u8 list \<Rightarrow> ramfs \<Rightarrow> ((ramfs_error + unit) \<times> ramfs) panics" where
  "create_file name data fs =
     (if bad_name name then Some (Inl RInvalidName, fs)
      else if length data > MAX_FILE_SIZE then Some (Inl RFileTooLarge, fs)
      else if find_file fs name \<noteq> None then Some (Inl RAlreadyExists, fs)
      else case find_free_slot fs of
        None \<Rightarrow> Some (Inl RNoSpace, fs)
      | Some slot \<Rightarrow> do {
          nm \<leftarrow> put_name name;
          Some (Inr (), edit_entry fs slot (\<lambda>f. f\<lparr>fe_name := nm, fe_data := data, fe_in_use := True\<rparr>)) })"

definition read_file :: "rstr \<Rightarrow> ramfs \<Rightarrow> ramfs_error + u8 list" where
  "read_file name fs = (case find_file fs name of None \<Rightarrow> Inl RNotFound | Some idx \<Rightarrow> Inr (fe_data (fs ! idx)))"

definition write_file :: "rstr \<Rightarrow> u8 list \<Rightarrow> ramfs \<Rightarrow> (ramfs_error + unit) \<times> ramfs" where
  "write_file name data fs =
     (if length data > MAX_FILE_SIZE then (Inl RFileTooLarge, fs)
      else case find_file fs name of
        None \<Rightarrow> (Inl RNotFound, fs)
      | Some idx \<Rightarrow> (Inr (), edit_entry fs idx (\<lambda>f. f\<lparr>fe_data := data\<rparr>)))"

definition write_file_at :: "rstr \<Rightarrow> nat \<Rightarrow> u8 list \<Rightarrow> ramfs \<Rightarrow> (ramfs_error + nat) \<times> ramfs" where
  "write_file_at name offset data fs =
     (if data = [] then (Inr 0, fs)
      else if offset + length data \<ge> 2 ^ 64 then (Inl RFileTooLarge, fs)
      else if offset + length data > MAX_FILE_SIZE then (Inl RFileTooLarge, fs)
      else case find_file fs name of
        None \<Rightarrow> (Inl RNotFound, fs)
      | Some idx \<Rightarrow> (Inr (length data),
          edit_entry fs idx (\<lambda>f. f\<lparr>fe_data := splice offset data (grow (offset + length data) (grow offset (fe_data f)))\<rparr>)))"

definition file_size :: "rstr \<Rightarrow> ramfs \<Rightarrow> ramfs_error + nat" where
  "file_size name fs = (case find_file fs name of None \<Rightarrow> Inl RNotFound | Some idx \<Rightarrow> Inr (length (fe_data (fs ! idx))))"

definition delete_file :: "rstr \<Rightarrow> ramfs \<Rightarrow> (ramfs_error + unit) \<times> ramfs" where
  "delete_file name fs =
     (case find_file fs name of
        None \<Rightarrow> (Inl RNotFound, fs)
      | Some idx \<Rightarrow> (Inr (), edit_entry fs idx (\<lambda>f. f\<lparr>fe_in_use := False, fe_data := [], fe_name := replicate MAX_NAME_LEN 0\<rparr>)))"

definition list_files :: "ramfs \<Rightarrow> rstr list" where
  "list_files fs = List.map_filter (\<lambda>f. if fe_in_use f then name_str (fe_name f) else None) fs"

end
