(* ===== verification/Ramfs_Inv.thy ===== *)
theory Ramfs_Inv
  imports Ramfs
begin

text \<open>
  The invariant of the in-memory file system and its preservation: entries within their bounds, the children of a
  directory in use under the listed name, no entry listed twice, and, once there is a directory, a root that
  no directory lists. It holds for the operations of the trait; the older interface by name keeps the bounds only.
\<close>

definition entry_ok :: "file_entry \<Rightarrow> bool" where
  "entry_ok f \<longleftrightarrow> length (fe_name f) = MAX_NAME_LEN \<and> length (fe_data f) \<le> MAX_FILE_SIZE"

definition bounds_ok :: "ramfs \<Rightarrow> bool" where
  "bounds_ok fs \<longleftrightarrow> length fs = MAX_FILES \<and> (\<forall>f\<in>set fs. entry_ok f)"

definition dir_at :: "ramfs \<Rightarrow> nat \<Rightarrow> bool" where
  "dir_at fs d \<longleftrightarrow> d < length fs \<and> fe_in_use (fs ! d) \<and> fe_is_dir (fs ! d)"

definition owns :: "ramfs \<Rightarrow> nat \<Rightarrow> nat \<Rightarrow> bool" where
  "owns fs d c \<longleftrightarrow> dir_at fs d \<and> c \<in> snd ` set (fe_children (fs ! d))"

definition links_ok :: "ramfs \<Rightarrow> bool" where
  "links_ok fs \<longleftrightarrow> (\<forall>d. dir_at fs d \<longrightarrow> distinct (map snd (fe_children (fs ! d))) \<and>
     (\<forall>n c. (n, c) \<in> set (fe_children (fs ! d)) \<longrightarrow> c < length fs \<and> fe_in_use (fs ! c) \<and> fe_name (fs ! c) = n))
     \<and> (\<forall>d d' c. owns fs d c \<longrightarrow> owns fs d' c \<longrightarrow> d = d')"

definition is_root :: "file_entry \<Rightarrow> bool" where
  "is_root f \<longleftrightarrow> fe_in_use f \<and> fe_is_dir f \<and> name_str (fe_name f) = Some (str ''.'')"

definition rooted :: "ramfs \<Rightarrow> bool" where
  "rooted fs \<longleftrightarrow> (\<forall>d. \<not> dir_at fs d) \<or> (\<exists>r<length fs. is_root (fs ! r) \<and> (\<forall>d. \<not> owns fs d r))"

definition ramfs_inv :: "ramfs \<Rightarrow> bool" where
  "ramfs_inv fs \<longleftrightarrow> bounds_ok fs \<and> links_ok fs \<and> rooted fs"

lemma bounds_len: "bounds_ok fs \<Longrightarrow> length fs = MAX_FILES"
  by (simp add: bounds_ok_def)

lemma ramfs_inv_new: "ramfs_inv ramfs_new"
  by (auto simp: ramfs_inv_def bounds_ok_def entry_ok_def ramfs_new_def empty_entry_def links_ok_def rooted_def
      dir_at_def owns_def)

subsection \<open>Lookups\<close>

lemma find_file_Some:
  assumes "find_file fs name = Some i"
  shows "i < length fs" "fe_in_use (fs ! i)" "name_str (fe_name (fs ! i)) = Some name"
  using assms position_lt [of _ fs i] position_sat [of _ fs i] unfolding find_file_def by fastforce+

lemma find_free_slot_Some:
  assumes "find_free_slot fs = Some i"
  shows "i < length fs" "\<not> fe_in_use (fs ! i)"
  using assms position_lt [of _ fs i] position_sat [of _ fs i] unfolding find_free_slot_def by fastforce+

lemma get_root_Some:
  assumes "get_root_dir_idx fs = Some i"
  shows "i < length fs" "is_root (fs ! i)" "dir_at fs i"
  using assms position_lt [of _ fs i] position_sat [of _ fs i]
  unfolding get_root_dir_idx_def is_root_def dir_at_def by fastforce+

lemma get_root_None: "get_root_dir_idx fs = None \<longleftrightarrow> (\<forall>f\<in>set fs. \<not> is_root f)"
  by (simp add: get_root_dir_idx_def position_None is_root_def)

lemma used_slot_Some:
  assumes "used_slot fs ino = Some i" and "length fs = MAX_FILES"
  shows "i < length fs" "fe_in_use (fs ! i)" "i = unat (ino - FILE_INO_OFFSET)"
  using assms by (auto simp: used_slot_def Let_def split: if_splits)

lemma used_dir_Some:
  assumes "used_dir fs ino = Some i" and "length fs = MAX_FILES"
  shows "dir_at fs i" "i = unat (ino - FILE_INO_OFFSET)"
  using assms by (auto simp: used_dir_def Let_def dir_at_def split: if_splits)

lemma find_child_ok:
  assumes "dir_at fs d"
  shows "\<exists>c. find_child fs d name = Some c"
  using assms by (simp add: find_child_def entry_at_def dir_at_def)

lemma find_child_Some:
  assumes "dir_at fs d" and "find_child fs d name = Some (Some c)"
  shows "owns fs d c"
proof -
  obtain n where "find (\<lambda>(cn, ci). name_str cn = Some name) (fe_children (fs ! d)) = Some (n, c)"
    using assms by (auto simp: find_child_def entry_at_def dir_at_def)
  then have "(n, c) \<in> set (fe_children (fs ! d))" by (auto simp: find_Some_iff in_set_conv_nth)
  then show ?thesis using assms(1) by (force simp: owns_def)
qed

lemma owns_in_use: "links_ok fs \<Longrightarrow> owns fs d c \<Longrightarrow> c < length fs \<and> fe_in_use (fs ! c)"
  unfolding links_ok_def owns_def by fastforce

lemma slot_ino_nz:
  assumes "i < MAX_FILES"
  shows "slot_ino i \<noteq> ROOT_INO"
proof -
  have "slot_ino i = of_nat (Suc i)" by (simp add: slot_ino_def FILE_INO_OFFSET_def)
  moreover have "unat (of_nat (Suc i) :: u64) = Suc i"
    by (rule unat_of_nat_small) (use assms in \<open>simp add: MAX_FILES_def\<close>)
  ultimately have "unat (slot_ino i) = Suc i" by (simp only:)
  then show ?thesis unfolding ROOT_INO_def by (metis Zero_not_Suc unat_0)
qed

lemma slot_ino_back: "i < MAX_FILES \<Longrightarrow> unat (slot_ino i - FILE_INO_OFFSET) = i"
  unfolding slot_ino_def by (simp add: MAX_FILES_def) (rule unat_of_nat_small, simp)

lemma used_slot_ino: "i < MAX_FILES \<Longrightarrow> used_slot fs (slot_ino i) = (if fe_in_use (fs ! i) then Some i else None)"
  by (simp add: used_slot_def slot_ino_back Let_def)

subsection \<open>Bounds\<close>

lemma bounds_update: "bounds_ok fs \<Longrightarrow> entry_ok f \<Longrightarrow> bounds_ok (fs[i := f])"
  using set_update_subset_insert [of fs i f] by (auto simp: bounds_ok_def)

lemma bounds_edit:
  assumes "bounds_ok fs" and "\<And>f. entry_ok f \<Longrightarrow> entry_ok (g f)"
  shows "bounds_ok (edit_entry fs i g)"
proof (cases "i < length fs")
  case True
  then have "entry_ok (g (fs ! i))" using assms(1) by (intro assms(2)) (simp add: bounds_ok_def)
  then show ?thesis unfolding edit_entry_def by (rule bounds_update [OF assms(1)])
next
  case False
  then show ?thesis using assms(1) by (simp add: edit_entry_def list_update_beyond)
qed

lemma put_name_length: "put_name name = Some nm \<Longrightarrow> length nm = MAX_NAME_LEN"
  by (auto simp: put_name_def split: if_splits)

lemma length_splice_grow:
  "length (splice off data (grow (off + length data) xs)) = max (length xs) (off + length data)"
  by (auto simp: splice_def grow_def)

lemma empty_entry_ok [simp]: "entry_ok empty_entry"
  by (simp add: entry_ok_def empty_entry_def)

lemma root_entry_ok [simp]: "entry_ok root_entry"
  by (simp add: entry_ok_def root_entry_def MAX_NAME_LEN_def)

subsection \<open>Changes that keep the tree\<close>

text \<open>An edit that leaves the name, the kind and the children of the entry.\<close>

lemma edit_keeps:
  assumes "\<And>f. fe_name (g f) = fe_name f" and "\<And>f. fe_in_use (g f) = fe_in_use f" and "\<And>f. fe_is_dir (g f) = fe_is_dir f"
    and "\<And>f. fe_children (g f) = fe_children f"
  shows "links_ok (edit_entry fs i g) = links_ok fs" "rooted (edit_entry fs i g) = rooted fs"
proof -
  have e: "length (edit_entry fs i g) = length fs" by (simp add: edit_entry_def)
  have n: "edit_entry fs i g ! j = (if i = j \<and> j < length fs then g (fs ! j) else fs ! j)" for j
    by (cases "i = j") (auto simp: edit_entry_def list_update_beyond)
  have f: "fe_name (edit_entry fs i g ! j) = fe_name (fs ! j)" "fe_in_use (edit_entry fs i g ! j) = fe_in_use (fs ! j)"
    "fe_is_dir (edit_entry fs i g ! j) = fe_is_dir (fs ! j)" "fe_children (edit_entry fs i g ! j) = fe_children (fs ! j)" for j
    by (simp_all add: n assms)
  show "links_ok (edit_entry fs i g) = links_ok fs" "rooted (edit_entry fs i g) = rooted fs"
    by (simp_all add: links_ok_def rooted_def owns_def dir_at_def is_root_def e f)
qed

lemma edit_inv:
  assumes "ramfs_inv fs" and "\<And>f. fe_name (g f) = fe_name f" and "\<And>f. fe_in_use (g f) = fe_in_use f"
    and "\<And>f. fe_is_dir (g f) = fe_is_dir f" and "\<And>f. fe_children (g f) = fe_children f" and "\<And>f. entry_ok f \<Longrightarrow> entry_ok (g f)"
  shows "ramfs_inv (edit_entry fs i g)"
  using assms(1) bounds_edit [of fs g i] edit_keeps [of g fs i] assms(2-6) by (simp add: ramfs_inv_def)


text \<open>A fresh entry without children in a free slot. It is listed nowhere, since what is listed is in use.\<close>

lemma fill_slot:
  assumes links: "links_ok fs" and free: "i < length fs" "\<not> fe_in_use (fs ! i)"
    and f: "fe_in_use f" "fe_children f = []"
  shows "links_ok (fs[i := f])" "owns (fs[i := f]) d c \<longleftrightarrow> owns fs d c" "\<not> owns fs d i"
    "dir_at (fs[i := f]) d \<longleftrightarrow> (if d = i then fe_is_dir f else dir_at fs d)"
proof -
  have dir: "dir_at (fs[i := f]) d \<longleftrightarrow> (if d = i then fe_is_dir f else dir_at fs d)" for d
    using free f by (auto simp: dir_at_def)
  have own: "owns (fs[i := f]) d c \<longleftrightarrow> owns fs d c" for d c
    using free f dir [of d] by (auto simp: owns_def) (simp_all add: dir_at_def)
  have not: "\<not> owns fs d i" for d using owns_in_use [OF links, of d i] free by blast
  have "\<forall>n c. (n, c) \<in> set (fe_children (fs ! d)) \<longrightarrow> c \<noteq> i" if "dir_at fs d" for d
    using not [of d] that by (force simp: owns_def)
  then show "links_ok (fs[i := f])"
    using links free f unfolding links_ok_def own dir by (auto simp: nth_list_update)
  show "owns (fs[i := f]) d c \<longleftrightarrow> owns fs d c" "\<not> owns fs d i"
    "dir_at (fs[i := f]) d \<longleftrightarrow> (if d = i then fe_is_dir f else dir_at fs d)"
    using own not dir by blast+
qed

lemma rooted_dir: "rooted fs \<Longrightarrow> dir_at fs d \<Longrightarrow> \<exists>r<length fs. is_root (fs ! r) \<and> (\<forall>d. \<not> owns fs d r)"
  by (auto simp: rooted_def)

text \<open>A fresh child of a directory.\<close>

lemma new_child_inv:
  assumes inv: "ramfs_inv fs" and dir: "dir_at fs p" and free: "i < length fs" "\<not> fe_in_use (fs ! i)"
    and f: "fe_in_use f" "fe_children f = []" "entry_ok f"
  shows "ramfs_inv (add_child (fs[i := f]) p i)"
proof -
  let ?g = "fs[i := f]" and ?h = "add_child (fs[i := f]) p i"
  have links: "links_ok fs" and bounds: "bounds_ok fs" and root: "rooted fs" using inv by (simp_all add: ramfs_inv_def)
  note fill = fill_slot [OF links free f(1,2)]
  have pi: "p \<noteq> i" "p < length fs" using dir free by (auto simp: dir_at_def)
  have h: "?h ! j = (if j = p then (fs ! p)\<lparr>fe_children := fe_children (fs ! p) @ [(fe_name f, i)]\<rparr> else ?g ! j)"
    "length ?h = length fs" for j
    using pi free by (auto simp: add_child_def edit_entry_def nth_list_update)
  have dir_h: "dir_at ?h d = dir_at ?g d" for d using pi by (auto simp: dir_at_def h)
  have own_h: "owns ?h d c \<longleftrightarrow> owns fs d c \<or> (d = p \<and> c = i)" for d c
    using fill(2) [of d c] pi dir fill(4) [of d] dir_h [of d] unfolding owns_def by (auto simp: h)
  have b: "bounds_ok ?h"
    unfolding add_child_def by (rule bounds_edit [OF bounds_update [OF bounds f(3)]]) (simp add: entry_ok_def)
  have d: "distinct (map snd (fe_children (?h ! d)))" if "dir_at ?h d" for d
  proof (cases "d = p")
    case True
    have "i \<notin> snd ` set (fe_children (fs ! p))" using fill(3) [of p] dir by (simp add: owns_def)
    then show ?thesis using links dir True by (auto simp: h links_ok_def)
  next
    case False
    then show ?thesis using fill(1) that by (simp add: dir_h h(1) links_ok_def)
  qed
  have l: "c < length fs \<and> fe_in_use (?h ! c) \<and> fe_name (?h ! c) = n"
    if "dir_at ?h d" "(n, c) \<in> set (fe_children (?h ! d))" for d n c
  proof -
    have "(n, c) = (fe_name f, i) \<or> (n, c) \<in> set (fe_children (?g ! d))" using that(2) pi by (auto simp: h split: if_splits)
    then show ?thesis
    proof
      assume "(n, c) = (fe_name f, i)"
      then show ?thesis using free pi f by (simp add: h)
    next
      assume "(n, c) \<in> set (fe_children (?g ! d))"
      then have "c < length fs \<and> fe_in_use (?g ! c) \<and> fe_name (?g ! c) = n"
        using fill(1) that(1) unfolding links_ok_def dir_h by (metis length_list_update)
      then show ?thesis using pi by (auto simp: h)
    qed
  qed
  have o: "d = d'" if "owns ?h d c" "owns ?h d' c" for d d' c
    using that fill(3) links unfolding own_h links_ok_def by blast
  obtain r where r: "r < length fs" "is_root (fs ! r)" "\<forall>d. \<not> owns fs d r" using rooted_dir [OF root dir] by blast
  then have "r \<noteq> i" using free by (auto simp: is_root_def)
  then have "rooted ?h" using r unfolding rooted_def own_h
    by (intro disjI2 exI [of _ r]) (auto simp: h is_root_def)
  then show ?thesis using b d l o unfolding ramfs_inv_def links_ok_def h(2) by blast
qed

text \<open>A child removed with its slot. Only its parent listed it.\<close>

lemma snd_filter: "snd ` set (filter (\<lambda>(_, ci). ci \<noteq> c) xs) = snd ` set xs - {c}"
  by (induction xs) auto

lemma remove_child_inv:
  assumes inv: "ramfs_inv fs" and own: "owns fs p c"
  shows "ramfs_inv (remove_child p c fs)" "\<not> owns (remove_child p c fs) d c"
    "owns (remove_child p c fs) d x \<longleftrightarrow> owns fs d x \<and> d \<noteq> c \<and> x \<noteq> c"
proof -
  let ?h = "remove_child p c fs"
  have links: "links_ok fs" and bounds: "bounds_ok fs" and root: "rooted fs" using inv by (simp_all add: ramfs_inv_def)
  have c: "c < length fs" "p < length fs" "length fs = MAX_FILES"
    using owns_in_use [OF links own] own bounds by (auto simp: owns_def dir_at_def bounds_ok_def)
  have h: "?h ! j = (if j = c then empty_entry
      else if j = p then (fs ! p)\<lparr>fe_children := filter (\<lambda>(_, ci). ci \<noteq> c) (fe_children (fs ! p))\<rparr> else fs ! j)"
    "length ?h = length fs" for j
    using c by (auto simp: remove_child_def clear_slot_def drop_child_def edit_entry_def nth_list_update)
  have dir_h: "dir_at ?h d \<longleftrightarrow> dir_at fs d \<and> d \<noteq> c" for d by (auto simp: dir_at_def h empty_entry_def)
  have only: "owns fs d c \<Longrightarrow> d = p" for d using links own unfolding links_ok_def by blast
  have own_h: "owns ?h d x \<longleftrightarrow> owns fs d x \<and> d \<noteq> c \<and> x \<noteq> c" for d x
  proof (cases "d = p")
    case True
    then show ?thesis by (simp add: owns_def dir_h h snd_filter conj_commute conj_left_commute del: set_filter)
  next
    case False
    then have "\<not> owns fs d c" using only by blast
    then show ?thesis using False unfolding owns_def dir_h by (auto simp: h)
  qed
  have "bounds_ok (drop_child fs p c)" unfolding drop_child_def by (rule bounds_edit [OF bounds]) (simp add: entry_ok_def)
  then have b: "bounds_ok ?h" by (simp add: remove_child_def clear_slot_def bounds_update)
  have sub: "(n, x) \<in> set (fe_children (fs ! d))" if "dir_at ?h d" "(n, x) \<in> set (fe_children (?h ! d))" for d n x
    using that by (auto simp: dir_h h split: if_splits)
  have d: "distinct (map snd (fe_children (?h ! d)))" if "dir_at ?h d" for d
    using that links by (auto simp: dir_h h links_ok_def distinct_map_filter)
  have l: "x < length fs \<and> fe_in_use (?h ! x) \<and> fe_name (?h ! x) = n"
    if dx: "dir_at ?h d" "(n, x) \<in> set (fe_children (?h ! d))" for d n x
  proof -
    have "owns ?h d x" using dx by (force simp: owns_def)
    then have "x \<noteq> c" by (simp add: own_h)
    then show ?thesis using sub [OF dx] dx(1) links by (auto simp: links_ok_def dir_h h)
  qed
  have o: "d = d'" if "owns ?h d x" "owns ?h d' x" for d d' x using that links unfolding own_h links_ok_def by blast
  obtain r where r: "r < length fs" "is_root (fs ! r)" "\<forall>d. \<not> owns fs d r"
    using rooted_dir [OF root, of p] own unfolding owns_def by blast
  then have "r \<noteq> c" using own by blast
  then have "rooted ?h" using r unfolding rooted_def own_h by (intro disjI2 exI [of _ r]) (auto simp: h is_root_def)
  then show "ramfs_inv ?h" using b d l o unfolding ramfs_inv_def links_ok_def h(2) by blast
  show "\<not> owns ?h d c" "owns ?h d x \<longleftrightarrow> owns fs d x \<and> d \<noteq> c \<and> x \<noteq> c" by (simp_all add: own_h)
qed

text \<open>The root entry, when there is none: then there is no directory at all.\<close>

lemma no_root_no_dir: "rooted fs \<Longrightarrow> get_root_dir_idx fs = None \<Longrightarrow> \<not> dir_at fs d"
  unfolding get_root_None rooted_def by (metis nth_mem)

lemma ensure_root_ok:
  assumes inv: "ramfs_inv fs" and r: "ensure_root_dir fs = Some (idx, fs')"
  shows "ramfs_inv fs'" "dir_at fs' idx" "is_root (fs' ! idx)"
proof -
  have links: "links_ok fs" and bounds: "bounds_ok fs" and root: "rooted fs" using inv by (simp_all add: ramfs_inv_def)
  show "ramfs_inv fs'" "dir_at fs' idx" "is_root (fs' ! idx)"
  proof (atomize (full), cases "get_root_dir_idx fs")
    case (Some i)
    then show "ramfs_inv fs' \<and> dir_at fs' idx \<and> is_root (fs' ! idx)" using r inv get_root_Some [OF Some] by (simp add: ensure_root_dir_def)
  next
    case None
    then obtain i where i: "find_free_slot fs = Some i" "idx = i" "fs' = fs[i := root_entry]"
      using r by (auto simp: ensure_root_dir_def bind_eq_Some_conv)
    note free = find_free_slot_Some [OF i(1)]
    have f: "fe_in_use root_entry" "fe_children root_entry = []" by (simp_all add: root_entry_def)
    note fill = fill_slot [OF links free f]
    have rt: "is_root root_entry" by (simp add: is_root_def root_entry_def name_str_def str_def)
    have "rooted fs'" using free rt fill(2,3) unfolding rooted_def i(3) by (intro disjI2 exI [of _ i]) simp
    then show "ramfs_inv fs' \<and> dir_at fs' idx \<and> is_root (fs' ! idx)"
      using fill(1) bounds_update [OF bounds root_entry_ok] rt free(1) i by (simp add: ramfs_inv_def dir_at_def is_root_def)
  qed
qed

subsection \<open>The operations\<close>

definition fresh_entry :: "u8 list \<Rightarrow> file_entry" where
  "fresh_entry nm = \<lparr>fe_name = nm, fe_data = [], fe_in_use = True, fe_symlink_target = None, fe_is_dir = False,
     fe_is_fifo = False, fe_children = [], fe_fifo_buffer = None, fe_mode = DEFAULT_FILE_MODE\<rparr>"

lemma init_slot_eq:
  assumes "length fs = MAX_FILES" and "find_free_slot fs = Some slot" and "length name \<le> MAX_NAME_LEN"
  shows "init_slot fs slot name = Some (fs[slot := fresh_entry (name @ replicate (MAX_NAME_LEN - length name) 0)])"
  using assms find_free_slot_Some [OF assms(2)]
  by (simp add: init_slot_def fresh_entry_def entry_at_def put_name_def assert_p_bind)

lemma fresh_entry_ok:
  "length name \<le> MAX_NAME_LEN \<Longrightarrow> entry_ok (fresh_entry (name @ replicate (MAX_NAME_LEN - length name) 0))"
  by (simp add: fresh_entry_def entry_ok_def)

lemma new_child_ok:
  assumes inv: "ramfs_inv fs" and dir: "dir_at fs p" and name: "length name \<le> MAX_NAME_LEN"
    and f: "\<And>e. fe_in_use (f e) = fe_in_use e" "\<And>e. fe_children (f e) = fe_children e" "\<And>e. entry_ok e \<Longrightarrow> entry_ok (f e)"
  shows "\<exists>r fs'. new_child p name f fs = Some (r, fs') \<and> ramfs_inv fs'"
proof (cases "find_free_slot fs")
  case None
  then show ?thesis using inv by (simp add: new_child_def)
next
  case (Some i)
  note free = find_free_slot_Some [OF Some]
  let ?e = "fresh_entry (name @ replicate (MAX_NAME_LEN - length name) 0)"
  have len: "length fs = MAX_FILES" using inv by (simp add: ramfs_inv_def bounds_ok_def)
  have "new_child p name f fs = Some (Inr (slot_ino i), add_child (fs[i := f ?e]) p i)"
    using Some free init_slot_eq [OF len Some name] by (simp add: new_child_def edit_entry_def Let_def)
  moreover have "ramfs_inv (add_child (fs[i := f ?e]) p i)"
    using f fresh_entry_ok [OF name] by (intro new_child_inv [OF inv dir free]) (simp_all add: fresh_entry_def)
  ultimately show ?thesis by blast
qed

text \<open>\<open>expect\<close> in \<open>ensure_root_dir\<close>: it panics only without a root and without a free slot.\<close>

definition root_room :: "ramfs \<Rightarrow> bool" where
  "root_room fs \<longleftrightarrow> get_root_dir_idx fs \<noteq> None \<or> find_free_slot fs \<noteq> None"

lemma ensure_root_total: "root_room fs \<longleftrightarrow> ensure_root_dir fs \<noteq> None"
  by (cases "find_free_slot fs") (auto simp: root_room_def ensure_root_dir_def split: option.splits)

lemma parent_dir_ok:
  assumes inv: "ramfs_inv fs" and room: "p = ROOT_INO \<Longrightarrow> root_room fs"
  shows "\<exists>r fs'. parent_dir p e fs = Some (r, fs') \<and> ramfs_inv fs' \<and> (case r of Inl e' \<Rightarrow> e' = e | Inr i \<Rightarrow> dir_at fs' i)"
proof (cases "p = ROOT_INO")
  case True
  obtain i fs' where "ensure_root_dir fs = Some (i, fs')" using room [OF True] ensure_root_total by fastforce
  then show ?thesis using True ensure_root_ok [OF inv] by (auto simp: parent_dir_def)
next
  case False
  have len: "length fs = MAX_FILES" using inv by (simp add: ramfs_inv_def bounds_ok_def)
  show ?thesis
    using False inv used_dir_Some [OF _ len] by (cases "used_dir fs p") (auto simp: parent_dir_def)
qed

lemma create_ok:
  assumes inv: "ramfs_inv fs" and room: "p = ROOT_INO \<Longrightarrow> root_room fs"
  shows "\<exists>r fs'. ramfs_create p name fs = Some (r, fs') \<and> ramfs_inv fs'"
proof (cases "bad_name name")
  case True
  then show ?thesis using inv by (simp add: ramfs_create_def)
next
  case False
  obtain r g where g: "parent_dir p FsNotFound fs = Some (r, g)" "ramfs_inv g"
    "case r of Inl e' \<Rightarrow> e' = FsNotFound | Inr i \<Rightarrow> dir_at g i" using parent_dir_ok [of fs p FsNotFound, OF assms] by blast
  show ?thesis
  proof (cases r)
    case (Inl e)
    then show ?thesis using False g by (simp add: ramfs_create_def)
  next
    case (Inr i)
    then have d: "dir_at g i" using g(3) by simp
    obtain c where c: "find_child g i name = Some c" using find_child_ok [OF d] by blast
    have "length name \<le> MAX_NAME_LEN" using False by (simp add: bad_name_def)
    from new_child_ok [OF g(2) d this, of id] show ?thesis using False g c Inr by (cases c) (auto simp: ramfs_create_def)
  qed
qed

lemma mkdir_ok:
  assumes inv: "ramfs_inv fs" and room: "p = ROOT_INO \<Longrightarrow> root_room fs"
  shows "\<exists>r fs'. ramfs_mkdir p name fs = Some (r, fs') \<and> ramfs_inv fs'"
proof (cases "bad_name name")
  case True
  then show ?thesis using inv by (simp add: ramfs_mkdir_def)
next
  case False
  obtain r g where g: "parent_dir p FsNotADirectory fs = Some (r, g)" "ramfs_inv g"
    "case r of Inl e' \<Rightarrow> e' = FsNotADirectory | Inr i \<Rightarrow> dir_at g i" using parent_dir_ok [of fs p FsNotADirectory, OF assms] by blast
  show ?thesis
  proof (cases r)
    case (Inl e)
    then show ?thesis using False g by (simp add: ramfs_mkdir_def)
  next
    case (Inr i)
    then have d: "dir_at g i" using g(3) by simp
    obtain c where c: "find_child g i name = Some c" using find_child_ok [OF d] by blast
    have "length name \<le> MAX_NAME_LEN" using False by (simp add: bad_name_def)
    from new_child_ok [OF g(2) d this, of "\<lambda>f. f\<lparr>fe_is_dir := True, fe_mode := DEFAULT_DIR_MODE\<rparr>"]
    show ?thesis using False g c Inr by (cases c) (auto simp: ramfs_mkdir_def entry_ok_def)
  qed
qed

lemma symlink_ok:
  assumes inv: "ramfs_inv fs" and room: "p = ROOT_INO \<Longrightarrow> root_room fs"
  shows "\<exists>r fs'. ramfs_symlink p name target fs = Some (r, fs') \<and> ramfs_inv fs'"
proof (cases "bad_name name")
  case True
  then show ?thesis using inv by (simp add: ramfs_symlink_def)
next
  case False
  then have n: "length name \<le> MAX_NAME_LEN" by (simp add: bad_name_def)
  have new: "\<exists>r h. new_child i name (\<lambda>f. f\<lparr>fe_symlink_target := Some target\<rparr>) g = Some (r, h) \<and> ramfs_inv h"
    if "ramfs_inv g" "dir_at g i" for g i
    by (rule new_child_ok [OF that n]) (simp_all add: entry_ok_def)
  show ?thesis
  proof (cases "p = ROOT_INO")
    case True
    obtain i g where g: "ensure_root_dir fs = Some (i, g)" using room [OF True] ensure_root_total by fastforce
    show ?thesis using False True inv g new [OF ensure_root_ok(1,2) [OF inv g]] by (auto simp: ramfs_symlink_def)
  next
    case nr: False
    have len: "length fs = MAX_FILES" using inv by (simp add: ramfs_inv_def bounds_ok_def)
    show ?thesis
    proof (cases "used_dir fs p")
      case None
      then show ?thesis using False nr inv by (simp add: ramfs_symlink_def)
    next
      case (Some i)
      note d = used_dir_Some(1) [OF Some len]
      obtain c where "find_child fs i name = Some c" using find_child_ok [OF d] by blast
      then show ?thesis using False nr inv Some new [OF inv d] by (cases c) (auto simp: ramfs_symlink_def)
    qed
  qed
qed

lemma ramfs_len: "ramfs_inv fs \<Longrightarrow> length fs = MAX_FILES"
  by (simp add: ramfs_inv_def bounds_ok_def)

lemma get_root_entry:
  assumes "get_root_dir_idx (fs[i := f]) = Some r" and "\<not> is_root f" and "i < length fs"
  shows "r \<noteq> i" "dir_at fs r"
  using assms get_root_Some [OF assms(1)] by (auto simp: dir_at_def nth_list_update split: if_splits)

lemma open_create_ok:
  assumes inv: "ramfs_inv fs" and free: "find_free_slot fs = Some i" and name: "length name \<le> MAX_NAME_LEN"
  shows "\<exists>g. init_slot fs i name = Some g \<and>
    ramfs_inv (case get_root_dir_idx g of Some r \<Rightarrow> add_child g r i | None \<Rightarrow> g)"
proof -
  let ?e = "fresh_entry (name @ replicate (MAX_NAME_LEN - length name) 0)"
  let ?g = "fs[i := ?e]"
  note len = ramfs_len [OF inv] and fr = find_free_slot_Some [OF free]
  have e: "fe_in_use ?e" "fe_children ?e = []" "\<not> fe_is_dir ?e" by (simp_all add: fresh_entry_def)
  have links: "links_ok fs" and bounds: "bounds_ok fs" and root: "rooted fs" using inv by (simp_all add: ramfs_inv_def)
  note fill = fill_slot [OF links fr e(1,2)]
  have nr: "\<not> is_root ?e" using e by (simp add: is_root_def)
  have "ramfs_inv (case get_root_dir_idx ?g of Some r \<Rightarrow> add_child ?g r i | None \<Rightarrow> ?g)"
  proof (cases "get_root_dir_idx ?g")
    case (Some r)
    then show ?thesis using new_child_inv [OF inv get_root_entry(2) [OF Some nr fr(1)] fr e(1,2) fresh_entry_ok [OF name]] by simp
  next
    case None
    have "\<not> is_root (fs ! j)" if "j < length fs" for j
    proof (cases "j = i")
      case False
      then have "fs ! j \<in> set ?g" using that nth_mem [of j ?g] by simp
      then show ?thesis using None unfolding get_root_None by blast
    qed (use fr in \<open>simp add: is_root_def\<close>)
    then have "\<forall>d. \<not> dir_at fs d" using root unfolding rooted_def by blast
    then have "rooted ?g" unfolding rooted_def fill(4) using e(3) by auto
    then show ?thesis using None fill(1) bounds_update [OF bounds fresh_entry_ok [OF name]] by (simp add: ramfs_inv_def)
  qed
  then show ?thesis using init_slot_eq [OF len free name] by simp
qed

lemma unlink_in_ok:
  assumes inv: "ramfs_inv fs" and dir: "dir_at fs p"
  shows "\<exists>r fs'. unlink_in p name fs = Some (r, fs') \<and> ramfs_inv fs'"
proof -
  obtain c where c: "find_child fs p name = Some c" using find_child_ok [OF dir] by blast
  show ?thesis
    using c inv remove_child_inv(1) [OF inv find_child_Some [OF dir]] by (cases c) (simp_all add: unlink_in_def)
qed

lemma rmdir_in_ok:
  assumes inv: "ramfs_inv fs" and dir: "dir_at fs p"
  shows "\<exists>r fs'. rmdir_in p name fs = Some (r, fs') \<and> ramfs_inv fs'"
proof -
  have links: "links_ok fs" using inv by (simp add: ramfs_inv_def)
  obtain c where c: "find_child fs p name = Some c" using find_child_ok [OF dir] by blast
  show ?thesis
  proof (cases c)
    case (Some i)
    note own = find_child_Some [OF dir c [unfolded Some]]
    show ?thesis using c Some inv owns_in_use [OF links own] remove_child_inv(1) [OF inv own] by (simp add: rmdir_in_def entry_at_def)
  qed (use c inv in \<open>simp add: rmdir_in_def\<close>)
qed

lemma unlink_flat_inv:
  assumes inv: "ramfs_inv fs" and none: "get_root_dir_idx fs = None"
    and g: "\<And>f. fe_is_dir (g f) = fe_is_dir f" "\<And>f. \<not> fe_in_use (g f)" "\<And>f. entry_ok f \<Longrightarrow> entry_ok (g f)"
  shows "ramfs_inv (edit_entry fs i g)"
proof -
  have nd: "\<not> dir_at fs d" for d using no_root_no_dir [OF _ none] inv by (simp add: ramfs_inv_def)
  then have "\<not> dir_at (edit_entry fs i g) d" for d
    using nd [of d] g(2) by (cases "d = i") (auto simp: dir_at_def edit_entry_def)
  then have "links_ok (edit_entry fs i g)" "rooted (edit_entry fs i g)"
    by (auto simp: links_ok_def rooted_def owns_def)
  then show ?thesis using bounds_edit [of fs g i] g(3) inv by (simp add: ramfs_inv_def)
qed

lemma unlink_ok:
  assumes inv: "ramfs_inv fs"
  shows "\<exists>r fs'. ramfs_unlink p name fs = Some (r, fs') \<and> ramfs_inv fs'"
proof (cases "p = ROOT_INO")
  case True
  show ?thesis
  proof (cases "get_root_dir_idx fs")
    case None
    have "ramfs_inv (edit_entry fs i (\<lambda>f. f\<lparr>fe_in_use := False, fe_data := [], fe_name := replicate MAX_NAME_LEN 0,
        fe_symlink_target := None\<rparr>))" for i
      by (rule unlink_flat_inv [OF inv None]) (simp_all add: entry_ok_def)
    then show ?thesis using True None inv by (cases "find_file fs name") (simp_all add: ramfs_unlink_def)
  next
    case (Some i)
    then show ?thesis using True unlink_in_ok [OF inv get_root_Some(3) [OF Some]] by (simp add: ramfs_unlink_def)
  qed
next
  case False
  show ?thesis
    using False inv unlink_in_ok [OF inv used_dir_Some(1) [OF _ ramfs_len [OF inv]]]
    by (cases "used_dir fs p") (simp_all add: ramfs_unlink_def)
qed

lemma rmdir_ok:
  assumes inv: "ramfs_inv fs"
  shows "\<exists>r fs'. ramfs_rmdir p name fs = Some (r, fs') \<and> ramfs_inv fs'"
proof (cases "p = ROOT_INO")
  case True
  then show ?thesis
    using inv rmdir_in_ok [OF inv get_root_Some(3)] by (cases "get_root_dir_idx fs") (simp_all add: ramfs_rmdir_def)
next
  case False
  then show ?thesis
    using inv rmdir_in_ok [OF inv used_dir_Some(1) [OF _ ramfs_len [OF inv]]]
    by (cases "used_dir fs p") (simp_all add: ramfs_rmdir_def)
qed

lemma list_children_ok:
  "\<forall>n c. (n, c) \<in> set cs \<longrightarrow> c < length fs \<Longrightarrow> \<exists>es. list_children fs cs = Some es"
  by (induction cs) (auto simp: entry_at_def split: option.split)

lemma readdir_ok:
  assumes inv: "ramfs_inv fs"
  shows "\<exists>r. ramfs_readdir d fs = Some (r, fs)"
proof -
  have "\<exists>es. list_children fs (fe_children (fs ! i)) = Some es" if "dir_at fs i" for i
    using inv that by (intro list_children_ok) (auto simp: ramfs_inv_def links_ok_def)
  then show ?thesis
    using get_root_Some(3) [of fs] used_dir_Some(1) [OF _ ramfs_len [OF inv], of d]
    by (fastforce simp: ramfs_readdir_def split: option.splits)
qed

end
