(* ===== verification/Ramfs_Props.thy ===== *)
theory Ramfs_Props
  imports Ramfs_Inv
begin

text \<open>
  The properties of the in-memory file system. The operations of the trait are the steps of a component whose
  invariant is \<open>ramfs_inv\<close>; the calls that panic are characterised exactly. What the
  system calls rely on of a file system is shown of this one in \<open>Syscall_File_Props\<close>.
\<close>

datatype ramfs_op =
    R_open rstr open_flags | R_close u64 | R_read u64 u64 "u8 list" | R_write u64 u64 "u8 list" | R_stat u64
  | R_readdir u64 | R_create u64 rstr | R_unlink u64 rstr | R_symlink u64 rstr rstr | R_readlink u64 "u8 list"
  | R_mkdir u64 rstr | R_rmdir u64 rstr | R_chmod u64 u16

fun ramfs_step :: "ramfs \<Rightarrow> ramfs_op \<Rightarrow> ramfs panics" where
  "ramfs_step fs (R_open path flags) = map_option snd (fo_open ramfs_vfs path flags fs)"
| "ramfs_step fs (R_close ino) = map_option snd (fo_close ramfs_vfs ino fs)"
| "ramfs_step fs (R_read ino off buf) = map_option snd (fo_read ramfs_vfs ino off buf fs)"
| "ramfs_step fs (R_write ino off data) = map_option snd (fo_write ramfs_vfs ino off data fs)"
| "ramfs_step fs (R_stat ino) = map_option snd (fo_stat ramfs_vfs ino fs)"
| "ramfs_step fs (R_readdir ino) = map_option snd (fo_readdir ramfs_vfs ino fs)"
| "ramfs_step fs (R_create p name) = map_option snd (fo_create ramfs_vfs p name fs)"
| "ramfs_step fs (R_unlink p name) = map_option snd (fo_unlink ramfs_vfs p name fs)"
| "ramfs_step fs (R_symlink p name target) = map_option snd (fo_symlink ramfs_vfs p name target fs)"
| "ramfs_step fs (R_readlink ino buf) = map_option snd (fo_readlink ramfs_vfs ino buf fs)"
| "ramfs_step fs (R_mkdir p name) = map_option snd (fo_mkdir ramfs_vfs p name fs)"
| "ramfs_step fs (R_rmdir p name) = map_option snd (fo_rmdir ramfs_vfs p name fs)"
| "ramfs_step fs (R_chmod ino mode) = map_option snd (fo_chmod ramfs_vfs ino mode fs)"

text \<open>The calls that panic: the first use of the root in a full table, a new name that does not fit its field, and a
  write whose end overflows.\<close>

fun ramfs_panics :: "ramfs \<Rightarrow> ramfs_op \<Rightarrow> bool" where
  "ramfs_panics fs (R_open path flags) =
     (let name = trim_start path in
      if name = [] then \<not> root_room fs
      else find_file fs name = None \<and> of_contains flags OF_CREATE \<and> find_free_slot fs \<noteq> None \<and> length name > MAX_NAME_LEN)"
| "ramfs_panics fs (R_write ino off data) =
     (ino \<noteq> ROOT_INO \<and> used_slot fs ino \<noteq> None \<and> unat off + length data \<ge> 2 ^ 64)"
| "ramfs_panics fs (R_create p name) = (\<not> bad_name name \<and> p = ROOT_INO \<and> \<not> root_room fs)"
| "ramfs_panics fs (R_mkdir p name) = (\<not> bad_name name \<and> p = ROOT_INO \<and> \<not> root_room fs)"
| "ramfs_panics fs (R_symlink p name target) =
     (\<not> bad_name name \<and> p = ROOT_INO \<and> find_file fs name = None \<and> \<not> root_room fs)"
| "ramfs_panics fs _ = False"

lemmas ramfs_vfs_simps [simp] = ramfs_vfs_def

lemma no_room: "\<not> root_room fs \<Longrightarrow> ensure_root_dir fs = None"
  using ensure_root_total [of fs] by blast

lemma step_panics: "ramfs_panics fs opn \<Longrightarrow> ramfs_step fs opn = None"
proof (cases opn)
  case (R_open path flags)
  assume p: "ramfs_panics fs opn"
  show ?thesis
  proof (cases "trim_start path = []")
    case True
    then show ?thesis using p R_open no_room by (simp add: ramfs_open_def)
  next
    case False
    then obtain i where i: "find_free_slot fs = Some i" using p R_open by (auto simp: Let_def)
    have "put_name (trim_start path) = None" using p R_open False by (simp add: put_name_def Let_def)
    then have "init_slot fs i (trim_start path) = None"
      by (auto simp: init_slot_def assert_p_bind bind_eq_None_conv)
    then show ?thesis using p R_open False i by (simp add: ramfs_open_def Let_def)
  qed
qed (auto simp: ramfs_write_def ramfs_create_def ramfs_mkdir_def ramfs_symlink_def parent_dir_def no_room)

lemma open_ok:
  assumes inv: "ramfs_inv fs" and np: "\<not> ramfs_panics fs (R_open path flags)"
  shows "\<exists>r fs'. ramfs_open path flags fs = Some (r, fs') \<and> ramfs_inv fs'"
proof (cases "trim_start path = []")
  case True
  then obtain i g where g: "ensure_root_dir fs = Some (i, g)" using np ensure_root_total [of fs] by fastforce
  then show ?thesis using True ensure_root_ok(1) [OF inv g] by (simp add: ramfs_open_def)
next
  case ne: False
  let ?n = "trim_start path"
  show ?thesis
  proof (cases "find_file fs ?n")
    case (Some i)
    have "ramfs_inv (edit_entry fs i (\<lambda>f. f\<lparr>fe_data := []\<rparr>))" by (rule edit_inv [OF inv]) (simp_all add: entry_ok_def)
    then show ?thesis using Some ne inv by (simp add: ramfs_open_def)
  next
    case None
    then have "of_contains flags OF_CREATE \<Longrightarrow> find_free_slot fs = Some i \<Longrightarrow> length ?n \<le> MAX_NAME_LEN" for i
      using np ne by (simp add: Let_def)
    from open_create_ok [OF inv _ this] show ?thesis
      using None ne inv by (cases "find_free_slot fs") (fastforce simp: ramfs_open_def Let_def)+
  qed
qed

lemma write_ok:
  assumes inv: "ramfs_inv fs" and np: "\<not> ramfs_panics fs (R_write ino off data)"
  shows "\<exists>r fs'. ramfs_write ino off data fs = Some (r, fs') \<and> ramfs_inv fs'"
proof -
  have "ramfs_inv (edit_entry fs i (\<lambda>f. f\<lparr>fe_data := splice (unat off) data (grow (unat off + length data) (fe_data f))\<rparr>))"
    if "unat off + length data \<le> MAX_FILE_SIZE" for i
    by (rule edit_inv [OF inv]) (use that in \<open>simp_all add: entry_ok_def length_splice_grow\<close>)
  then show ?thesis using inv np by (auto simp: ramfs_write_def Let_def split: option.split)
qed

lemma chmod_ok:
  assumes inv: "ramfs_inv fs"
  shows "\<exists>r fs'. ramfs_chmod ino mode fs = Some (r, fs') \<and> ramfs_inv fs'"
proof -
  have "ramfs_inv (edit_entry fs i (\<lambda>f. f\<lparr>fe_mode := mode AND 0xFFF\<rparr>))" for i
    by (rule edit_inv [OF inv]) (simp_all add: entry_ok_def)
  then show ?thesis using inv by (simp add: ramfs_chmod_def split: option.split)
qed

lemma read_total: "\<exists>r. ramfs_read ino off buf fs = Some (r, fs)"
  by (simp add: ramfs_read_def Let_def split: option.split)

lemma stat_total: "\<exists>r. ramfs_stat ino fs = Some (r, fs)"
  by (simp add: ramfs_stat_def Let_def split: option.split)

lemma readlink_total: "\<exists>r. ramfs_readlink ino buf fs = Some (r, fs)"
  by (simp add: ramfs_readlink_def Let_def split: option.split)

lemma create_not_panics:
  "ramfs_inv fs \<Longrightarrow> \<not> ramfs_panics fs (R_create p name) \<Longrightarrow> \<exists>r fs'. ramfs_create p name fs = Some (r, fs') \<and> ramfs_inv fs'"
  using create_ok [of fs p name] by (cases "bad_name name") (simp_all add: ramfs_create_def)

lemma mkdir_not_panics:
  "ramfs_inv fs \<Longrightarrow> \<not> ramfs_panics fs (R_mkdir p name) \<Longrightarrow> \<exists>r fs'. ramfs_mkdir p name fs = Some (r, fs') \<and> ramfs_inv fs'"
  using mkdir_ok [of fs p name] by (cases "bad_name name") (simp_all add: ramfs_mkdir_def)

lemma symlink_not_panics:
  "ramfs_inv fs \<Longrightarrow> \<not> ramfs_panics fs (R_symlink p name target) \<Longrightarrow>
   \<exists>r fs'. ramfs_symlink p name target fs = Some (r, fs') \<and> ramfs_inv fs'"
  using symlink_ok [of fs p name target]
  by (cases "bad_name name"; cases "find_file fs name"; cases "p = ROOT_INO") (simp_all add: ramfs_symlink_def)

lemma step_ok:
  assumes inv: "ramfs_inv fs" and np: "\<not> ramfs_panics fs opn"
  shows "\<exists>fs'. ramfs_step fs opn = Some fs' \<and> ramfs_inv fs'"
  using np
proof (induction opn)
  case (R_open path flags)
  then show ?case using open_ok [OF inv R_open] by auto
next
  case (R_write ino off data)
  then show ?case using write_ok [OF inv R_write] by auto
next
  case (R_create p name)
  then show ?case using create_not_panics [OF inv R_create] by auto
next
  case (R_mkdir p name)
  then show ?case using mkdir_not_panics [OF inv R_mkdir] by auto
next
  case (R_symlink p name target)
  then show ?case using symlink_not_panics [OF inv R_symlink] by auto
next
  case (R_unlink p name)
  then show ?case using unlink_ok [OF inv, of p name] by auto
next
  case (R_rmdir p name)
  then show ?case using rmdir_ok [OF inv, of p name] by auto
next
  case (R_chmod ino mode)
  then show ?case using chmod_ok [OF inv, of ino mode] by auto
next
  case (R_readdir ino)
  then show ?case using readdir_ok [OF inv, of ino] inv by auto
next
  case (R_read ino off buf)
  then show ?case using read_total [of ino off buf fs] inv by auto
next
  case (R_stat ino)
  then show ?case using stat_total [of ino fs] inv by auto
next
  case (R_readlink ino buf)
  then show ?case using readlink_total [of ino buf fs] inv by auto
next
  case (R_close ino)
  then show ?case using inv by (simp add: ramfs_close_def)
qed

interpretation rfs: component ramfs_step ramfs_inv
  using step_ok step_panics by unfold_locales (metis option.inject option.distinct(1))

subsection \<open>Contents of files\<close>

text \<open>The bytes of the file with a given inode number.\<close>

definition file_bytes :: "ramfs \<Rightarrow> u64 \<Rightarrow> u8 list option" where
  "file_bytes fs ino = (if ino = ROOT_INO then None else map_option (\<lambda>i. fe_data (fs ! i)) (used_slot fs ino))"

text \<open>What a write of \<open>data\<close> at \<open>off\<close> makes of a file: the data in its place, zeros in a gap before it.\<close>

definition overwrite :: "nat \<Rightarrow> u8 list \<Rightarrow> u8 list \<Rightarrow> u8 list" where
  "overwrite off data xs = map (\<lambda>j. if off \<le> j \<and> j < off + length data then data ! (j - off) else if j < length xs then xs ! j else 0)
     [0..<max (length xs) (off + length data)]"

lemma splice_grow_overwrite: "splice off data (grow (off + length data) xs) = overwrite off data xs"
proof (rule nth_equalityI)
  show len: "length (splice off data (grow (off + length data) xs)) = length (overwrite off data xs)"
    by (simp add: length_splice_grow overwrite_def)
  fix j assume "j < length (splice off data (grow (off + length data) xs))"
  then have j: "j < max (length xs) (off + length data)" by (simp add: length_splice_grow)
  have g: "grow (off + length data) xs ! j = (if j < length xs then xs ! j else 0)" using j by (auto simp: grow_def nth_append)
  have l: "length (grow (off + length data) xs) = max (length xs) (off + length data)" by (auto simp: grow_def)
  consider "j < off" | "off \<le> j" "j < off + length data" | "off + length data \<le> j" by linarith
  then show "splice off data (grow (off + length data) xs) ! j = overwrite off data xs ! j"
    using j l g by cases (auto simp: splice_def overwrite_def nth_append min_def)
qed

lemma file_bytes_read:
  assumes "file_bytes fs ino = Some bs"
  shows "ramfs_read ino off buf fs =
    (let n = min (length buf) (length bs - unat off) in Some (Inr (n, take n (drop (unat off) bs) @ drop n buf), fs))"
proof -
  obtain i where i: "used_slot fs ino = Some i" "bs = fe_data (fs ! i)" "ino \<noteq> ROOT_INO"
    using assms by (auto simp: file_bytes_def split: if_splits)
  show ?thesis
  proof (cases "unat off \<ge> length bs")
    case True
    then show ?thesis using i by (simp add: ramfs_read_def Let_def)
  next
    case False
    then show ?thesis using i by (simp add: ramfs_read_def Let_def)
  qed
qed

lemma file_bytes_write:
  assumes len: "length fs = MAX_FILES" and b: "file_bytes fs ino = Some bs" and room: "unat off + length data \<le> MAX_FILE_SIZE"
  shows "\<exists>fs'. ramfs_write ino off data fs = Some (Inr (length data), fs') \<and> length fs' = MAX_FILES \<and>
    file_bytes fs' = (file_bytes fs)(ino \<mapsto> overwrite (unat off) data bs)"
proof -
  obtain i where i: "used_slot fs ino = Some i" "bs = fe_data (fs ! i)" "ino \<noteq> ROOT_INO"
    using b by (auto simp: file_bytes_def split: if_splits)
  note u = used_slot_Some [OF i(1) len]
  let ?f = "edit_entry fs i (\<lambda>f. f\<lparr>fe_data := overwrite (unat off) data (fe_data f)\<rparr>)"
  have w: "ramfs_write ino off data fs = Some (Inr (length data), ?f)"
    using i room by (simp add: ramfs_write_def Let_def MAX_FILE_SIZE_def splice_grow_overwrite)
  have nth: "?f ! j = (if j = i then (fs ! i)\<lparr>fe_data := overwrite (unat off) data bs\<rparr> else fs ! j)" for j
    using u(1) i(2) by (simp add: edit_entry_def)
  then have use: "fe_in_use (?f ! j) = fe_in_use (fs ! j)" for j by simp
  have same: "used_slot ?f x = used_slot fs x" for x by (simp add: used_slot_def use)
  have diff: "used_slot fs x \<noteq> Some i" if "x \<noteq> ino" for x
  proof
    assume "used_slot fs x = Some i"
    then have "unat (x - FILE_INO_OFFSET) = unat (ino - FILE_INO_OFFSET)" using used_slot_Some(3) [OF _ len] i(1) by metis
    then have "x - FILE_INO_OFFSET = ino - FILE_INO_OFFSET" by (simp add: word_unat_eq_iff)
    then show False using that by simp
  qed
  have "file_bytes ?f x = ((file_bytes fs)(ino \<mapsto> overwrite (unat off) data bs)) x" for x
  proof (cases "x = ino")
    case True
    then show ?thesis using i by (simp add: file_bytes_def same nth)
  next
    case False
    then show ?thesis using diff [OF False] by (cases "used_slot fs x") (auto simp: file_bytes_def same nth)
  qed
  moreover have "length ?f = MAX_FILES" using len by (simp add: edit_entry_def)
  ultimately show ?thesis using w by blast
qed

lemma length_overwrite [simp]: "length (overwrite off data xs) = max (length xs) (off + length data)"
  by (simp add: overwrite_def)

lemma overwrite_read: "take (length data) (drop off (overwrite off data xs)) = data"
  by (rule nth_equalityI) (auto simp: overwrite_def)

subsection \<open>Directory listings\<close>

definition dir_slot :: "ramfs \<Rightarrow> u64 \<Rightarrow> nat option" where
  "dir_slot fs p = (if p = ROOT_INO then get_root_dir_idx fs else used_dir fs p)"

lemma dir_slot_dir: "ramfs_inv fs \<Longrightarrow> dir_slot fs p = Some d \<Longrightarrow> dir_at fs d"
  using get_root_Some(3) [of fs d] used_dir_Some(1) [of fs p d] ramfs_len [of fs] by (simp add: dir_slot_def split: if_splits)

lemma position_cong: "map p xs = map p ys \<Longrightarrow> position p xs = position p ys"
proof (induction xs arbitrary: ys)
  case (Cons x xs)
  then show ?case by (cases ys) auto
qed simp

lemma get_root_is_root: "get_root_dir_idx fs = position is_root fs"
  by (simp add: get_root_dir_idx_def is_root_def [abs_def])

lemma dir_slot_cong:
  assumes "length g = length fs" and "\<And>j. j < length fs \<Longrightarrow> fe_in_use (g ! j) \<and> fe_is_dir (g ! j) \<longleftrightarrow> fe_in_use (fs ! j) \<and> fe_is_dir (fs ! j)"
    and "\<And>j. j < length fs \<Longrightarrow> is_root (g ! j) = is_root (fs ! j)" and "length fs = MAX_FILES"
  shows "dir_slot g p = dir_slot fs p"
proof -
  have "map is_root g = map is_root fs" using assms(1,3) by (intro nth_equalityI) simp_all
  then have "get_root_dir_idx g = get_root_dir_idx fs" unfolding get_root_is_root by (rule position_cong)
  moreover have "used_dir g p = used_dir fs p" using assms(2) [of "unat (p - FILE_INO_OFFSET)"] assms(4) by (auto simp: used_dir_def Let_def)
  ultimately show ?thesis by (simp add: dir_slot_def)
qed

lemma readdir_slot:
  assumes "dir_slot fs p = Some d"
  shows "ramfs_readdir p fs = map_option (\<lambda>es. (Inr (dot_entries p p @ es), fs)) (list_children fs (fe_children (fs ! d)))"
  using assms by (cases "list_children fs (fe_children (fs ! d))") (auto simp: ramfs_readdir_def dir_slot_def split: if_splits)

lemma list_children_cong:
  assumes "length g = length fs" and "\<And>n c. (n, c) \<in> set cs \<Longrightarrow> fe_in_use (g ! c) = fe_in_use (fs ! c) \<and> fe_is_dir (g ! c) = fe_is_dir (fs ! c)"
  shows "list_children g cs = list_children fs cs"
  using assms(2)
proof (induction cs)
  case (Cons x cs)
  obtain n c where x: "x = (n, c)" by (cases x)
  have "list_children g cs = list_children fs cs" by (rule Cons.IH) (use Cons.prems in auto)
  then show ?case using Cons.prems [of n c] assms(1)
    by (cases "list_children fs cs") (simp_all add: x entry_at_def split: option.split)
qed simp

lemma list_children_append:
  "list_children fs (as @ bs) = do { xs \<leftarrow> list_children fs as; ys \<leftarrow> list_children fs bs; Some (xs @ ys) }"
proof (induction as)
  case Nil
  show ?case by (cases "list_children fs bs") simp_all
next
  case (Cons x as)
  obtain n c where x: "x = (n, c)" by (cases x)
  show ?case
    by (cases "name_str n"; cases "entry_at fs c"; cases "list_children fs as"; cases "list_children fs bs")
      (simp_all add: x Cons)
qed

lemma takeWhile_pad: "0 \<notin> set name \<Longrightarrow> takeWhile (\<lambda>b. b \<noteq> 0) (name @ replicate k 0) = name" for name :: "u8 list"
  by (induction name) (auto simp: takeWhile_eq_Nil_iff)

lemma name_str_pad: "0 \<notin> set name \<Longrightarrow> utf8_ok name \<Longrightarrow> name_str (name @ replicate k 0) = Some name"
  by (simp add: name_str_def takeWhile_pad)

text \<open>A file created in a directory that exists.\<close>

lemma create_eq:
  assumes inv: "ramfs_inv fs" and d: "dir_slot fs p = Some d" and name: "\<not> bad_name name"
    and new: "find_child fs d name = Some None" and i: "find_free_slot fs = Some i"
  shows "ramfs_create p name fs =
    Some (Inr (slot_ino i), add_child (fs[i := fresh_entry (name @ replicate (MAX_NAME_LEN - length name) 0)]) d i)"
proof -
  have n: "length name \<le> MAX_NAME_LEN" using name by (simp add: bad_name_def)
  have "parent_dir p FsNotFound fs = Some (Inr d, fs)"
    using d by (auto simp: parent_dir_def dir_slot_def ensure_root_dir_def split: if_splits)
  then show ?thesis
    using name new i init_slot_eq [OF ramfs_len [OF inv] i n] find_free_slot_Some(1) [OF i]
    by (simp add: ramfs_create_def new_child_def edit_entry_def Let_def)
qed

lemma find_child_None:
  assumes "dir_at fs d" and "find_child fs d name = Some None"
  shows "find (\<lambda>(cn, ci). name_str cn = Some name) (fe_children (fs ! d)) = None"
  using assms by (simp add: find_child_def entry_at_def dir_at_def)

lemma find_append_None: "find p xs = None \<Longrightarrow> find p (xs @ ys) = find p ys"
  by (induction xs) (simp_all split: if_splits)

text \<open>The two states of a round trip: after the creation, and after the removal of what was created.\<close>

lemma create_unlink:
  assumes inv: "ramfs_inv fs" and d: "dir_slot fs p = Some d" and name: "\<not> bad_name name" "0 \<notin> set name" "utf8_ok name"
    and new: "find_child fs d name = Some None" and i: "find_free_slot fs = Some i"
    and es: "ramfs_readdir p fs = Some (Inr es, fs)"
  shows "\<exists>fs1 fs2. ramfs_create p name fs = Some (Inr (slot_ino i), fs1)
    \<and> ramfs_readdir p fs1 = Some (Inr (es @ [\<lparr>de_name = name, de_ino = slot_ino i, de_is_dir = False\<rparr>]), fs1)
    \<and> file_bytes fs1 (slot_ino i) = Some []
    \<and> ramfs_unlink p name fs1 = Some (Inr (), fs2) \<and> ramfs_readdir p fs2 = Some (Inr es, fs2)
    \<and> file_bytes fs2 (slot_ino i) = None"
proof -
  let ?nm = "name @ replicate (MAX_NAME_LEN - length name) 0"
  define e where "e = fresh_entry ?nm"
  have e: "fe_in_use e" "\<not> fe_is_dir e" "fe_children e = []" "fe_name e = ?nm" "fe_data e = []" by (simp_all add: e_def fresh_entry_def)
  let ?f1 = "add_child (fs[i := e]) d i" and ?cs = "fe_children (fs ! d)"
  let ?f2 = "remove_child d i ?f1"
  note dir = dir_slot_dir [OF inv d] and len = ramfs_len [OF inv] and free = find_free_slot_Some [OF i]
  have links: "links_ok fs" using inv by (simp add: ramfs_inv_def)
  have di: "d \<noteq> i" "d < length fs" using dir free by (auto simp: dir_at_def)
  have notin: "i \<notin> snd ` set ?cs"
    using fill_slot(3) [OF links free e(1,3), of d] dir by (simp add: owns_def)
  have h1: "?f1 ! j = (if j = d then (fs ! d)\<lparr>fe_children := ?cs @ [(?nm, i)]\<rparr> else if j = i then e else fs ! j)"
    "length ?f1 = length fs" for j
    using di free by (auto simp: add_child_def edit_entry_def e(4))
  have filt: "filter (\<lambda>(_, ci). ci \<noteq> i) (?cs @ [(?nm, i)]) = ?cs"
    using notin by (force simp: filter_id_conv)
  have h2: "?f2 ! j = (if j = i then empty_entry else fs ! j)" "length ?f2 = length fs" for j
    using di free filt by (auto simp: remove_child_def clear_slot_def drop_child_def edit_entry_def h1(2) nth_list_update len h1(1))
  have s1: "dir_slot ?f1 p = Some d" unfolding d [symmetric]
    by (rule dir_slot_cong [OF h1(2)]) (use len di free in \<open>auto simp: h1(1) e is_root_def\<close>)
  have s2: "dir_slot ?f2 p = Some d" unfolding d [symmetric]
    by (rule dir_slot_cong [OF h2(2)]) (use len free in \<open>auto simp: h2(1) empty_entry_def is_root_def\<close>)
  obtain xs where xs: "list_children fs ?cs = Some xs" "es = dot_entries p p @ xs"
    using es unfolding readdir_slot [OF d] by (cases "list_children fs ?cs") auto
  have l1: "list_children ?f1 ?cs = Some xs" unfolding xs(1) [symmetric]
    by (rule list_children_cong [OF h1(2)]) (use notin in \<open>force simp: h1(1)\<close>)
  have l2: "list_children ?f2 ?cs = Some xs" unfolding xs(1) [symmetric]
    by (rule list_children_cong [OF h2(2)]) (use notin in \<open>force simp: h2(1)\<close>)
  have nm: "name_str ?nm = Some name" by (rule name_str_pad [OF name(2,3)])
  have r1: "ramfs_readdir p ?f1 = Some (Inr (es @ [\<lparr>de_name = name, de_ino = slot_ino i, de_is_dir = False\<rparr>]), ?f1)"
    using l1 nm free di by (simp add: readdir_slot [OF s1] h1 list_children_append xs(2) entry_at_def e)
  have r2: "ramfs_readdir p ?f2 = Some (Inr es, ?f2)" using l2 di by (simp add: readdir_slot [OF s2] h2 xs(2))
  have "find_child ?f1 d name = Some (Some i)"
    using find_append_None [OF find_child_None [OF dir new], of "[(?nm, i)]"] dir nm
    by (simp add: find_child_def entry_at_def h1 dir_at_def)
  then have u: "ramfs_unlink p name ?f1 = Some (Inr (), ?f2)"
    using s1 by (auto simp: ramfs_unlink_def dir_slot_def unlink_in_def split: if_splits)
  have im: "i < MAX_FILES" using free len by simp
  have b: "file_bytes ?f1 (slot_ino i) = Some []" "file_bytes ?f2 (slot_ino i) = None"
    using di slot_ino_nz [OF im] by (simp_all add: file_bytes_def used_slot_ino [OF im] h1(1) h2(1) e empty_entry_def)
  show ?thesis using create_eq [OF inv d name(1) new i, folded e_def] r1 r2 u b by blast
qed

subsection \<open>Properties\<close>

text \<open>The file system after its root directory was first used.\<close>

definition ramfs_rooted :: ramfs where
  "ramfs_rooted = ramfs_new[0 := root_entry]"

lemma ramfs_rooted_root: "ensure_root_dir ramfs_new = Some (0, ramfs_rooted)"
proof -
  have "get_root_dir_idx ramfs_new = None" by (auto simp: get_root_None ramfs_new_def is_root_def empty_entry_def)
  moreover have "find_free_slot ramfs_new = Some 0"
    by (simp add: find_free_slot_def ramfs_new_def MAX_FILES_def empty_entry_def numeral_eq_Suc)
  ultimately show ?thesis by (simp add: ensure_root_dir_def ramfs_rooted_def)
qed

lemma ramfs_rooted_inv: "ramfs_inv ramfs_rooted"
  by (rule ensure_root_ok(1) [OF ramfs_inv_new ramfs_rooted_root])

lemma ramfs_rooted_facts:
  "dir_slot ramfs_rooted 0 = Some 0" "find_free_slot ramfs_rooted = Some 1" "fe_children (ramfs_rooted ! 0) = []"
  "find_child ramfs_rooted 0 name = Some None" "ramfs_readdir 0 ramfs_rooted = Some (Inr (dot_entries 0 0), ramfs_rooted)"
proof -
  have l: "ramfs_rooted = root_entry # empty_entry # replicate 30 empty_entry"
    by (simp add: ramfs_rooted_def ramfs_new_def MAX_FILES_def numeral_eq_Suc)
  have r: "is_root root_entry" by (simp add: is_root_def root_entry_def name_str_def str_def)
  show d: "dir_slot ramfs_rooted 0 = Some 0" by (simp add: dir_slot_def ROOT_INO_def get_root_is_root l r)
  show "find_free_slot ramfs_rooted = Some 1" by (simp add: find_free_slot_def l root_entry_def empty_entry_def)
  show c: "fe_children (ramfs_rooted ! 0) = []" by (simp add: l root_entry_def)
  show "find_child ramfs_rooted 0 name = Some None" by (simp add: find_child_def entry_at_def l root_entry_def)
  show "ramfs_readdir 0 ramfs_rooted = Some (Inr (dot_entries 0 0), ramfs_rooted)" by (simp add: readdir_slot [OF d] c)
qed



text \<open>C22: A write to a file stores the data: a read at the same offset returns it, the bytes before and after are as
  they were, a gap beyond the old end reads as zeros, and no other file changes.\<close>

theorem ramfs_write_read:
  assumes "ramfs_inv fs" and "file_bytes fs ino = Some bs" and "unat off + length data \<le> MAX_FILE_SIZE"
  shows "\<exists>fs'. ramfs_write ino off data fs = Some (Inr (length data), fs') \<and> ramfs_inv fs'
    \<and> file_bytes fs' = (file_bytes fs)(ino \<mapsto> overwrite (unat off) data bs)
    \<and> ramfs_read ino off (replicate (length data) 0) fs' = Some (Inr (length data, data), fs')"
proof -
  obtain fs' where w: "ramfs_write ino off data fs = Some (Inr (length data), fs')"
    and b: "file_bytes fs' = (file_bytes fs)(ino \<mapsto> overwrite (unat off) data bs)"
    using file_bytes_write [OF ramfs_len [OF assms(1)] assms(2,3)] by blast
  have "\<not> ramfs_panics fs (R_write ino off data)" using assms(3) by (simp add: MAX_FILE_SIZE_def)
  then have inv: "ramfs_inv fs'" using write_ok [OF assms(1), of ino off data] w by simp
  have "file_bytes fs' ino = Some (overwrite (unat off) data bs)" using b by simp
  from file_bytes_read [OF this, of off "replicate (length data) 0"]
  have "ramfs_read ino off (replicate (length data) 0) fs' = Some (Inr (length data, data), fs')"
    using overwrite_read [of data "unat off" bs] by (simp add: Let_def)
  then show ?thesis using w inv b by blast
qed

theorem ramfs_write_read_witness:
  "\<exists>fs0 fs. ramfs_create 0 (str ''a'') ramfs_rooted = Some (Inr (slot_ino 1), fs0)
     \<and> ramfs_write (slot_ino 1) 3 (str ''xyz'') fs0 = Some (Inr 3, fs) \<and> file_bytes fs (slot_ino 1) = Some ([0, 0, 0] @ str ''xyz'')"
proof -
  have name: "\<not> bad_name (str ''a'')" "0 \<notin> set (str ''a'')" "utf8_ok (str ''a'')"
    by (simp_all add: bad_name_def MAX_NAME_LEN_def str_def)
  obtain fs0 where c: "ramfs_create 0 (str ''a'') ramfs_rooted = Some (Inr (slot_ino 1), fs0)" "file_bytes fs0 (slot_ino 1) = Some []"
    using create_unlink [OF ramfs_rooted_inv ramfs_rooted_facts(1) name ramfs_rooted_facts(4,2,5)] by blast
  have "\<not> ramfs_panics ramfs_rooted (R_create 0 (str ''a''))" by (simp add: root_room_def ramfs_rooted_facts)
  then have inv: "ramfs_inv fs0" using create_not_panics [OF ramfs_rooted_inv] c(1) by fastforce
  have r: "unat (3 :: u64) + length (str ''xyz'') \<le> MAX_FILE_SIZE" by (simp add: MAX_FILE_SIZE_def str_def)
  have "overwrite (unat (3 :: u64)) (str ''xyz'') [] = [0, 0, 0] @ str ''xyz''"
    by (simp add: overwrite_def str_def upt_rec)
  then show ?thesis using ramfs_write_read [OF inv c(2) r] c(1) by (auto simp: str_def)
qed

text \<open>C30: In an existing directory, creating a file under a new name adds exactly that entry at the end of the listing, with
  an empty file behind it, and unlinking it gives back the listing before, with no file behind the inode number.\<close>

theorem ramfs_create_unlink:
  assumes "ramfs_inv fs" and "dir_slot fs p = Some d" and "\<not> bad_name name" and "0 \<notin> set name" and "utf8_ok name"
    and "find_child fs d name = Some None" and "find_free_slot fs = Some i" and "ramfs_readdir p fs = Some (Inr es, fs)"
  shows "\<exists>fs1 fs2. ramfs_create p name fs = Some (Inr (slot_ino i), fs1)
    \<and> ramfs_readdir p fs1 = Some (Inr (es @ [\<lparr>de_name = name, de_ino = slot_ino i, de_is_dir = False\<rparr>]), fs1)
    \<and> file_bytes fs1 (slot_ino i) = Some []
    \<and> ramfs_unlink p name fs1 = Some (Inr (), fs2) \<and> ramfs_readdir p fs2 = Some (Inr es, fs2)
    \<and> file_bytes fs2 (slot_ino i) = None"
  by (rule create_unlink [OF assms])

theorem ramfs_create_unlink_witness:
  "\<exists>fs1. ramfs_create 0 (str ''a'') ramfs_rooted = Some (Inr (slot_ino 1), fs1)
     \<and> ramfs_readdir 0 fs1 = Some (Inr (dot_entries 0 0 @ [\<lparr>de_name = str ''a'', de_ino = slot_ino 1, de_is_dir = False\<rparr>]), fs1)"
proof -
  have name: "\<not> bad_name (str ''a'')" "0 \<notin> set (str ''a'')" "utf8_ok (str ''a'')"
    by (simp_all add: bad_name_def MAX_NAME_LEN_def str_def)
  show ?thesis
    using ramfs_create_unlink [OF ramfs_rooted_inv ramfs_rooted_facts(1) name ramfs_rooted_facts(4,2,5)] by blast
qed

text \<open>A file created in a subdirectory is not found by its path and is found by its bare name in the root: \<open>open\<close> compares
  the whole path with the entry names of all directories.\<close>

theorem ramfs_open_ignores_directories:
  "do {
     (d, fs) \<leftarrow> ramfs_mkdir 0 (str ''d'') ramfs_rooted;
     (f, fs) \<leftarrow> ramfs_create 2 (str ''f'') fs;
     (by_path, _) \<leftarrow> ramfs_open (str ''/d/f'') OF_READ fs;
     (by_name, _) \<leftarrow> ramfs_open (str ''/f'') OF_READ fs;
     Some (d, f, by_path, by_name) } = Some (Inr 2, Inr 3, Inl FsNotFound, Inr 3)"
  by code_simp

end
