(* ===== verification/Syscall_Props.thy ===== *)
theory Syscall_Props
  imports Syscall_Safe Ramfs_Props Sched_Props
begin

text \<open>
  The properties of the system-call layer that hold for all calls, and those of the calls on tasks, signals, descriptors
  and files.
\<close>

lemma safe_snd: "safe k m \<Longrightarrow> map_option snd m = Some k' \<Longrightarrow> good k k'"
  by (auto simp: safe_def)

lemma task_call_good:
  assumes cpu: "cpu < MAX_CPUS" and id: "sc_next_id (k_sched k) \<noteq> - 1" and r: "handle_task_call cpu ctx k c = Some k'"
  shows "good k k'"
  using r
  by (cases c) (simp_all only: handle_task_call.simps simp_thms, (erule safe_snd [OF sys_process_create_safe [OF cpu id]]
    safe_snd [OF sys_process_exit_safe [OF cpu]]
    safe_snd [OF sys_thread_create_safe [OF id]]
    safe_snd [OF sys_thread_exit_safe [OF cpu]]
    safe_snd [OF sys_thread_yield_safe [OF cpu]]
    safe_snd [OF sys_sched_yield_safe [OF cpu]]
    safe_snd [OF sys_setpgid_safe [OF cpu]]
    safe_snd [OF sys_setsid_safe [OF cpu]]
    safe_snd [OF sys_list_tasks_safe])+)

lemma fd_call_good:
  assumes cpu: "cpu < MAX_CPUS" and r: "handle_fd_call cpu ctx k c = Some k'"
  shows "good k k'"
  using r
  by (cases c) (simp_all only: handle_fd_call.simps sys_dup3_def simp_thms, (erule safe_snd [OF sys_dup2_safe [OF cpu]]
    safe_snd [OF sys_epoll_create_safe [OF cpu]]
    safe_snd [OF sys_pipe_safe [OF cpu]]
    safe_snd [OF sys_env_get_safe]
    safe_snd [OF sys_env_set_safe [OF cpu]]
    safe_snd [OF sys_getcwd_safe]
    safe_snd [OF sys_umask_safe [OF cpu]]
    safe_snd [OF sys_flock_safe]
    safe_snd [OF sys_ioctl_safe]
    safe_snd [OF sys_getrusage_safe]
    safe_snd [OF sys_prlimit_safe])+)

lemma file_call_good:
  assumes cpu: "cpu < MAX_CPUS" and r: "handle_file_call cpu ctx k c = Some k'"
  shows "good k k'"
  using r
  by (cases c) (simp_all only: handle_file_call.simps simp_thms, (erule safe_snd [OF sys_fs_open_safe [OF cpu]]
    safe_snd [OF sys_fs_read_safe [OF cpu]]
    safe_snd [OF sys_fs_write_safe [OF cpu]]
    safe_snd [OF sys_fs_close_safe [OF cpu]]
    safe_snd [OF sys_fs_seek_safe [OF cpu]]
    safe_snd [OF sys_fs_unlink_safe]
    safe_snd [OF sys_fs_rename_safe]
    safe_snd [OF sys_fs_mkdir_safe]
    safe_snd [OF sys_fs_rmdir_safe]
    safe_snd [OF sys_mkfifo_safe]
    safe_snd [OF sys_chdir_safe [OF cpu]])+)

lemma meta_call_good:
  assumes cpu: "cpu < MAX_CPUS" and r: "handle_meta_call cpu ctx k c = Some k'"
  shows "good k k'"
  using r
  by (cases c) (simp_all only: handle_meta_call.simps sys_lstat_def simp_thms, (erule safe_snd [OF sys_fs_stat_safe]
    safe_snd [OF sys_fstat_safe]
    safe_snd [OF sys_fs_readdir_safe]
    safe_snd [OF sys_getdents64_safe]
    safe_snd [OF sys_access_safe]
    safe_snd [OF sys_symlink_safe]
    safe_snd [OF sys_readlink_safe]
    safe_snd [OF sys_chmod_safe])+)

lemma signal_call_good:
  assumes cpu: "cpu < MAX_CPUS" and r: "handle_signal_call cpu ctx k c = Some k'" and n: "\<forall>a b d. c \<noteq> Sigprocmask a b d"
  shows "good k k'"
  using r n
  by (cases c) (simp_all only: handle_signal_call.simps, (erule safe_snd [OF sys_kill_safe [OF cpu]]
    safe_snd [OF sys_signal_safe [OF cpu]]
    safe_snd [OF sys_sigreturn_safe [OF cpu]]
    safe_snd [OF sys_tgkill_safe [OF cpu]]
    safe_snd [OF sys_rt_sigaction_safe [OF cpu]] | blast)+)

subsection \<open>All calls\<close>

text \<open>A call on an existing CPU, as long as task identifiers are left.\<close>

definition sys_step :: "'w kfs \<Rightarrow> nat \<times> saved_context \<times> syscall \<Rightarrow> 'w kfs panics" where
  "sys_step k opn = (case opn of (cpu, ctx, c) \<Rightarrow>
     if cpu < MAX_CPUS \<and> sc_next_id (k_sched k) \<noteq> - 1 then handle_syscall cpu ctx k c else None)"

definition writes_mask :: "syscall \<Rightarrow> bool" where
  "writes_mask c \<longleftrightarrow> (\<exists>a b d. c = Signal_call (Sigprocmask a b d))"

text \<open>The memory that no call reaches, seven bytes above the end of user space.\<close>

definition confined7 :: "memory \<Rightarrow> memory \<Rightarrow> bool" where
  "confined7 m m' \<longleftrightarrow> (\<forall>a. USER_SPACE_MAX + 7 \<le> a \<longrightarrow> m' a = m a)"

lemma confined7: "confined m m' \<Longrightarrow> confined7 m m'"
proof -
  have "USER_SPACE_MAX \<le> USER_SPACE_MAX + 7" by (simp add: USER_SPACE_MAX_def)
  then show "confined m m' \<Longrightarrow> confined7 m m'" unfolding confined_def confined7_def by (meson order_trans)
qed

lemma sys_step_good:
  assumes "sys_step k (cpu, ctx, c) = Some k'" and "\<not> writes_mask c"
  shows "good k k'"
proof -
  have cpu: "cpu < MAX_CPUS" and id: "sc_next_id (k_sched k) \<noteq> - 1" and r: "handle_syscall cpu ctx k c = Some k'"
    using assms(1) by (simp_all add: sys_step_def split: if_splits)
  show ?thesis
  proof (cases c)
    case (Task_call d)
    then show ?thesis using task_call_good [OF cpu id] r by simp
  next
    case (Signal_call d)
    then show ?thesis using signal_call_good [OF cpu, of ctx k d k'] r assms(2) by (auto simp: writes_mask_def)
  next
    case (Fd_call d)
    then show ?thesis using fd_call_good [OF cpu] r by simp
  next
    case (File_call d)
    then show ?thesis using file_call_good [OF cpu] r by simp
  next
    case (Meta_call d)
    then show ?thesis using meta_call_good [OF cpu] r by simp
  qed
qed

lemma sys_step_keeps:
  assumes r: "sys_step k (cpu, ctx, c) = Some k'"
  shows "(kernel_inv k \<longrightarrow> kernel_inv k') \<and> confined7 (k_mem k) (k_mem k')"
proof (cases "writes_mask c")
  case True
  then obtain a b d where c: "c = Signal_call (Sigprocmask a b d)" by (auto simp: writes_mask_def)
  obtain x where "cpu < MAX_CPUS" "sys_sigprocmask cpu k a b d = Some (x, k')" using r c by (auto simp: sys_step_def split: if_splits)
  from sys_sigprocmask_ok [OF this] show ?thesis by (simp add: confined7_def)
next
  case False
  then show ?thesis using sys_step_good [OF r] confined7 by (auto simp: good_def)
qed

interpretation calls: component sys_step kernel_inv
proof
  fix k t :: "'a kfs" and a assume "kernel_inv k" and "sys_step k a = Some t"
  then show "kernel_inv t" using sys_step_keeps [of k "fst a" "fst (snd a)" "snd (snd a)" t] by simp
qed

lemma sys_run_confined: "run_ops sys_step k ops = Some k' \<Longrightarrow> confined7 (k_mem k) (k_mem k')"
proof (induction ops arbitrary: k)
  case (Cons a ops)
  then obtain k1 where k1: "sys_step k a = Some k1" "run_ops sys_step k1 ops = Some k'" by (auto simp: bind_eq_Some_conv)
  have "confined7 (k_mem k) (k_mem k1)" using sys_step_keeps [of k "fst a" "fst (snd a)" "snd (snd a)" k1] k1(1) by simp
  then show ?case using Cons.IH [OF k1(2)] by (simp add: confined7_def)
qed (simp add: confined7_def)

lemma sys_run_confined_strict:
  "run_ops sys_step k ops = Some k' \<Longrightarrow> \<forall>(cpu, ctx, c)\<in>set ops. \<not> writes_mask c \<Longrightarrow> confined (k_mem k) (k_mem k')"
proof (induction ops arbitrary: k)
  case (Cons a ops)
  then obtain k1 where k1: "sys_step k a = Some k1" "run_ops sys_step k1 ops = Some k'" by (auto simp: bind_eq_Some_conv)
  obtain cpu ctx c where a: "a = (cpu, ctx, c)" by (cases a)
  have "good k k1" by (rule sys_step_good [OF k1(1) [unfolded a]]) (use Cons.prems(2) a in auto)
  then have "confined (k_mem k) (k_mem k1)" by (simp add: good_def)
  moreover have "confined (k_mem k1) (k_mem k')" by (rule Cons.IH [OF k1(2)]) (use Cons.prems(2) in auto)
  ultimately show ?case by (rule confined_trans)
qed simp

text \<open>A kernel with two tasks and the in-memory file system as its root.\<close>

definition demo_kernel :: "ramfs kfs" where
  "demo_kernel = \<lparr>k_sched = duo, k_mem = (\<lambda>_. 0),
     k_mounts = [\<lparr>mp_path = str ''/'', mp_device_idx = 0, mp_fs = ramfs_vfs\<rparr>], k_fs = ramfs_rooted,
     k_pipes = (\<lambda>_. create_pipe), k_next_pipe = 0\<rparr>"

lemma duo_live: "all_tasks task_live duo"
proof -
  have "task_live (task_new 0 (str ''a'') 5)" "task_live ((task_new 1 (str ''b'') 5)\<lparr>t_context := c, t_parent_id := p\<rparr>)" for c p
    using task_new_live [of 0 "str ''a''" 5] task_new_live [of 1 "str ''b''" 5] by (simp_all add: task_live_def task_ok_def)
  then show ?thesis
    by (simp add: all_tasks_def duo_def sched_boot_def MAX_CPUS_def cpu_queue_new_def numeral_eq_Suc)
qed

lemma demo_inv: "kernel_inv demo_kernel"
  by (simp add: kernel_inv_def demo_kernel_def duo_inv duo_live)

subsection \<open>Waking a task\<close>

lemma push_ready_visible:
  assumes "push_ready s c t = Some s'"
  shows "visible s' = add_mset t (visible s)" "sc_blocked s' = sc_blocked s"
proof -
  obtain q where q: "queue_at s c = Some q" "s' = put_queue s c (q\<lparr>cq_ready := cq_ready q @ [t]\<rparr>)"
    using push_ready_spec(2) [OF assms] by blast
  show "sc_blocked s' = sc_blocked s" by (simp add: q(2))
  have "ready_tasks s' + mset (cq_ready q) = ready_tasks s + mset (cq_ready q @ [t])"
    using put_queue_ready [OF q(1), of "q\<lparr>cq_ready := cq_ready q @ [t]\<rparr>"] q(2) by simp
  then show "visible s' = add_mset t (visible s)" by (simp add: visible_def q(2))
qed

lemma visible_fields [simp]:
  "visible (send_ipi_to_cpu s c) = visible s" "visible (s\<lparr>sc_blocked_cpu := b\<rparr>) = visible s"
  by (simp_all add: visible_def ready_tasks_def send_ipi_to_cpu_def split: option.split)

lemma wake_visible:
  assumes inv: "sched_inv s" and cpu: "cpu < MAX_CPUS" and t: "t \<in># visible s" "t_id t = tid"
  shows "\<exists>s' u. wake_task_by_id cpu s tid = Some s' \<and> keeps s s' \<and> (u = t \<or> u = t\<lparr>t_state := Ready\<rparr>)
    \<and> visible s' + {#t#} = visible s + {#u#} \<and> (\<forall>v\<in>set (sc_blocked s'). t_id v \<noteq> tid)"
proof -
  obtain s' where w: "wake_task_by_id cpu s tid = Some s'" "keeps s s'" using wake_task_ok [OF inv cpu] by blast
  show ?thesis
  proof (cases "position (\<lambda>t. t_id t = tid) (sc_blocked s)")
    case None
    then have "s' = s" using w(1) by (simp add: wake_task_by_id_def)
    then show ?thesis using w None by (intro exI [of _ s'] exI [of _ t]) (simp add: position_None)
  next
    case (Some i)
    have i: "i < length (sc_blocked s)" "t_id (sc_blocked s ! i) = tid"
      using position_lt [OF Some] mset_ids_remove_at(2) [OF Some] by simp_all
    have eq: "sc_blocked s ! i = t" using visible_unique [OF inv _ t(1)] i t(2) by (simp add: visible_def)
    let ?u = "t\<lparr>t_state := Ready\<rparr>"
    let ?s = "s\<lparr>sc_blocked := remove_at i (sc_blocked s), sc_blocked_cpu := bt_remove tid (sc_blocked_cpu s)\<rparr>"
    obtain c s1 where p: "push_ready ?s c ?u = Some s1" "s' = s1 \<or> s' = send_ipi_to_cpu s1 c"
      using w(1) Some eq by (auto simp: wake_task_by_id_def Let_def bind_eq_Some_conv split: if_splits)
    have tb: "t \<in># mset (sc_blocked s)" using eq i(1) nth_mem by fastforce
    have bl: "add_mset t (mset (remove_at i (sc_blocked s))) = mset (sc_blocked s)"
      using mset_remove_at [OF i(1)] insert_DiffM [OF tb] eq by simp
    then have "visible ?s + {#t#} = visible s" by (simp add: visible_def ready_tasks_def)
    then have "visible s' + {#t#} = visible s + {#?u#}" using p push_ready_visible(1) [OF p(1)] by auto
    moreover have "t_id v \<noteq> tid" if "v \<in> set (sc_blocked s')" for v
    proof
      assume v: "t_id v = tid"
      have "sc_blocked s' = remove_at i (sc_blocked s)"
        using p push_ready_visible(2) [OF p(1)] by (auto simp: send_ipi_to_cpu_def split: option.split)
      then have "v \<in># mset (remove_at i (sc_blocked s))" using that by simp
      then obtain m where "mset (remove_at i (sc_blocked s)) = add_mset v m" by (meson multi_member_split)
      then have "mset (sc_blocked s) = add_mset t (add_mset v m)" using bl by simp
      then have "2 \<le> count (task_ids s) tid" using v t(2) by (simp add: task_ids_def)
      then show False using inv unfolding sched_inv_def by (metis not_less_eq_eq numeral_2_eq_2 One_nat_def)
    qed
    ultimately show ?thesis using w by blast
  qed
qed

lemma sig_arg_Some: "unat sig \<in> {1..31} \<Longrightarrow> sig_arg sig = Some (ucast sig) \<and> unat (ucast sig :: u8) = unat sig" for sig :: u64
proof -
  assume s: "unat sig \<in> {1..31}"
  then have "sig < 256" "sig \<noteq> 0" "sig \<le> 31" by (auto simp: word_less_nat_alt word_le_nat_alt)
  moreover have "unat (ucast sig :: u8) = unat sig" using s by (simp add: unsigned_ucast_eq take_bit_nat_eq_self)
  ultimately show ?thesis by (simp add: sig_arg_def)
qed

lemma sig_arg_None: "unat sig \<notin> {1..31} \<Longrightarrow> sig_arg sig = None"
  by (auto simp: sig_arg_def word_le_nat_alt unat_eq_0 Suc_le_eq)

lemma mset_edit_trans:
  fixes a b c :: "'a multiset"
  assumes "s1 + a = s + b" and "s2 + b = s1 + c"
  shows "s2 + a = s + c"
proof -
  have "s2 + a + b = (s2 + b) + a" by (simp only: ac_simps)
  also have "\<dots> = (s1 + a) + c" unfolding assms(2) by (simp only: ac_simps)
  also have "\<dots> = s + c + b" unfolding assms(1) by (simp only: ac_simps)
  finally show ?thesis by simp
qed

lemma kill_found:
  assumes inv: "sched_inv (k_sched k)" and cpu: "cpu < MAX_CPUS" and sig: "unat sig \<in> {1..31}"
    and t: "t \<in># visible (k_sched k)" "t_id t = pid"
  shows "\<exists>s' u. sys_kill cpu k pid sig = Some (0, k\<lparr>k_sched := s'\<rparr>) \<and> keeps (k_sched k) s'
    \<and> visible s' + {#t#} = visible (k_sched k) + {#u#} \<and> t_id u = pid
    \<and> pending_set (t_signal_state u) = insert (unat sig) (pending_set (t_signal_state t))
    \<and> (\<forall>v\<in>set (sc_blocked s'). t_id v \<noteq> pid)"
proof -
  let ?n = "ucast sig :: u8" and ?s = "k_sched k"
  let ?f = "\<lambda>t. ((), t\<lparr>t_signal_state := send_signal (t_signal_state t) ?n\<rparr>)"
  let ?t1 = "t\<lparr>t_signal_state := send_signal (t_signal_state t) ?n\<rparr>"
  note n = sig_arg_Some [OF sig]
  obtain s1 where s1: "with_task_mut cpu ?s pid ?f = Some (Some (), s1)" and e: "edits ?s s1 t ?t1"
    using with_task_mut_found [OF inv cpu _ t, of ?f] by auto
  have k1: "keeps ?s s1" and v1: "visible s1 + {#t#} = visible ?s + {#?t1#}" using e by (simp_all add: edits_def)
  have inv1: "sched_inv s1" using k1 by (simp add: keeps_def)
  have t1: "?t1 \<in># visible s1"
  proof (cases "?t1 = t")
    case True
    then have "visible s1 = visible ?s" using v1 by simp
    then show ?thesis using t(1) True by simp
  next
    case False
    have "?t1 \<in># visible s1 + {#t#}" unfolding v1 by simp
    then show ?thesis using False by simp
  qed
  have id1: "t_id ?t1 = pid" using t(2) by simp
  obtain s2 u where s2: "wake_task_by_id cpu s1 pid = Some s2" "keeps s1 s2" "u = ?t1 \<or> u = ?t1\<lparr>t_state := Ready\<rparr>"
    "visible s2 + {#?t1#} = visible s1 + {#u#}" "\<forall>v\<in>set (sc_blocked s2). t_id v \<noteq> pid"
    using wake_visible [OF inv1 cpu t1 id1] by blast
  have v2: "visible s2 + {#t#} = visible ?s + {#u#}" by (rule mset_edit_trans [OF v1 s2(4)])
  have "pending_set (send_signal (t_signal_state t) ?n) = insert (unat sig) (pending_set (t_signal_state t))"
    using conjunct2 [OF n] sig by (simp only: send_signal_set(1) if_True)
  then have "pending_set (t_signal_state u) = insert (unat sig) (pending_set (t_signal_state t))" "t_id u = pid"
    using s2(3) t(2) by (elim disjE; simp)+
  moreover have "sys_kill cpu k pid sig = Some (0, k\<lparr>k_sched := s2\<rparr>)"
    using n s1 s2(1) by (simp add: sys_kill_def task_mut_def wake_def)
  ultimately show ?thesis using keeps_trans [OF k1 s2(2)] v2 s2(5) by blast
qed

lemma kill_missing:
  assumes "sched_inv (k_sched k)" and "cpu < MAX_CPUS" and "unat sig \<in> {1..31}"
    and "\<forall>t. t \<in># visible (k_sched k) \<longrightarrow> t_id t \<noteq> pid"
  shows "sys_kill cpu k pid sig = Some (error_code NotFound, k)"
  using sig_arg_Some [OF assms(3)]
  by (simp add: with_task_mut_none [OF assms(1,2,4)] sys_kill_def task_mut_def err_def)

lemma demo_visible:
  "visible (k_sched demo_kernel) = {#task_new 0 (str ''a'') 5,
     (task_new 1 (str ''b'') 5)\<lparr>t_context := Some saved_context_new, t_parent_id := Some 0\<rparr>#}"
  "t_id (task_new n nm p) = n"
  by (simp_all add: demo_kernel_def visible_def ready_tasks_def duo_def sched_boot_def MAX_CPUS_def cpu_queue_new_def
    numeral_eq_Suc task_new_def)

lemma demo_kill: "\<exists>k'. sys_step demo_kernel (0, saved_context_new, Signal_call (Kill 1 9)) = Some k'"
proof -
  let ?t = "(task_new 1 (str ''b'') 5)\<lparr>t_context := Some saved_context_new, t_parent_id := Some 0\<rparr>"
  have t: "?t \<in># visible (k_sched demo_kernel)" "t_id ?t = 1" using demo_visible by simp_all
  have inv: "sched_inv (k_sched demo_kernel)" using demo_inv by (simp add: kernel_inv_def)
  have cpu: "0 < MAX_CPUS" by (simp add: MAX_CPUS_def)
  have "unat (9 :: u64) \<in> {1..31}" by simp
  from kill_found [OF inv cpu this t] obtain s' where "sys_kill 0 demo_kernel 1 9 = Some (0, demo_kernel\<lparr>k_sched := s'\<rparr>)" by blast
  then show ?thesis using cpu by (simp add: sys_step_def demo_kernel_def duo_def)
qed

lemma blocked_not_ready:
  assumes "sched_inv s" and "t \<in> set (sc_blocked s)" "t_id t = tid" and "q \<in> set (sc_cpus s)" "u \<in> set (cq_ready q)"
  shows "t_id u \<noteq> tid"
proof
  assume u: "t_id u = tid"
  obtain m where "mset (sc_blocked s) = add_mset t m" using assms(2) by (metis multi_member_split set_mset_mset)
  moreover have "u \<in># ready_tasks s" using assms(4,5) by (auto simp: ready_tasks_in in_set_conv_nth)
  then obtain m' where "ready_tasks s = add_mset u m'" by (metis multi_member_split)
  ultimately have "2 \<le> count (task_ids s) tid" using assms(3) u by (simp add: task_ids_visible visible_def)
  then show False using assms(1) unfolding sched_inv_def by (metis not_less_eq_eq numeral_2_eq_2 One_nat_def)
qed

subsection \<open>Properties\<close>





subsection \<open>Waiting for a child\<close>

lemma no_exit_status:
  assumes "all_tasks task_live s"
  shows "get_exit_status s tid = None"
proof -
  have f: "t_exit_status t = None" if "find_task ts tid = Some t" "\<forall>t\<in>set ts. task_live t" for ts t
    using that by (auto simp: find_task_def find_Some_iff task_live_def)
  have "exit_status_in qs tid \<in> {None, Some None}" if "\<forall>q\<in>set qs. \<forall>t\<in>set (cq_ready q). task_live t" for qs
    using that f by (induction qs) (auto split: option.splits)
  then have "exit_status_in (sc_cpus s) tid \<in> {None, Some None}" using assms by (simp add: all_tasks_def)
  moreover have "\<forall>t\<in>set (sc_blocked s). task_live t" using assms by (simp add: all_tasks_def)
  ultimately show ?thesis using f [of "sc_blocked s"] by (auto simp: get_exit_status_def split: option.split)
qed

lemma wait_loop_ends:
  assumes "\<And>n. get_exit_status (fst (env n)) child = None"
  shows "process_wait_loop fuel env n start child timeout \<in> {None, Some None, Some (Some (error_code WouldBlock))}"
proof (induction fuel arbitrary: n)
  case (Suc fuel)
  show ?case using Suc.IH [of "Suc n"]
    by (cases "timeout = - 1"; cases "sub_c (snd (env n)) start") (simp_all add: assms)
qed simp

lemma wait_loop_forever:
  assumes "\<And>n. get_exit_status (fst (env n)) child = None"
  shows "process_wait_loop fuel env n start child (- 1) = Some None"
  by (induction fuel arbitrary: n) (simp_all add: assms)



text \<open>C32: \<open>sys_thread_yield\<close> and \<open>sys_sched_yield\<close>, and a system call that finds the reschedule flag set, do not put the caller
  at the back of the ready queue: they block it. It is in the blocked queue, in no ready queue, and nothing but a wake-up by
  identifier brings it back.\<close>

theorem yield_blocks_caller:
  assumes "sched_inv (k_sched k)" and "cpu < MAX_CPUS" and "leaving (k_sched k) cpu = Some tid"
  shows "\<exists>s. sys_thread_yield cpu k ctx = Some (0, k\<lparr>k_sched := s\<rparr>) \<and> sys_sched_yield cpu k ctx = Some (0, k\<lparr>k_sched := s\<rparr>)
    \<and> preempt_check cpu k True ctx = Some (k\<lparr>k_sched := s\<rparr>)
    \<and> (\<exists>t\<in>set (sc_blocked s). t_id t = tid \<and> t_state t = Blocked) \<and> (\<forall>q\<in>set (sc_cpus s). \<forall>t\<in>set (cq_ready q). t_id t \<noteq> tid)"
proof -
  obtain b s where r: "block_and_switch cpu (k_sched k) ctx = Some (b, s)" and k: "keeps (k_sched k) s"
    using block_and_switch_ok [OF assms(1,2), of ctx] by blast
  obtain t where "sc_blocked s = sc_blocked (k_sched k) @ [t]" and t: "t_id t = tid" "t_state t = Blocked"
    using block_and_switch_blocks(1) [OF assms r] by blast
  then have b: "t \<in> set (sc_blocked s)" by simp
  have "t_id u \<noteq> tid" if "q \<in> set (sc_cpus s)" "u \<in> set (cq_ready q)" for q u
    by (rule blocked_not_ready [OF _ b t(1) that]) (use k in \<open>simp add: keeps_def\<close>)
  then show ?thesis using r t b by (auto simp: sys_thread_yield_def sys_sched_yield_def preempt_check_def)
qed

theorem yield_blocks_caller_witness:
  "\<exists>s. sys_thread_yield 0 demo_kernel saved_context_new = Some (0, demo_kernel\<lparr>k_sched := s\<rparr>)
     \<and> (\<exists>t\<in>set (sc_blocked s). t_id t = 0 \<and> t_state t = Blocked)"
proof -
  have "sched_inv (k_sched demo_kernel)" "0 < MAX_CPUS" "leaving (k_sched demo_kernel) 0 = Some 0"
    using demo_inv duo_leaving by (simp_all add: kernel_inv_def MAX_CPUS_def demo_kernel_def)
  from yield_blocks_caller [OF this, of saved_context_new] show ?thesis by blast
qed

end
