(* ===== verification/Syscall_File_Props.thy ===== *)
theory Syscall_File_Props
  imports Syscall_Props
begin

text \<open>
  The behaviour of the descriptor and file calls. What the calls need of a file system is the interface \<open>file_store\<close>:
  files are byte sequences, a read returns a part of one and a write replaces a part. The calls are
  verified against it once, and the in-memory file system implements it.
\<close>

subsection \<open>The running task\<close>

text \<open>The task that the calls on \<open>cpu\<close> act for.\<close>

definition running :: "nat \<Rightarrow> 'z kst_scheme \<Rightarrow> task \<Rightarrow> bool" where
  "running cpu k t \<longleftrightarrow> sched_inv (k_sched k) \<and> cpu < MAX_CPUS \<and> t \<in># at_hand cpu (k_sched k)
     \<and> t_id t = current_task_id (k_sched k)"

lemma running_lookup: "running cpu k t \<Longrightarrow> with_current_task cpu (k_sched k) f = Some (Some (f t))"
  unfolding running_def by (blast intro: with_current_task_found)

lemma running_fd: "running cpu k t \<Longrightarrow> fd_lookup cpu k fd = Some (bt_get (t_fd_table t) fd)"
  by (simp add: fd_lookup_def running_lookup split: option.split)

lemma running_mut:
  assumes r: "running cpu k t" and f: "\<And>t. t_id (snd (f t)) = t_id t"
  obtains s where "cur_mut cpu k f = Some (Some (fst (f t)), k\<lparr>k_sched := s\<rparr>)" "running cpu (k\<lparr>k_sched := s\<rparr>) (snd (f t))"
proof -
  obtain s where s: "with_current_task_mut cpu (k_sched k) f = Some (Some (fst (f t)), s)" "edits (k_sched k) s t (snd (f t))"
    "snd (f t) \<in># at_hand cpu s"
    using with_current_task_mut_found [of "k_sched k" cpu f t] r f unfolding running_def by blast
  have "running cpu (k\<lparr>k_sched := s\<rparr>) (snd (f t))"
    using s(2,3) r f by (simp add: running_def edits_def keeps_def current_task_id_def)
  then show ?thesis by (rule that [rotated]) (simp add: cur_mut_def s(1))
qed

lemma lifted_id:
  assumes "\<forall>t x u. f t = Some (x, u) \<longrightarrow> t_id u = t_id t"
  shows "t_id (snd (case f t of None \<Rightarrow> (None, t) | Some (x, t') \<Rightarrow> (Some x, t'))) = t_id t"
proof (cases "f t")
  case (Some p)
  then show ?thesis using assms by (cases p) simp
qed simp

lemma running_mut_p:
  assumes r: "running cpu k t" and f: "\<forall>t x u. f t = Some (x, u) \<longrightarrow> t_id u = t_id t" and v: "f t = Some (x, u)"
  obtains s where "cur_mut_p cpu k f = Some (Some x, k\<lparr>k_sched := s\<rparr>)" "running cpu (k\<lparr>k_sched := s\<rparr>) u"
proof -
  let ?g = "\<lambda>t. case f t of None \<Rightarrow> (None, t) | Some (x, t') \<Rightarrow> (Some x, t')"
  from running_mut [where f = ?g, OF r lifted_id [OF f]] obtain s where
    "cur_mut cpu k ?g = Some (Some (fst (?g t)), k\<lparr>k_sched := s\<rparr>)" "running cpu (k\<lparr>k_sched := s\<rparr>) (snd (?g t))" by blast
  then show ?thesis by (intro that [of s]) (simp_all add: cur_mut_p_def v)
qed

lemma running_mut_none:
  assumes r: "running cpu k t" and f: "\<forall>t x u. f t = Some (x, u) \<longrightarrow> t_id u = t_id t" and v: "f t = None"
  shows "cur_mut_p cpu k f = None"
proof -
  let ?g = "\<lambda>t. case f t of None \<Rightarrow> (None, t) | Some (x, t') \<Rightarrow> (Some x, t')"
  from running_mut [where f = ?g, OF r lifted_id [OF f]] obtain s where
    "cur_mut cpu k ?g = Some (Some (fst (?g t)), k\<lparr>k_sched := s\<rparr>)" by blast
  then show ?thesis by (simp add: cur_mut_p_def v)
qed

lemma running_other [simp]:
  "running cpu (k\<lparr>k_mem := m\<rparr>) t = running cpu k t" "running cpu (k'\<lparr>k_fs := w\<rparr>) t = running cpu k' t" for k' :: "'w kfs"
  by (simp_all add: running_def)

subsection \<open>Descriptor allocation\<close>

lemma fd_scan_spec:
  assumes "start < FD_LIMIT"
  shows "case fd_scan tab start of
      None \<Rightarrow> False
    | Some None \<Rightarrow> \<forall>x. start \<le> x \<and> x < FD_LIMIT \<longrightarrow> bt_get tab x \<noteq> None
    | Some (Some fd) \<Rightarrow> start \<le> fd \<and> fd < FD_LIMIT \<and> bt_get tab fd = None \<and> (\<forall>x. start \<le> x \<and> x < fd \<longrightarrow> bt_get tab x \<noteq> None)"
  using assms
proof (induction tab start rule: fd_scan.induct)
  case (1 tab fd)
  show ?case
  proof (cases "bt_get tab fd = None")
    case True
    then show ?thesis using 1(2) by (auto simp: fd_scan.simps [of tab fd])
  next
    case False
    have lt: "unat fd < 1024" using 1(2) by (simp add: FD_LIMIT_def word_less_nat_alt)
    have next_fd: "add_c fd 1 = Some (fd + 1)" "unat (fd + 1) = unat fd + 1"
      using lt by (simp_all add: add_c_def unat_word_ariths)
    have le: "fd \<le> x \<longleftrightarrow> x = fd \<or> fd + 1 \<le> x" for x
      using next_fd(2) by (auto simp: word_le_nat_alt word_unat_eq_iff)
    show ?thesis
    proof (cases "FD_LIMIT \<le> fd + 1")
      case True
      then have "\<not> (fd + 1 \<le> x \<and> x < FD_LIMIT)" for x by (meson leD order_trans)
      then show ?thesis using True False next_fd le by (auto simp: fd_scan.simps [of tab fd])
    next
      case lt': False
      have "fd < fd + 1" using next_fd(2) by (simp add: word_less_nat_alt)
      then have up: "fd \<le> x \<and> x < y \<longleftrightarrow> x = fd \<and> fd < y \<or> fd + 1 \<le> x \<and> x < y" "fd + 1 \<le> y \<Longrightarrow> fd \<le> y" for x y
        using le by auto
      have "fd_scan tab fd = fd_scan tab (fd + 1)" using False lt' next_fd(1) by (simp add: fd_scan.simps [of tab fd])
      moreover have "fd + 1 < FD_LIMIT" using lt' by simp
      ultimately show ?thesis using 1(1) [OF False next_fd(1) lt'] False
        by (cases "fd_scan tab (fd + 1)") (auto simp: up split: option.split)
    qed
  qed
qed

subsection \<open>Files behind descriptors\<close>

lemma sint_small: "unat v < 2 ^ 63 \<Longrightarrow> sint v = int (unat v)" for v :: u64
proof -
  assume v: "unat v < 2 ^ 63"
  have u: "uint v = int (unat v)" by simp
  show ?thesis unfolding sint_uint u by (rule signed_take_bit_int_eq_self) (use v in \<open>simp_all del: of_nat_unat\<close>)
qed

text \<open>Descriptor \<open>fd\<close> of the running task is at offset \<open>off\<close> of file \<open>ino\<close> of \<open>fs\<close>.\<close>

definition opened :: "nat \<Rightarrow> 'w kfs \<Rightarrow> u64 \<Rightarrow> 'w file_system \<Rightarrow> u64 \<Rightarrow> u64 \<Rightarrow> bool" where
  "opened cpu k fd fs ino off \<longleftrightarrow> (\<exists>t e rel. running cpu k t \<and> bt_get (t_fd_table t) fd = Some e \<and> fd_ino e = ino
     \<and> fd_offset e = off \<and> \<not> is_pipe_path (fd_path e) \<and> resolve_fs (k_mounts k) (fd_path e) = Some (fs, rel))"

lemma opened_other [simp]:
  "opened cpu (k\<lparr>k_mem := m\<rparr>) fd fs ino off = opened cpu k fd fs ino off"
  "opened cpu (k\<lparr>k_fs := w\<rparr>) fd fs ino off = opened cpu k fd fs ino off"
  by (simp_all add: opened_def)

text \<open>A change of the offset of a descriptor that the running task has.\<close>

lemma opened_advance:
  assumes "opened cpu k fd fs ino off" and "unat off + n < 2 ^ 64"
  obtains s x where "cur_mut_p cpu k (advance fd n) = Some (x, k\<lparr>k_sched := s\<rparr>)"
    "opened cpu (k\<lparr>k_sched := s\<rparr>) fd fs ino (off + of_nat n)"
proof -
  obtain t e rel where t: "running cpu k t" "bt_get (t_fd_table t) fd = Some e" "fd_ino e = ino" "fd_offset e = off"
    "\<not> is_pipe_path (fd_path e)" "resolve_fs (k_mounts k) (fd_path e) = Some (fs, rel)" using assms(1) by (auto simp: opened_def)
  have n: "unat (of_nat n :: u64) = n" using assms(2) by (intro unat_of_nat_small) simp
  let ?u = "t\<lparr>t_fd_table := bt_insert fd (e\<lparr>fd_offset := off + of_nat n\<rparr>) (t_fd_table t)\<rparr>"
  have a: "advance fd n t = Some ((), ?u)" using t assms(2) by (simp add: advance_def add_c_def n)
  have "\<forall>t x u. advance fd n t = Some (x, u) \<longrightarrow> t_id u = t_id t"
    by (auto simp: advance_def bind_eq_Some_conv split: option.splits)
  from running_mut_p [OF t(1) this a] obtain s where s: "cur_mut_p cpu k (advance fd n) = Some (Some (), k\<lparr>k_sched := s\<rparr>)"
    "running cpu (k\<lparr>k_sched := s\<rparr>) ?u" by blast
  have "opened cpu (k\<lparr>k_sched := s\<rparr>) fd fs ino (off + of_nat n)"
    unfolding opened_def using s(2) t by (intro exI [of _ ?u]) simp
  with s(1) show ?thesis by (rule that)
qed

lemma opened_seek:
  assumes "opened cpu k fd fs ino off"
  obtains s x where "cur_mut cpu k (\<lambda>t. ((), t\<lparr>t_fd_table := bt_modify fd (\<lambda>en. en\<lparr>fd_offset := v\<rparr>) (t_fd_table t)\<rparr>))
      = Some (x, k\<lparr>k_sched := s\<rparr>)"
    "opened cpu (k\<lparr>k_sched := s\<rparr>) fd fs ino v"
proof -
  obtain t e rel where t: "running cpu k t" "bt_get (t_fd_table t) fd = Some e" "fd_ino e = ino" "fd_offset e = off"
    "\<not> is_pipe_path (fd_path e)" "resolve_fs (k_mounts k) (fd_path e) = Some (fs, rel)" using assms(1) by (auto simp: opened_def)
  let ?f = "\<lambda>t :: task. ((), t\<lparr>t_fd_table := bt_modify fd (\<lambda>en. en\<lparr>fd_offset := v\<rparr>) (t_fd_table t)\<rparr>)"
  have "t_id (snd (?f t)) = t_id t" for t by simp
  from running_mut [where f = ?f, OF t(1) this] obtain s where s: "cur_mut cpu k ?f = Some (Some (fst (?f t)), k\<lparr>k_sched := s\<rparr>)"
    "running cpu (k\<lparr>k_sched := s\<rparr>) (snd (?f t))" by blast
  have "opened cpu (k\<lparr>k_sched := s\<rparr>) fd fs ino v"
    unfolding opened_def using s(2) t by (intro exI [of _ "snd (?f t)"]) simp
  with s(1) show ?thesis by (rule that)
qed

text \<open>What the calls need of a file system: the bytes of its files, a bound on their length, and the three laws.\<close>

locale file_store =
  fixes fs :: "'w file_system" and inv :: "'w \<Rightarrow> bool" and bytes :: "'w \<Rightarrow> u64 \<Rightarrow> u8 list option" and limit :: nat
  assumes read_law: "inv w \<Longrightarrow> bytes w ino = Some bs \<Longrightarrow> n = min (length buf) (length bs - unat off) \<Longrightarrow>
      fo_read fs ino off buf w = Some (Inr (n, take n (drop (unat off) bs) @ drop n buf), w)"
    and write_law: "inv w \<Longrightarrow> bytes w ino = Some bs \<Longrightarrow> unat off + length data \<le> limit \<Longrightarrow>
      \<exists>w'. fo_write fs ino off data w = Some (Inr (length data), w') \<and> inv w' \<and> bytes w' = (bytes w)(ino \<mapsto> overwrite (unat off) data bs)"
    and stat_law: "inv w \<Longrightarrow> bytes w ino = Some bs \<Longrightarrow> \<exists>meta. fo_stat fs ino w = Some (Inr meta, w)"
    and limit_small: "limit < 2 ^ 63"
begin

lemma call_write:
  assumes o: "opened cpu k fd fs ino off" and fd: "fd \<noteq> FD_STDIN" "fd \<noteq> FD_STDOUT" and i: "inv (k_fs k)"
    and b: "bytes (k_fs k) ino = Some bs" and c: "copy_from_user (k_mem k) p len = Some data"
    and room: "unat off + length data \<le> limit"
  shows "\<exists>k'. sys_fs_write cpu k fd p len = Some (int (length data), k') \<and> opened cpu k' fd fs ino (off + of_nat (length data))
    \<and> inv (k_fs k') \<and> bytes (k_fs k') = (bytes (k_fs k))(ino \<mapsto> overwrite (unat off) data bs) \<and> k_mem k' = k_mem k"
proof -
  obtain t e rel where t: "running cpu k t" "bt_get (t_fd_table t) fd = Some e" "fd_ino e = ino" "fd_offset e = off"
    "\<not> is_pipe_path (fd_path e)" "resolve_fs (k_mounts k) (fd_path e) = Some (fs, rel)" using o by (auto simp: opened_def)
  obtain w where w: "fo_write fs ino off data (k_fs k) = Some (Inr (length data), w)" "inv w"
    "bytes w = (bytes (k_fs k))(ino \<mapsto> overwrite (unat off) data bs)" using write_law [OF i b room] by blast
  have "opened cpu (k\<lparr>k_fs := w\<rparr>) fd fs ino off" "unat off + length data < 2 ^ 64" using o room limit_small by simp_all
  from opened_advance [OF this] obtain s x where
    s: "cur_mut_p cpu (k\<lparr>k_fs := w\<rparr>) (advance fd (length data)) = Some (x, k\<lparr>k_fs := w, k_sched := s\<rparr>)"
      "opened cpu (k\<lparr>k_fs := w, k_sched := s\<rparr>) fd fs ino (off + of_nat (length data))" by blast
  have "sys_fs_write cpu k fd p len = Some (int (length data), k\<lparr>k_fs := w, k_sched := s\<rparr>)"
    using fd c t w s(1) by (simp add: sys_fs_write_def running_fd on_fs_def)
  then show ?thesis using s(2) w by auto
qed

lemma call_seek:
  assumes o: "opened cpu k fd fs ino off" and fd: "fd \<noteq> FD_STDIN" "fd \<noteq> FD_STDOUT" and i: "inv (k_fs k)"
    and b: "bytes (k_fs k) ino = Some bs" and v: "0 \<le> sint v"
  shows "\<exists>k'. sys_fs_seek cpu k fd v SEEK_SET = Some (sint v, k') \<and> opened cpu k' fd fs ino v \<and> k_fs k' = k_fs k \<and> k_mem k' = k_mem k"
proof -
  obtain t e rel where t: "running cpu k t" "bt_get (t_fd_table t) fd = Some e" "fd_ino e = ino" "fd_offset e = off"
    "resolve_fs (k_mounts k) (fd_path e) = Some (fs, rel)" using o by (auto simp: opened_def)
  obtain meta where "fo_stat fs ino (k_fs k) = Some (Inr meta, k_fs k)" using stat_law [OF i b] by blast
  moreover obtain s x where s: "cur_mut cpu k (\<lambda>t. ((), t\<lparr>t_fd_table := bt_modify fd (\<lambda>en. en\<lparr>fd_offset := v\<rparr>) (t_fd_table t)\<rparr>))
      = Some (x, k\<lparr>k_sched := s\<rparr>)" "opened cpu (k\<lparr>k_sched := s\<rparr>) fd fs ino v" using opened_seek [OF o] by blast
  ultimately have "sys_fs_seek cpu k fd v SEEK_SET = Some (sint v, k\<lparr>k_sched := s\<rparr>)"
    using fd t v by (simp add: sys_fs_seek_def running_fd on_fs_def seek_target_def)
  then show ?thesis using s(2) by auto
qed

lemma call_read:
  assumes o: "opened cpu k fd fs ino off" and fd: "fd \<noteq> FD_STDIN" "fd \<noteq> FD_STDOUT" and i: "inv (k_fs k)"
    and b: "bytes (k_fs k) ino = Some bs" and n: "n = min (min (unat len) SYS_MAX_MSG_SIZE) (length bs - unat off)"
    and off: "unat off + n < 2 ^ 64" and c: "copy_to_user (k_mem k) p (take n (drop (unat off) bs)) = (True, m)"
  shows "\<exists>k'. sys_fs_read cpu k fd p len = Some (int n, k') \<and> opened cpu k' fd fs ino (off + of_nat n) \<and> k_fs k' = k_fs k \<and> k_mem k' = m"
proof -
  obtain t e rel where t: "running cpu k t" "bt_get (t_fd_table t) fd = Some e" "fd_ino e = ino" "fd_offset e = off"
    "\<not> is_pipe_path (fd_path e)" "resolve_fs (k_mounts k) (fd_path e) = Some (fs, rel)" using o by (auto simp: opened_def)
  let ?buf = "replicate (min (unat len) SYS_MAX_MSG_SIZE) (0 :: u8)"
  let ?out = "take n (drop (unat off) bs) @ drop n ?buf"
  have r: "fo_read fs ino off ?buf (k_fs k) = Some (Inr (n, ?out), k_fs k)" by (rule read_law [OF i b]) (simp add: n)
  have "length (take n (drop (unat off) bs)) = n" using n by simp
  then have out: "n \<le> length ?out" "take n ?out = take n (drop (unat off) bs)" by simp_all
  obtain s x where s: "cur_mut_p cpu (k\<lparr>k_mem := m\<rparr>) (advance fd n) = Some (x, k\<lparr>k_mem := m, k_sched := s\<rparr>)"
    "opened cpu (k\<lparr>k_mem := m, k_sched := s\<rparr>) fd fs ino (off + of_nat n)"
    by (rule opened_advance [of cpu "k\<lparr>k_mem := m\<rparr>" fd fs ino off n]) (use o off in simp_all)
  have "sys_fs_read cpu k fd p len = Some (int n, k\<lparr>k_mem := m, k_sched := s\<rparr>)"
    using fd t r s(1) c out by (simp add: sys_fs_read_def running_fd on_fs_def Let_def del: length_append take_append append_take_drop_id)
  then show ?thesis using s(2) by auto
qed

text \<open>At the end of the file there is nothing to copy, and \<open>copy_to_user\<close> refuses an empty slice.\<close>

lemma call_eof:
  assumes o: "opened cpu k fd fs ino off" and fd: "fd \<noteq> FD_STDIN" "fd \<noteq> FD_STDOUT" and i: "inv (k_fs k)"
    and b: "bytes (k_fs k) ino = Some bs" and e: "length bs \<le> unat off"
  shows "sys_fs_read cpu k fd p len = Some (error_code BadPointer, k)"
proof -
  obtain t e rel where t: "running cpu k t" "bt_get (t_fd_table t) fd = Some e" "fd_ino e = ino" "fd_offset e = off"
    "\<not> is_pipe_path (fd_path e)" "resolve_fs (k_mounts k) (fd_path e) = Some (fs, rel)" using o by (auto simp: opened_def)
  have "fo_read fs ino off buf (k_fs k) = Some (Inr (0, buf), k_fs k)" for buf using read_law [OF i b, of 0 buf off] e by simp
  then show ?thesis using fd t by (simp add: sys_fs_read_def running_fd on_fs_def Let_def copy_to_user_def err_def)
qed

lemma call_write_seek_read:
  assumes o: "opened cpu k fd fs ino off" and fd: "fd \<noteq> FD_STDIN" "fd \<noteq> FD_STDOUT" and i: "inv (k_fs k)"
    and b: "bytes (k_fs k) ino = Some bs" and c: "copy_from_user (k_mem k) p len = Some data"
    and room: "unat off + length data \<le> limit" and q: "copy_to_user (k_mem k) q data = (True, m)"
  shows "\<exists>k1 k2 k3. sys_fs_write cpu k fd p len = Some (int (length data), k1)
    \<and> sys_fs_seek cpu k1 fd off SEEK_SET = Some (int (unat off), k2) \<and> sys_fs_read cpu k2 fd q len = Some (int (length data), k3)
    \<and> read_bytes (k_mem k3) q (length data) = data \<and> bytes (k_fs k3) = (bytes (k_fs k))(ino \<mapsto> overwrite (unat off) data bs)
    \<and> inv (k_fs k3) \<and> opened cpu k3 fd fs ino (off + of_nat (length data))"
proof -
  let ?bs = "overwrite (unat off) data bs"
  obtain k1 where k1: "sys_fs_write cpu k fd p len = Some (int (length data), k1)" "opened cpu k1 fd fs ino (off + of_nat (length data))"
    "inv (k_fs k1)" "bytes (k_fs k1) = (bytes (k_fs k))(ino \<mapsto> ?bs)" "k_mem k1 = k_mem k"
    using call_write [OF o fd i b c room] by blast
  have off: "sint off = int (unat off)" using room limit_small by (intro sint_small) simp
  have b1: "bytes (k_fs k1) ino = Some ?bs" using k1(4) by simp
  obtain k2 where k2: "sys_fs_seek cpu k1 fd off SEEK_SET = Some (int (unat off), k2)" "opened cpu k2 fd fs ino off" "k_fs k2 = k_fs k1"
    "k_mem k2 = k_mem k1" using call_seek [OF k1(2) fd k1(3) b1, of off] off by auto
  have len: "length data = unat len" "unat len \<le> SYS_MAX_MSG_SIZE" using c by (auto simp: copy_from_user_def split: if_splits)
  have n: "length data = min (min (unat len) SYS_MAX_MSG_SIZE) (length ?bs - unat off)" using len by (simp add: overwrite_def)
  have b2: "inv (k_fs k2)" "bytes (k_fs k2) ino = Some ?bs" using k1 k2 by simp_all
  have "copy_to_user (k_mem k2) q (take (length data) (drop (unat off) ?bs)) = (True, m)" using q k1(5) k2(4) by (simp add: overwrite_read)
  from call_read [OF k2(2) fd b2 n _ this] obtain k3 where
    k3: "sys_fs_read cpu k2 fd q len = Some (int (length data), k3)" "opened cpu k3 fd fs ino (off + of_nat (length data))"
      "k_fs k3 = k_fs k2" "k_mem k3 = m" using room limit_small by auto
  have "length data < 2 ^ 64" using room limit_small by simp
  then have "read_bytes (k_mem k3) q (length data) = data"
    using read_write_bytes copy_to_user_True(1) [OF q] k3(4) by simp
  then show ?thesis using k1 k2 k3 by metis
qed

end

interpretation ram: file_store ramfs_vfs ramfs_inv file_bytes MAX_FILE_SIZE
proof
  fix w :: ramfs and ino off :: u64 and bs buf data :: "u8 list" and n :: nat
  assume i: "ramfs_inv w" and b: "file_bytes w ino = Some bs"
  show "fo_read ramfs_vfs ino off buf w = Some (Inr (n, take n (drop (unat off) bs) @ drop n buf), w)"
    if "n = min (length buf) (length bs - unat off)"
    using file_bytes_read [OF b, of off buf] that by (simp add: ramfs_vfs_def Let_def)
  show "\<exists>w'. fo_write ramfs_vfs ino off data w = Some (Inr (length data), w') \<and> ramfs_inv w'
      \<and> file_bytes w' = (file_bytes w)(ino \<mapsto> overwrite (unat off) data bs)" if "unat off + length data \<le> MAX_FILE_SIZE"
  proof -
    have "\<not> ramfs_panics w (R_write ino off data)" using that by (simp add: MAX_FILE_SIZE_def)
    then show ?thesis using file_bytes_write [OF ramfs_len [OF i] b that] write_ok [OF i, of ino off data] by (auto simp: ramfs_vfs_def)
  qed
  show "\<exists>meta. fo_stat ramfs_vfs ino w = Some (Inr meta, w)"
    using b by (auto simp: ramfs_vfs_def ramfs_stat_def file_bytes_def Let_def split: if_splits)
qed (simp add: MAX_FILE_SIZE_def)

subsection \<open>Descriptors without a file\<close>

lemma no_mount:
  assumes "mounts_inv tab" and "path = c # cs" and "c \<noteq> slash"
  shows "resolve_fs tab path = None"
proof (rule resolve_fs_panics, intro ballI notI)
  fix mp assume mp: "mp \<in> set tab" "prefix (mp_path mp) path"
  then obtain d ds where "mp_path mp = d # ds" "d = slash" using assms(1) by (cases "mp_path mp") (auto simp: mounts_inv_def)
  then show False using mp(2) assms(2,3) by simp
qed

lemma no_mount_panics:
  assumes r: "running cpu k t" and e: "bt_get (t_fd_table t) fd = Some e" and m: "mounts_inv (k_mounts k)"
    and path: "fd_path e = c # cs" "c \<noteq> slash" and fd: "FD_FIRST_USABLE \<le> fd"
  shows "sys_fs_close cpu k fd = None \<and> sys_fs_seek cpu k fd a b = None \<and> sys_fstat cpu k fd q = None"
proof -
  note n = no_mount [OF m path]
  let ?f = "\<lambda>t :: task. (bt_get (t_fd_table t) fd, t\<lparr>t_fd_table := bt_remove fd (t_fd_table t)\<rparr>)"
  have "t_id (snd (?f t)) = t_id t" for t by simp
  from running_mut [where f = ?f, OF r this] obtain s where "cur_mut cpu k ?f = Some (Some (fst (?f t)), k\<lparr>k_sched := s\<rparr>)" by blast
  then have "sys_fs_close cpu k fd = None" using fd [THEN leD] e n by (simp add: sys_fs_close_def)
  moreover have "fd \<noteq> FD_STDIN" "fd \<noteq> FD_STDOUT" using fd by (auto simp: FD_FIRST_USABLE_def FD_STDIN_def FD_STDOUT_def word_le_nat_alt)
  ultimately show ?thesis using running_fd [OF r] e n by (simp add: sys_fs_seek_def sys_fstat_def)
qed

text \<open>The descriptors that \<open>sys_pipe\<close> installs.\<close>

lemma fd_scan_ge: "fd_scan tab start = Some (Some fd) \<Longrightarrow> start \<le> fd"
proof (induction tab start rule: fd_scan.induct)
  case (1 tab start)
  show ?case
  proof (cases "bt_get tab start = None")
    case True
    then show ?thesis using 1(2) by (simp add: fd_scan.simps [of tab start])
  next
    case False
    then obtain fd' where n: "add_c start 1 = Some fd'" "\<not> FD_LIMIT \<le> fd'" "fd_scan tab fd' = Some (Some fd)"
      using 1(2) by (auto simp: fd_scan.simps [of tab start] split: option.splits if_splits)
    have "start \<le> fd'" using add_c_unat [OF n(1)] by (simp add: word_le_nat_alt)
    then show ?thesis using 1(1) [OF False n(1,2,3)] by (rule order_trans)
  qed
qed

lemma pipe_task_entries:
  assumes "pipe_task a t = Some (Some (r, w), u)"
  shows "FD_FIRST_USABLE \<le> r \<and> FD_FIRST_USABLE \<le> w \<and> (\<exists>e. bt_get (t_fd_table u) r = Some e \<and> fd_path e = str ''<pipe:r>'')
    \<and> (\<exists>e. bt_get (t_fd_table u) w = Some e \<and> fd_path e = str ''<pipe:w>'')"
proof -
  obtain t0 hr hw n where u: "u = fd_install w (str ''<pipe:w>'') hw (fd_install r (str ''<pipe:r>'') hr t0)"
    and r: "fd_scan (t_fd_table t0) FD_FIRST_USABLE = Some (Some r)" and n: "add_c r 1 = Some n"
    and w: "fd_scan (t_fd_table (fd_install r (str ''<pipe:r>'') hr t0)) n = Some (Some w)"
    using assms by (fastforce simp: pipe_task_def bind_eq_Some_conv Let_def split: option.splits)
  have "FD_FIRST_USABLE \<le> r" by (rule fd_scan_ge [OF r])
  moreover have "r < w" using fd_scan_ge [OF w] add_c_unat [OF n] by (simp add: word_le_nat_alt word_less_nat_alt)
  ultimately show ?thesis using u by (auto simp: fd_install_def)
qed

lemma pipe_result:
  assumes "running cpu k t" and "sys_pipe cpu k fds_ptr = Some (0, k')"
  obtains a r w u where "pipe_task a t = Some (Some (r, w), u)" "running cpu k' u" "k_mounts k' = k_mounts k"
    "read_bytes (k_mem k') fds_ptr 16 = to_le_bytes r @ to_le_bytes w"
proof -
  obtain p k1 where k1: "new_pipe k = (p, k1)" by fastforce
  have r1: "running cpu k1 t" "k_mounts k1 = k_mounts k" using assms(1) k1 by (auto simp: new_pipe_def running_def)
  have id: "\<forall>t x u. pipe_task p t = Some (x, u) \<longrightarrow> t_id u = t_id t" using tame_p_pipe [of p] by (auto simp: tame_p_def)
  obtain s r w u where u: "pipe_task p t = Some (Some (r, w), u)" "running cpu (k1\<lparr>k_sched := s\<rparr>) u"
    and c: "cur_mut_p cpu k1 (pipe_task p) = Some (Some (Some (r, w)), k1\<lparr>k_sched := s\<rparr>)"
  proof (cases "pipe_task p t")
    case None
    have "cur_mut_p cpu k1 (pipe_task p) = None" by (rule running_mut_none [OF r1(1) id None])
    then show thesis using assms(2) k1 by (simp add: sys_pipe_def err_def split: if_splits)
  next
    case (Some y)
    then obtain x v where y: "pipe_task p t = Some (x, v)" by (cases y) simp
    from running_mut_p [OF r1(1) id y] obtain s where
      s: "cur_mut_p cpu k1 (pipe_task p) = Some (Some x, k1\<lparr>k_sched := s\<rparr>)" "running cpu (k1\<lparr>k_sched := s\<rparr>) v" by blast
    have "x \<noteq> None" using assms(2) k1 s(1) by (cases x) (simp_all add: sys_pipe_def err_def split: if_splits)
    then show thesis using that s y by fastforce
  qed
  let ?k = "k1\<lparr>k_sched := s\<rparr>" and ?bs = "to_le_bytes r @ to_le_bytes w"
  have "put_user ?k fds_ptr ?bs = Some (0, k')"
    using assms(2) k1 c by (simp add: sys_pipe_def put_user_def err_def split: if_splits)
  then obtain m where m: "copy_to_user (k_mem ?k) fds_ptr ?bs = (True, m)" "k' = ?k\<lparr>k_mem := m\<rparr>"
    by (auto simp: put_user_def err_def split: if_splits prod.splits)
  have "length ?bs = 16" by (simp add: to_le_bytes_def)
  then have "read_bytes (k_mem k') fds_ptr 16 = ?bs" using copy_to_user_True(1) [OF m(1)] read_write_bytes [of ?bs] m(2) by simp
  then show ?thesis using u m(2) r1(2) by (intro that [of p r w u]) simp_all
qed

subsection \<open>A kernel with an open file\<close>

lemma demo_running: "running 0 demo_kernel (task_new 0 (str ''a'') 5)"
  using duo_inv by (simp add: running_def demo_kernel_def at_hand_def current_task_id_def MAX_CPUS_def duo_def sched_boot_def demo_visible(2))

lemma demo_open:
  obtains k where "opened 0 k 2 ramfs_vfs (slot_ino 1) 0" "ramfs_inv (k_fs k)" "file_bytes (k_fs k) (slot_ino 1) = Some []"
    "k_mem k = write_bytes (\<lambda>_. 0) 0x1000 (str ''abc'')"
proof -
  have name: "\<not> bad_name (str ''a'')" "0 \<notin> set (str ''a'')" "utf8_ok (str ''a'')"
    by (simp_all add: bad_name_def MAX_NAME_LEN_def str_def)
  obtain fs0 where c: "ramfs_create 0 (str ''a'') ramfs_rooted = Some (Inr (slot_ino 1), fs0)" "file_bytes fs0 (slot_ino 1) = Some []"
    using create_unlink [OF ramfs_rooted_inv ramfs_rooted_facts(1) name ramfs_rooted_facts(4,2,5)] by blast
  have "\<not> ramfs_panics ramfs_rooted (R_create 0 (str ''a''))" by (simp add: root_room_def ramfs_rooted_facts)
  then have inv: "ramfs_inv fs0" using create_not_panics [OF ramfs_rooted_inv] c(1) by fastforce
  let ?k = "demo_kernel\<lparr>k_fs := fs0, k_mem := write_bytes (\<lambda>_. 0) 0x1000 (str ''abc'')\<rparr>" and ?t = "task_new 0 (str ''a'') 5"
  have r: "running 0 ?k ?t" using demo_running by simp
  have "t_fd_table ?t = []" by (simp add: task_new_def)
  then have a: "fd_alloc (str ''/a'') (slot_ino 1) ?t = Some (Some 2, fd_install 2 (str ''/a'') (slot_ino 1) ?t)"
    by (simp add: fd_alloc_def fd_scan.simps FD_FIRST_USABLE_def)
  have id: "\<forall>t x u. fd_alloc (str ''/a'') (slot_ino 1) t = Some (x, u) \<longrightarrow> t_id u = t_id t"
    using tame_p_fd_alloc [of "str ''/a''" "slot_ino 1"] by (auto simp: tame_p_def)
  from running_mut_p [OF r id a] obtain s where s: "running 0 (?k\<lparr>k_sched := s\<rparr>) (fd_install 2 (str ''/a'') (slot_ino 1) ?t)" by blast
  have "resolve_fs (k_mounts demo_kernel) (str ''/a'') = Some (ramfs_vfs, str ''a'')"
    using resolve_fs_root [of "hd (k_mounts demo_kernel)" "str ''/a''"] by (simp add: demo_kernel_def str_def strip_slash_def)
  then have "opened 0 (?k\<lparr>k_sched := s\<rparr>) 2 ramfs_vfs (slot_ino 1) 0"
    unfolding opened_def using s by (intro exI [of _ "fd_install 2 (str ''/a'') (slot_ino 1) ?t"]) (simp add: fd_install_def is_pipe_path_def str_def)
  then show ?thesis using inv c(2) by (intro that [of "?k\<lparr>k_sched := s\<rparr>"]) simp_all
qed

lemma demo_abc:
  "copy_from_user (write_bytes m' 0x1000 (str ''abc'')) 0x1000 3 = Some (str ''abc'')"
  "copy_to_user m 0x2000 (str ''abc'') = (True, write_bytes m 0x2000 (str ''abc''))"
proof -
  have n: "length (str ''abc'') = 3" by (simp add: str_def)
  have u: "unat (sat_add 0x1000 (3 :: u64)) = 0x1003" "unat (sat_add 0x2000 (3 :: u64)) = 0x2003" by (simp_all add: unat_sat_add)
  have le: "unat (3 :: u64) \<le> SYS_MAX_MSG_SIZE" by (simp add: SYS_MAX_MSG_SIZE_def)
  show "copy_from_user (write_bytes m' 0x1000 (str ''abc'')) 0x1000 3 = Some (str ''abc'')"
    using read_write_bytes [where bs = "str ''abc''" and a = "0x1000"] n u le
    by (simp add: copy_from_user_def USER_SPACE_MAX_def word_le_nat_alt word_less_nat_alt)
  show "copy_to_user m 0x2000 (str ''abc'') = (True, write_bytes m 0x2000 (str ''abc''))"
    using n u le by (auto simp: copy_to_user_def USER_SPACE_MAX_def word_le_nat_alt word_less_nat_alt)
qed

subsection \<open>Properties\<close>

text \<open>C7: Files keep what is written to them. A write at the offset of a descriptor, a seek back to it and a read of the same
  length bring the bytes back into user memory; the file has them in place of what it had there, no other file has
  changed, and the descriptor stands after them. It holds for every kernel state with an open descriptor on the in-memory
  file system, as long as the write fits into a file.\<close>

theorem file_write_seek_read:
  assumes "opened cpu k fd ramfs_vfs ino off" and "fd \<noteq> FD_STDIN" and "fd \<noteq> FD_STDOUT" and "ramfs_inv (k_fs k)"
    and "file_bytes (k_fs k) ino = Some bs" and "copy_from_user (k_mem k) p len = Some data"
    and "unat off + length data \<le> MAX_FILE_SIZE" and "copy_to_user (k_mem k) q data = (True, m)"
  shows "\<exists>k1 k2 k3. sys_fs_write cpu k fd p len = Some (int (length data), k1)
    \<and> sys_fs_seek cpu k1 fd off SEEK_SET = Some (int (unat off), k2) \<and> sys_fs_read cpu k2 fd q len = Some (int (length data), k3)
    \<and> read_bytes (k_mem k3) q (length data) = data
    \<and> file_bytes (k_fs k3) = (file_bytes (k_fs k))(ino \<mapsto> overwrite (unat off) data bs)
    \<and> ramfs_inv (k_fs k3) \<and> opened cpu k3 fd ramfs_vfs ino (off + of_nat (length data))"
  by (rule ram.call_write_seek_read [OF assms])

theorem file_write_seek_read_witness:
  "\<exists>k k1 k2 k3. sys_fs_write 0 k 2 0x1000 3 = Some (3, k1) \<and> sys_fs_seek 0 k1 2 0 SEEK_SET = Some (0, k2)
     \<and> sys_fs_read 0 k2 2 0x2000 3 = Some (3, k3) \<and> read_bytes (k_mem k3) 0x2000 3 = str ''abc'' \<and> ramfs_inv (k_fs k3)"
proof -
  obtain k where k: "opened 0 k 2 ramfs_vfs (slot_ino 1) 0" "ramfs_inv (k_fs k)" "file_bytes (k_fs k) (slot_ino 1) = Some []"
    "k_mem k = write_bytes (\<lambda>_. 0) 0x1000 (str ''abc'')" by (rule demo_open)
  have n: "length (str ''abc'') = 3" by (simp add: str_def)
  then have room: "unat (0 :: u64) + length (str ''abc'') \<le> MAX_FILE_SIZE" by (simp add: MAX_FILE_SIZE_def)
  have fd: "(2 :: u64) \<noteq> FD_STDIN" "(2 :: u64) \<noteq> FD_STDOUT" by (simp_all add: FD_STDIN_def FD_STDOUT_def)
  have c: "copy_from_user (k_mem k) 0x1000 3 = Some (str ''abc'')" using demo_abc(1) k(4) by simp
  from file_write_seek_read [OF k(1) fd k(2,3) c room demo_abc(2)] obtain k1 k2 k3 where
    "sys_fs_write 0 k 2 0x1000 3 = Some (3, k1)" "sys_fs_seek 0 k1 2 0 SEEK_SET = Some (0, k2)"
    "sys_fs_read 0 k2 2 0x2000 3 = Some (3, k3)" "read_bytes (k_mem k3) 0x2000 3 = str ''abc''" "ramfs_inv (k_fs k3)"
    unfolding n by auto
  then show ?thesis by blast
qed

text \<open>A read at the end of a file fails. \<open>fs_read\<close> passes the empty result to \<open>copy_to_user\<close>, which refuses an empty slice, so
  a caller that reads a file to its end gets \<open>BadPointer\<close> and never 0.\<close>

theorem fs_read_eof:
  assumes "opened cpu k fd ramfs_vfs ino off" and "fd \<noteq> FD_STDIN" and "fd \<noteq> FD_STDOUT" and "ramfs_inv (k_fs k)"
    and "file_bytes (k_fs k) ino = Some bs" and "length bs \<le> unat off"
  shows "sys_fs_read cpu k fd p len = Some (error_code BadPointer, k)"
  by (rule ram.call_eof [OF assms])

theorem fs_read_eof_witness:
  "\<exists>k. opened 0 k 2 ramfs_vfs (slot_ino 1) 0 \<and> sys_fs_read 0 k 2 0x2000 3 = Some (error_code BadPointer, k)"
proof -
  obtain k where k: "opened 0 k 2 ramfs_vfs (slot_ino 1) 0" "ramfs_inv (k_fs k)" "file_bytes (k_fs k) (slot_ino 1) = Some []"
    by (rule demo_open)
  have fd: "(2 :: u64) \<noteq> FD_STDIN" "(2 :: u64) \<noteq> FD_STDOUT" by (simp_all add: FD_STDIN_def FD_STDOUT_def)
  show ?thesis using fs_read_eof [OF k(1) fd k(2,3), of "0x2000" 3] k(1) by auto
qed

text \<open>C27: Descriptor allocation always returns. It takes the least free number from 2 on and adds exactly that descriptor, at
  offset 0; when all numbers below 1024 are taken the task is unchanged.\<close>

theorem fd_alloc_spec:
  "case fd_alloc path ino t of
     None \<Rightarrow> False
   | Some (None, t') \<Rightarrow> t' = t \<and> (\<forall>x. FD_FIRST_USABLE \<le> x \<and> x < FD_LIMIT \<longrightarrow> bt_get (t_fd_table t) x \<noteq> None)
   | Some (Some fd, t') \<Rightarrow> FD_FIRST_USABLE \<le> fd \<and> fd < FD_LIMIT \<and> bt_get (t_fd_table t) fd = None
       \<and> (\<forall>x. FD_FIRST_USABLE \<le> x \<and> x < fd \<longrightarrow> bt_get (t_fd_table t) x \<noteq> None)
       \<and> bt_get (t_fd_table t') = (bt_get (t_fd_table t))(fd \<mapsto> \<lparr>fd_path = path, fd_ino = ino, fd_offset = 0\<rparr>)
       \<and> t' = t\<lparr>t_fd_table := t_fd_table t'\<rparr>"
proof -
  have "FD_FIRST_USABLE < FD_LIMIT" by (simp add: FD_FIRST_USABLE_def FD_LIMIT_def)
  from fd_scan_spec [OF this, of "t_fd_table t"] show ?thesis
    by (auto simp: fd_alloc_def fd_install_def split: option.splits)
qed

theorem fd_alloc_spec_witness: "\<exists>t. fd_alloc (str ''/a'') 7 (task_new 0 (str ''a'') 5) = Some (Some 2, t)"
proof -
  have e: "t_fd_table (task_new 0 (str ''a'') 5) = []" by (simp add: task_new_def)
  have two: "FD_FIRST_USABLE \<le> (2 :: u64)" "(2 :: u64) < FD_LIMIT" "FD_FIRST_USABLE = 2" by (simp_all add: FD_FIRST_USABLE_def FD_LIMIT_def)
  show ?thesis using fd_alloc_spec [where path = "str ''/a''" and ino = 7 and t = "task_new 0 (str ''a'') 5"] two
    by (auto simp: e split: option.splits) (metis order.order_iff_strict order_refl)+
qed

text \<open>C33: A pipe cannot be closed. After a \<open>sys_pipe\<close> that succeeded, closing either of the two descriptors it stored in user memory
  panics the kernel: their paths are not under any mount point and \<open>resolve_fs\<close> panics on such a path. The same holds
  for \<open>sys_fs_seek\<close> and \<open>sys_fstat\<close> on them.\<close>

theorem pipe_close_panics:
  assumes "running cpu k t" and "mounts_inv (k_mounts k)" and "sys_pipe cpu k fds_ptr = Some (0, k')"
  shows "\<exists>r w. read_bytes (k_mem k') fds_ptr 16 = to_le_bytes r @ to_le_bytes w
    \<and> (\<forall>fd\<in>{r, w}. sys_fs_close cpu k' fd = None \<and> sys_fs_seek cpu k' fd a b = None \<and> sys_fstat cpu k' fd q = None)"
proof -
  obtain p r w u where u: "pipe_task p t = Some (Some (r, w), u)" and k': "running cpu k' u" "k_mounts k' = k_mounts k"
    and m: "read_bytes (k_mem k') fds_ptr 16 = to_le_bytes r @ to_le_bytes w" by (rule pipe_result [OF assms(1,3)])
  have mi: "mounts_inv (k_mounts k')" using k'(2) assms(2) by simp
  obtain er ew where e: "FD_FIRST_USABLE \<le> r" "FD_FIRST_USABLE \<le> w" "bt_get (t_fd_table u) r = Some er"
    "bt_get (t_fd_table u) w = Some ew" "fd_path er = str ''<pipe:r>''" "fd_path ew = str ''<pipe:w>''"
    using pipe_task_entries [OF u] by blast
  have p: "fd_path er = 60 # tl (fd_path er)" "fd_path ew = 60 # tl (fd_path ew)" "(60 :: u8) \<noteq> slash"
    using e(5,6) by (simp_all add: str_def)
  note no_mount_panics [OF k'(1) e(3) mi p(1,3) e(1)] no_mount_panics [OF k'(1) e(4) mi p(2,3) e(2)]
  then show ?thesis using m by (intro exI [of _ r] exI [of _ w]) simp
qed

theorem pipe_close_panics_witness:
  "\<exists>k' r. sys_pipe 0 demo_kernel 0x1000 = Some (0, k') \<and> sys_fs_close 0 k' r = None"
proof -
  let ?t = "task_new 0 (str ''a'') 5"
  have t: "t_fd_table ?t = []" "t_handle_table ?t = handle_table_new" by (simp_all add: task_new_def)
  have sc: "fd_scan [] 2 = Some (Some 2)" "fd_scan [(2, e)] 3 = Some (Some 3)" for e
    by (simp_all add: fd_scan.simps [of "[]" 2] fd_scan.simps [of "[(2, e)]" 3] bt_get_def)
  have "\<exists>u. pipe_task 0 ?t = Some (Some (2, 3), u)"
    by (simp add: pipe_task_def t sc ht_insert_def handle_table_new_def add_c_def fd_install_def FD_FIRST_USABLE_def Let_def)
  then obtain u where u: "pipe_task 0 ?t = Some (Some (2, 3), u)" by blast
  have id: "\<forall>t x u. pipe_task 0 t = Some (x, u) \<longrightarrow> t_id u = t_id t" using tame_p_pipe [of 0] by (auto simp: tame_p_def)
  let ?k = "snd (new_pipe demo_kernel)" and ?bs = "to_le_bytes 2 @ to_le_bytes 3"
  have r: "running 0 ?k ?t" using demo_running by (simp add: new_pipe_def running_def)
  from running_mut_p [OF r id u] obtain s where
    s: "cur_mut_p 0 ?k (pipe_task 0) = Some (Some (Some (2, 3)), ?k\<lparr>k_sched := s\<rparr>)" by blast
  have n: "length ?bs = 16" by (simp add: to_le_bytes_def)
  have sa: "unat (sat_add 0x1000 (16 :: u64)) = 0x1010" by (simp add: unat_sat_add)
  have c: "copy_to_user m 0x1000 ?bs = (True, write_bytes m 0x1000 ?bs)" for m
    using n sa by (auto simp: copy_to_user_def USER_SPACE_MAX_def SYS_MAX_MSG_SIZE_def word_le_nat_alt word_less_nat_alt)
  have np: "new_pipe demo_kernel = (0, ?k)" by (simp add: new_pipe_def demo_kernel_def)
  have ok: "\<not> USER_SPACE_MAX \<le> 0x1000" "\<not> USER_SPACE_MAX < sat_add 0x1000 16"
    using sa by (simp_all add: USER_SPACE_MAX_def word_le_nat_alt word_less_nat_alt)
  have "\<exists>k'. sys_pipe 0 demo_kernel 0x1000 = Some (0, k')"
    using s c ok by (subst sys_pipe_def, subst np) simp
  then obtain k' where k': "sys_pipe 0 demo_kernel 0x1000 = Some (0, k')" by blast
  have "mounts_inv (k_mounts demo_kernel)" by (simp add: mounts_inv_def demo_kernel_def str_def)
  from pipe_close_panics [OF demo_running this k', of 0 0 0] show ?thesis using k' by auto
qed

end
