(* ===== verification/Syscall_Ipc.thy ===== *)
theory Syscall_Ipc
  imports Syscall_Fd Channel
begin

text \<open>
  The system calls of \<open>kernel/src/syscall/mod.rs\<close> on channels, handles, events, interrupts, endpoints, and sleeping. The state
  extends that of the task calls by the channels, events and interrupt events, each under the identity of the \<open>Arc\<close> that the handle
  tables hold. A call that waits in a loop takes \<open>fuel\<close>, the number of rounds it is followed, and \<open>others\<close>, what the rest of the
  system does to the state between two rounds, while the CPU halts; its answer is \<open>None\<close> while it still waits.
\<close>

record kipc = kst +
  k_channels :: "arc \<Rightarrow> channel"
  k_next_channel :: arc
  k_events :: "arc \<Rightarrow> event"
  k_next_event :: arc
  k_irqs :: "arc \<Rightarrow> irq_event"

type_synonym ipc_result = "(int \<times> kipc) panics"
type_synonym ipc_wait = "(int option \<times> kipc) panics"
type_synonym interference = "nat \<Rightarrow> kipc \<Rightarrow> kipc"

definition put_channel :: "kipc \<Rightarrow> arc \<Rightarrow> channel \<Rightarrow> kipc" where
  "put_channel k a ch = k\<lparr>k_channels := (k_channels k)(a := ch)\<rparr>"

definition lookup_object :: "nat \<Rightarrow> kipc \<Rightarrow> u64 \<Rightarrow> kernel_object option panics" where
  "lookup_object cpu k handle_raw =
     map_option (\<lambda>r. Option.bind r (\<lambda>x. x))
       (with_current_task cpu (k_sched k) (\<lambda>t. ht_get (t_handle_table t) (handle_from_raw handle_raw)))"

definition lookup_channel :: "nat \<Rightarrow> kipc \<Rightarrow> u64 \<Rightarrow> (arc \<times> end_id) option panics" where
  "lookup_channel cpu k handle_raw = do {
     r \<leftarrow> lookup_object cpu k handle_raw;
     Some (case r of Some (ChannelEndA ch) \<Rightarrow> Some (ch, EndA) | Some (ChannelEndB ch) \<Rightarrow> Some (ch, EndB) | _ \<Rightarrow> None) }"

subsection \<open>Channels\<close>

definition channel_task :: "arc \<Rightarrow> task \<Rightarrow> (u64 \<times> task) panics" where
  "channel_task a t = do {
     (handle_a, tab) \<leftarrow> ht_insert (t_handle_table t) (ChannelEndA a) RIGHTS_ALL;
     (handle_b, tab) \<leftarrow> ht_insert tab (ChannelEndB a) RIGHTS_ALL;
     Some (as_u64 handle_a, t\<lparr>t_handle_table := tab\<rparr>) }"

definition sys_channel_create :: "nat \<Rightarrow> kipc \<Rightarrow> ipc_result" where
  "sys_channel_create cpu k = do {
     let a = k_next_channel k;
     let k = (put_channel k a channel_new)\<lparr>k_next_channel := a + 1\<rparr>;
     (result, k) \<leftarrow> cur_mut_p cpu k (channel_task a);
     (case result of Some i \<Rightarrow> Some (sint i, k) | None \<Rightarrow> err k NotFound) }"

definition sys_channel_send :: "nat \<Rightarrow> kipc \<Rightarrow> u64 \<Rightarrow> u64 \<Rightarrow> u64 \<Rightarrow> ipc_result" where
  "sys_channel_send cpu k handle_raw msg_ptr msg_len =
     (case copy_from_user (k_mem k) msg_ptr msg_len of
        None \<Rightarrow> err k BadPointer
      | Some msg \<Rightarrow> do {
          c \<leftarrow> lookup_channel cpu k handle_raw;
          (case c of
             None \<Rightarrow> err k NotFound
           | Some (a, e) \<Rightarrow>
               (let (r, ch) = channel_send (k_channels k a) e msg (current_task_id (k_sched k));
                    k = put_channel k a ch
                in case r of
                     Delivered receiver_id \<Rightarrow> do { k \<leftarrow> wake cpu k receiver_id; Some (0, k) }
                   | SendPending \<Rightarrow> Some (0, k)
                   | SendClosed \<Rightarrow> err k ChannelClosed)) })"

text \<open>The tail of a successful receive or call: the message goes to user memory.\<close>

definition copy_message :: "kipc \<Rightarrow> u64 \<Rightarrow> u8 list \<Rightarrow> ipc_wait" where
  "copy_message k buf_ptr msg =
     (let (ok, m) = copy_to_user (k_mem k) buf_ptr msg in
      if ok then Some (Some (i64_or (of_nat (length msg)) (- 1)), k\<lparr>k_mem := m\<rparr>)
      else Some (Some (error_code BadPointer), k))"

fun receive_loop :: "nat \<Rightarrow> interference \<Rightarrow> nat \<Rightarrow> kipc \<Rightarrow> arc \<Rightarrow> end_id \<Rightarrow> u64 \<Rightarrow> u64 \<Rightarrow> ipc_wait" where
  "receive_loop 0 others n k a e task_id buf_ptr = Some (None, k)"
| "receive_loop (Suc fuel) others n k a e task_id buf_ptr =
     (let k = others n k;
          (r, ch) = channel_receive (k_channels k a) e task_id;
          k = put_channel k a ch
      in case r of
           GotMessage msg _ \<Rightarrow> copy_message k buf_ptr msg
         | RecvBlocked \<Rightarrow> receive_loop fuel others (Suc n) k a e task_id buf_ptr
         | RecvClosed \<Rightarrow> Some (Some (error_code ChannelClosed), k))"

definition sys_channel_receive ::
  "nat \<Rightarrow> interference \<Rightarrow> nat \<Rightarrow> kipc \<Rightarrow> saved_context \<Rightarrow> u64 \<Rightarrow> u64 \<Rightarrow> u64 \<Rightarrow> ipc_wait" where
  "sys_channel_receive fuel others cpu k ctx handle_raw buf_ptr buf_len = do {
     c \<leftarrow> lookup_channel cpu k handle_raw;
     (case c of
        None \<Rightarrow> Some (Some (error_code NotFound), k)
      | Some (a, e) \<Rightarrow>
          (let task_id = current_task_id (k_sched k);
               (r, ch) = channel_receive (k_channels k a) e task_id;
               k = put_channel k a ch
           in case r of
                GotMessage msg _ \<Rightarrow> copy_message k buf_ptr msg
              | RecvClosed \<Rightarrow> Some (Some (error_code ChannelClosed), k)
              | RecvBlocked \<Rightarrow> do {
                  (switched, s) \<leftarrow> block_and_switch cpu (k_sched k) ctx;
                  let k = k\<lparr>k_sched := s\<rparr>;
                  if switched then Some (Some 0, k)
                  else do {
                    s \<leftarrow> unblock_current cpu (k_sched k);
                    receive_loop fuel others 0 (k\<lparr>k_sched := s\<rparr>) a e task_id buf_ptr } })) }"

fun call_loop :: "nat \<Rightarrow> interference \<Rightarrow> nat \<Rightarrow> kipc \<Rightarrow> arc \<Rightarrow> end_id \<Rightarrow> u64 \<Rightarrow> ipc_wait" where
  "call_loop 0 others n k a e reply_ptr = Some (None, k)"
| "call_loop (Suc fuel) others n k a e reply_ptr =
     (let (r, ch) = check_reply (k_channels k a) e;
          k = put_channel k a ch
      in case r of
           GotReply reply \<Rightarrow> copy_message k reply_ptr reply
         | CallClosed \<Rightarrow> Some (Some (error_code ChannelClosed), k)
         | CallBlocked _ \<Rightarrow> call_loop fuel others (Suc n) (others n k) a e reply_ptr)"

definition sys_channel_call ::
  "nat \<Rightarrow> interference \<Rightarrow> nat \<Rightarrow> kipc \<Rightarrow> u64 \<Rightarrow> u64 \<Rightarrow> u64 \<Rightarrow> u64 \<Rightarrow> u64 \<Rightarrow> ipc_wait" where
  "sys_channel_call fuel others cpu k handle_raw msg_ptr msg_len reply_ptr reply_len =
     (case copy_from_user (k_mem k) msg_ptr msg_len of
        None \<Rightarrow> Some (Some (error_code BadPointer), k)
      | Some msg \<Rightarrow> do {
          c \<leftarrow> lookup_channel cpu k handle_raw;
          (case c of
             None \<Rightarrow> Some (Some (error_code NotFound), k)
           | Some (a, e) \<Rightarrow>
               (let (r, ch) = channel_call (k_channels k a) e msg (current_task_id (k_sched k));
                    k = put_channel k a ch
                in case r of
                     GotReply reply \<Rightarrow> copy_message k reply_ptr reply
                   | CallBlocked _ \<Rightarrow> call_loop fuel others 0 k a e reply_ptr
                   | CallClosed \<Rightarrow> Some (Some (error_code ChannelClosed), k))) })"

definition sys_channel_reply :: "nat \<Rightarrow> kipc \<Rightarrow> u64 \<Rightarrow> u64 \<Rightarrow> u64 \<Rightarrow> ipc_result" where
  "sys_channel_reply cpu k handle_raw msg_ptr msg_len =
     (case copy_from_user (k_mem k) msg_ptr msg_len of
        None \<Rightarrow> err k BadPointer
      | Some msg \<Rightarrow> do {
          c \<leftarrow> lookup_channel cpu k handle_raw;
          (case c of
             None \<Rightarrow> err k NotFound
           | Some (a, e) \<Rightarrow>
               (let (r, ch) = channel_reply (k_channels k a) e msg;
                    k = put_channel k a ch
                in case r of
                     Unblocked caller_id \<Rightarrow> do { k \<leftarrow> wake cpu k caller_id; Some (0, k) }
                   | ReplyStored \<Rightarrow> Some (0, k))) })"

subsection \<open>Handles\<close>

definition close_handle :: "u64 \<Rightarrow> task \<Rightarrow> bool \<times> task" where
  "close_handle handle_raw t =
     (let (b, tab) = ht_close (t_handle_table t) (handle_from_raw handle_raw) in (b, t\<lparr>t_handle_table := tab\<rparr>))"

definition sys_handle_close :: "nat \<Rightarrow> kipc \<Rightarrow> u64 \<Rightarrow> ipc_result" where
  "sys_handle_close cpu k handle_raw = do {
     (r, k) \<leftarrow> cur_mut cpu k (close_handle handle_raw);
     (if r = Some True then Some (0, k) else err k NotFound) }"

definition sys_handle_duplicate :: "nat \<Rightarrow> kipc \<Rightarrow> u64 \<Rightarrow> u64 \<Rightarrow> ipc_result" where
  "sys_handle_duplicate cpu k handle_raw new_rights = do {
     (r, k) \<leftarrow> cur_mut_p cpu k (\<lambda>t. do {
        (h, tab) \<leftarrow> ht_duplicate (t_handle_table t) (handle_from_raw handle_raw) (rights_from_raw (ucast new_rights));
        Some (h, t\<lparr>t_handle_table := tab\<rparr>) });
     (case r of
        Some (Some h) \<Rightarrow> Some (sint (as_u64 h), k)
      | Some None \<Rightarrow> err k PermissionDenied
      | None \<Rightarrow> err k NotFound) }"

definition sys_handle_transfer :: "nat \<Rightarrow> kipc \<Rightarrow> u64 \<Rightarrow> u64 \<Rightarrow> u64 \<Rightarrow> ipc_result" where
  "sys_handle_transfer cpu k handle_raw channel_raw rights = do {
     c \<leftarrow> lookup_channel cpu k channel_raw;
     (case c of
        None \<Rightarrow> err k NotFound
      | Some (a, _) \<Rightarrow> do {
          (removed, k) \<leftarrow> cur_mut cpu k (close_handle handle_raw);
          if removed \<noteq> Some True then err k NotFound
          else let (ok, ch) = push_handle (k_channels k a) handle_raw;
                   k = put_channel k a ch
               in if \<not> ok then err k ChannelClosed else Some (0, k) }) }"

subsection \<open>Events and interrupts\<close>

definition sys_event_create :: "nat \<Rightarrow> kipc \<Rightarrow> ipc_result" where
  "sys_event_create cpu k = do {
     let a = k_next_event k;
     let k = k\<lparr>k_events := (k_events k)(a := event_new), k_next_event := a + 1\<rparr>;
     (result, k) \<leftarrow> cur_mut_p cpu k (\<lambda>t. do {
        (h, tab) \<leftarrow> ht_insert (t_handle_table t) (EventObj a) RIGHTS_ALL;
        Some (as_u64 h, t\<lparr>t_handle_table := tab\<rparr>) });
     (case result of Some i \<Rightarrow> Some (sint i, k) | None \<Rightarrow> err k NotFound) }"

definition sys_event_signal :: "nat \<Rightarrow> kipc \<Rightarrow> u64 \<Rightarrow> ipc_result" where
  "sys_event_signal cpu k handle_raw = do {
     r \<leftarrow> lookup_object cpu k handle_raw;
     (case r of
        Some (EventObj a) \<Rightarrow> Some (0, k\<lparr>k_events := (k_events k)(a := event_signal (k_events k a))\<rparr>)
      | _ \<Rightarrow> err k NotFound) }"

fun event_loop :: "nat \<Rightarrow> interference \<Rightarrow> nat \<Rightarrow> kipc \<Rightarrow> arc \<Rightarrow> ipc_wait" where
  "event_loop 0 others n k a = Some (None, k)"
| "event_loop (Suc fuel) others n k a =
     (let k = others n k in
      if event_is_signaled (k_events k a)
      then Some (Some 0, k\<lparr>k_events := (k_events k)(a := event_clear (k_events k a))\<rparr>)
      else event_loop fuel others (Suc n) k a)"

definition sys_event_wait :: "nat \<Rightarrow> interference \<Rightarrow> nat \<Rightarrow> kipc \<Rightarrow> u64 \<Rightarrow> ipc_wait" where
  "sys_event_wait fuel others cpu k handle_raw = do {
     r \<leftarrow> lookup_object cpu k handle_raw;
     (case r of
        Some (EventObj a) \<Rightarrow>
          if event_is_signaled (k_events k a)
          then Some (Some 0, k\<lparr>k_events := (k_events k)(a := event_clear (k_events k a))\<rparr>)
          else event_loop fuel others 0 k a
      | _ \<Rightarrow> Some (Some (error_code NotFound), k)) }"

definition sys_event_destroy :: "nat \<Rightarrow> kipc \<Rightarrow> u64 \<Rightarrow> ipc_result" where
  "sys_event_destroy cpu k handle_raw = do {
     (r, k) \<leftarrow> cur_mut cpu k (close_handle handle_raw);
     (if r = Some True then Some (0, k) else err k NotFound) }"

fun irq_loop :: "nat \<Rightarrow> interference \<Rightarrow> nat \<Rightarrow> kipc \<Rightarrow> arc \<Rightarrow> ipc_wait" where
  "irq_loop 0 others n k a = Some (None, k)"
| "irq_loop (Suc fuel) others n k a =
     (let k = others n k in
      if irq_event_is_signaled (k_irqs k a)
      then Some (Some (uint (irq_last_data (k_irqs k a))), k\<lparr>k_irqs := (k_irqs k)(a := irq_event_clear (k_irqs k a))\<rparr>)
      else irq_loop fuel others (Suc n) k a)"

definition sys_irq_wait :: "nat \<Rightarrow> interference \<Rightarrow> nat \<Rightarrow> kipc \<Rightarrow> u64 \<Rightarrow> u64 \<Rightarrow> ipc_wait" where
  "sys_irq_wait fuel others cpu k handle_raw blocking = do {
     r \<leftarrow> lookup_object cpu k handle_raw;
     (case r of
        Some (IrqEventObj a) \<Rightarrow>
          if irq_event_is_signaled (k_irqs k a)
          then Some (Some (uint (irq_last_data (k_irqs k a))), k\<lparr>k_irqs := (k_irqs k)(a := irq_event_clear (k_irqs k a))\<rparr>)
          else if blocking = 0 then Some (Some (error_code WouldBlock), k)
          else irq_loop fuel others 0 k a
      | _ \<Rightarrow> Some (Some (error_code NotFound), k)) }"

subsection \<open>Endpoints\<close>

definition sys_endpoint_register :: "nat \<Rightarrow> kipc \<Rightarrow> u64 \<Rightarrow> u64 \<Rightarrow> u64 \<Rightarrow> ipc_result" where
  "sys_endpoint_register cpu k name_ptr name_len handle_raw =
     (case copy_from_user (k_mem k) name_ptr name_len of
        None \<Rightarrow> err k BadPointer
      | Some name \<Rightarrow>
          if \<not> utf8_ok name then err k InvalidArgument
          else do {
            (result, k) \<leftarrow> cur_mut cpu k (\<lambda>t. ((), t\<lparr>t_namespace := bt_insert name (handle_from_raw handle_raw) (t_namespace t)\<rparr>));
            (case result of Some _ \<Rightarrow> Some (0, k) | None \<Rightarrow> err k NotFound) })"

definition sys_endpoint_discover :: "nat \<Rightarrow> kipc \<Rightarrow> u64 \<Rightarrow> u64 \<Rightarrow> int panics" where
  "sys_endpoint_discover cpu k name_ptr name_len =
     (case copy_from_user (k_mem k) name_ptr name_len of
        None \<Rightarrow> Some (error_code BadPointer)
      | Some name \<Rightarrow>
          if \<not> utf8_ok name then Some (error_code InvalidArgument)
          else do {
            result \<leftarrow> with_current_task cpu (k_sched k) (\<lambda>t. bt_get (t_namespace t) name);
            (case result of Some (Some h) \<Rightarrow> Some (sint (as_u64 h)) | _ \<Rightarrow> Some (error_code NotFound)) })"

subsection \<open>Sleeping\<close>

text \<open>\<open>ticks n\<close> is the tick count that round \<open>n\<close> reads; \<open>True\<close>: the target is reached.\<close>

fun sleep_until_tick :: "nat \<Rightarrow> (nat \<Rightarrow> u64) \<Rightarrow> nat \<Rightarrow> nat \<Rightarrow> saved_context \<Rightarrow> u64 \<Rightarrow> sched \<Rightarrow> (bool \<times> sched) panics" where
  "sleep_until_tick 0 ticks n cpu ctx target_tick s = Some (False, s)"
| "sleep_until_tick (Suc fuel) ticks n cpu ctx target_tick s =
     (if ticks n \<ge> target_tick then Some (True, s)
      else do {
        (switched, s) \<leftarrow> block_and_switch cpu s ctx;
        sleep_until_tick fuel ticks (Suc n) cpu ctx target_tick s })"

definition sys_sleep :: "nat \<Rightarrow> (nat \<Rightarrow> u64) \<Rightarrow> nat \<Rightarrow> kipc \<Rightarrow> saved_context \<Rightarrow> u64 \<Rightarrow> ipc_wait" where
  "sys_sleep fuel ticks cpu k ctx n = do {
     let start = ticks 0;
     target \<leftarrow> add_c start n;
     (reached, s) \<leftarrow> sleep_until_tick fuel ticks 1 cpu ctx target (k_sched k);
     Some (if reached then Some 0 else None, k\<lparr>k_sched := s\<rparr>) }"

end
