(* ===== verification/Syscall_Ipc_Props.thy ===== *)
theory Syscall_Ipc_Props
  imports Syscall_Ipc Syscall_File_Props
begin

text \<open>
  Properties of the system calls on channels: what a message does between the memories of two tasks, and a call that leaves its
  server blocked.
\<close>

subsection \<open>Messages between tasks\<close>

lemma copy_from_user_small: "copy_from_user m p n = Some msg \<Longrightarrow> msg \<noteq> [] \<and> length msg = unat n \<and> length msg \<le> MAX_MSG_SIZE"
  using copy_from_user_Some(2) [of m p n msg]
  by (auto simp: copy_from_user_def SYS_MAX_MSG_SIZE_def MAX_MSG_SIZE_def word_unat_eq_iff split: if_splits)

lemma send_open:
  assumes "\<not> end_closed (own_end ch e)" and "\<not> end_closed (own_end ch (peer e))" and "length msg \<le> MAX_MSG_SIZE"
  shows "fst (channel_send ch e msg t) \<noteq> SendClosed" and "pending_msg (own_end (snd (channel_send ch e msg t)) (peer e)) = Some msg"
    and "\<not> end_closed (own_end (snd (channel_send ch e msg t)) (peer e))"
  using assms by (auto simp: channel_send_def ends_mut_own split: option.splits)

lemma receive_pending:
  assumes "\<not> end_closed (own_end ch e)" and "pending_msg (own_end ch e) = Some msg"
  shows "\<exists>sender. fst (channel_receive ch e t) = GotMessage msg sender"
  using assms by (simp add: channel_receive_def ends_mut_own)

lemma sys_channel_send_ok:
  assumes inv: "kernel_inv k" "cpu < MAX_CPUS" and msg: "copy_from_user (k_mem k) p n = Some msg"
    and c: "lookup_channel cpu k h = Some (Some (a, e))"
    and "\<not> end_closed (own_end (k_channels k a) e)" "\<not> end_closed (own_end (k_channels k a) (peer e))"
  obtains k1 where "sys_channel_send cpu k h p n = Some (0, k1)"
    and "k_channels k1 a = snd (channel_send (k_channels k a) e msg (current_task_id (k_sched k)))"
proof -
  obtain r ch where s: "channel_send (k_channels k a) e msg (current_task_id (k_sched k)) = (r, ch)" by fastforce
  have open': "r \<noteq> SendClosed" using send_open(1) [OF assms(5,6), of msg "current_task_id (k_sched k)"] copy_from_user_small [OF msg] s by simp
  show ?thesis
  proof (cases r)
    case (Delivered receiver)
    obtain s' where "wake_task_by_id cpu (k_sched k) receiver = Some s'"
      using wake_task_ok [of "k_sched k" cpu receiver] inv by (auto simp: kernel_inv_def)
    then show ?thesis using Delivered s msg c
      by (intro that [of "(put_channel k a ch)\<lparr>k_sched := s'\<rparr>"]) (simp_all add: sys_channel_send_def put_channel_def wake_def)
  next
    case SendPending
    then show ?thesis using s msg c
      by (intro that [of "put_channel k a ch"]) (simp_all add: sys_channel_send_def put_channel_def)
  qed (use open' in simp)
qed

text \<open>C8: A message passes through the kernel unchanged: when the send call succeeds, the next receive on the other end of the
  channel, by whatever task, on whatever CPU and after whatever else happened to the rest of the kernel, stores exactly the sent
  bytes in the receiver's buffer and returns their number.\<close>

theorem ipc_send_receive:
  assumes "kernel_inv k" and "cpu < MAX_CPUS" and "copy_from_user (k_mem k) p n = Some msg"
    and "lookup_channel cpu k h = Some (Some (a, e))"
    and "\<not> end_closed (own_end (k_channels k a) e)" and "\<not> end_closed (own_end (k_channels k a) (peer e))"
  shows "\<exists>k1. sys_channel_send cpu k h p n = Some (0, k1) \<and>
    (\<forall>cpu2 k2 h2 buf m2 ctx fuel others m'. k_channels k2 a = k_channels k1 a \<longrightarrow> lookup_channel cpu2 k2 h2 = Some (Some (a, peer e)) \<longrightarrow>
       copy_to_user (k_mem k2) buf msg = (True, m') \<longrightarrow>
       (\<exists>k3. sys_channel_receive fuel others cpu2 k2 ctx h2 buf m2 = Some (Some (int (unat n)), k3) \<and>
          read_bytes (k_mem k3) buf (unat n) = msg))"
proof -
  note small = copy_from_user_small [OF assms(3)]
  from sys_channel_send_ok [OF assms] obtain k1 where k1: "sys_channel_send cpu k h p n = Some (0, k1)"
    "k_channels k1 a = snd (channel_send (k_channels k a) e msg (current_task_id (k_sched k)))" by blast
  have ch: "\<not> end_closed (own_end (k_channels k1 a) (peer e))" "pending_msg (own_end (k_channels k1 a) (peer e)) = Some msg"
    using send_open [OF assms(5,6)] small unfolding k1(2) by simp_all
  have "\<exists>k3. sys_channel_receive fuel others cpu2 k2 ctx h2 buf m2 = Some (Some (int (unat n)), k3) \<and> read_bytes (k_mem k3) buf (unat n) = msg"
    if same: "k_channels k2 a = k_channels k1 a" and look: "lookup_channel cpu2 k2 h2 = Some (Some (a, peer e))"
      and out: "copy_to_user (k_mem k2) buf msg = (True, m')" for cpu2 k2 h2 buf m2 ctx fuel others m'
  proof -
    obtain sender c where "channel_receive (k_channels k2 a) (peer e) (current_task_id (k_sched k2)) = (GotMessage msg sender, c)"
      using receive_pending [OF ch, of "current_task_id (k_sched k2)"] same by (metis prod.collapse)
    moreover have "read_bytes m' buf (unat n) = msg"
      using copy_to_user_True(1) [OF out] read_write_bytes [of msg "k_mem k2" buf] small by (simp add: MAX_MSG_SIZE_def)
    moreover have "i64_or (of_nat (length msg)) (- 1) = int (unat n)"
    proof -
      have "of_nat (length msg) = n" using small by simp
      then show ?thesis using small by (simp add: i64_or_def MAX_MSG_SIZE_def word_less_nat_alt)
    qed
    ultimately show ?thesis using look out by (simp add: sys_channel_receive_def copy_message_def put_channel_def)
  qed
  then show ?thesis using k1(1) by blast
qed

lemma tame_p_channel: "tame_p (channel_task a)"
  unfolding tame_p_def channel_task_def
  by (auto simp: bind_eq_Some_conv intro!: live_handles ht_insert_inv [OF ht_insert_inv [OF live_ht]])

text \<open>A task that holds both ends of a new channel, and three bytes in its memory.\<close>

definition demo_ipc :: kipc where
  "demo_ipc = \<lparr>k_sched = duo, k_mem = write_bytes (\<lambda>_. 0) 0x1000 (str ''abc''), k_channels = (\<lambda>_. channel_new), k_next_channel = 0,
     k_events = (\<lambda>_. event_new), k_next_event = 0, k_irqs = (\<lambda>_. irq_event_new 0)\<rparr>"

lemma demo_ipc_running: "running 0 demo_ipc (task_new 0 (str ''a'') 5)"
  using demo_running by (simp add: running_def demo_ipc_def demo_kernel_def)

lemma ht_insert_two:
  assumes "unat (next_slot t) < 2 ^ 28 - 1"
  obtains h1 t1 h2 t2 where "ht_insert t o1 r1 = Some (h1, t1)" "ht_insert t1 o2 r2 = Some (h2, t2)"
    "ht_get t2 h1 = Some o1" "ht_get t2 h2 = Some o2"
proof -
  let ?t1 = "ht_put t o1 r1 (next_slot t + 1)" and ?h1 = "handle_new (next_slot t) r1 (ht_generation t AND 0x03FFFFFF)"
  have n: "unat (next_slot t) < 2 ^ 28" using assms by simp
  have nx: "next_slot ?t1 = next_slot t + 1" by (simp add: ht_put_def)
  have n1: "unat (next_slot ?t1) < 2 ^ 28" using assms unfolding nx by (simp add: unat_word_ariths)
  have slot: "slot_id ?h1 = next_slot t" using n by (simp add: slot_id_new and_mask28_small word_less_nat_alt)
  have "ht_get (ht_put ?t1 o2 r2 (next_slot ?t1 + 1)) ?h1 = Some o1"
    using ht_get_put_other [of ?h1 ?t1] ht_get_put_new [OF n, of o1 r1] slot by (simp add: nx)
  moreover have "ht_insert t o1 r1 = Some (?h1, ?t1)" by (simp add: ht_insert_put add_c_one_ok [OF n])
  moreover have "ht_insert ?t1 o2 r2 = Some (handle_new (next_slot ?t1) r2 (ht_generation ?t1 AND 0x03FFFFFF), ht_put ?t1 o2 r2 (next_slot ?t1 + 1))"
    by (simp only: ht_insert_put add_c_one_ok [OF n1] option.map)
  ultimately show ?thesis using ht_get_put_new [OF n1] that by blast
qed

lemma demo_channel:
  obtains k h1 h2 where "sys_channel_create 0 demo_ipc = Some (sint h1, k)" "kernel_inv k"
    "lookup_channel 0 k h1 = Some (Some (0, EndA))" "lookup_channel 0 k h2 = Some (Some (0, EndB))"
    "k_channels k 0 = channel_new" "k_mem k = k_mem demo_ipc"
proof -
  let ?t = "task_new 0 (str ''a'') 5" and ?k0 = "(put_channel demo_ipc 0 channel_new)\<lparr>k_next_channel := 1\<rparr>"
  have tab: "unat (next_slot (t_handle_table ?t)) < 2 ^ 28 - 1" by (simp add: task_new_def handle_table_new_def)
  obtain h1 tab1 h2 tab2 where i: "ht_insert (t_handle_table ?t) (ChannelEndA 0) RIGHTS_ALL = Some (h1, tab1)"
    "ht_insert tab1 (ChannelEndB 0) RIGHTS_ALL = Some (h2, tab2)" "ht_get tab2 h1 = Some (ChannelEndA 0)" "ht_get tab2 h2 = Some (ChannelEndB 0)"
    by (rule ht_insert_two [OF tab])
  have f: "channel_task 0 ?t = Some (as_u64 h1, ?t\<lparr>t_handle_table := tab2\<rparr>)" using i by (simp add: channel_task_def)
  have id: "\<forall>t x u. channel_task 0 t = Some (x, u) \<longrightarrow> t_id u = t_id t" using tame_p_channel by (simp add: tame_p_def)
  have r: "running 0 ?k0 ?t" using demo_ipc_running by (simp add: running_def put_channel_def)
  from running_mut_p [OF r id f] obtain s where
    s: "cur_mut_p 0 ?k0 (channel_task 0) = Some (Some (as_u64 h1), ?k0\<lparr>k_sched := s\<rparr>)" "running 0 (?k0\<lparr>k_sched := s\<rparr>) (?t\<lparr>t_handle_table := tab2\<rparr>)" .
  have "kernel_inv ?k0" using duo_inv duo_live by (simp add: kernel_inv_def put_channel_def demo_ipc_def)
  then have "kernel_inv (?k0\<lparr>k_sched := s\<rparr>)"
    using safeD [OF cur_mut_p_safe [OF _ tame_p_channel] s(1)] by (simp add: good_def MAX_CPUS_def)
  moreover have "lookup_object 0 (?k0\<lparr>k_sched := s\<rparr>) (as_u64 h) = Some (ht_get tab2 h)" for h
    using running_lookup [OF s(2), of "\<lambda>t. ht_get (t_handle_table t) h"] by (simp add: lookup_object_def handle_from_raw_def)
  ultimately show ?thesis using s(1) i(3,4)
    by (intro that [of "as_u64 h1" "?k0\<lparr>k_sched := s\<rparr>" "as_u64 h2"]) (simp_all add: sys_channel_create_def lookup_channel_def put_channel_def demo_ipc_def)
qed

theorem ipc_send_receive_witness:
  "\<exists>k h1 h2 k1 k3. sys_channel_create 0 demo_ipc = Some (sint h1, k) \<and> sys_channel_send 0 k h1 0x1000 3 = Some (0, k1) \<and>
     sys_channel_receive 0 (\<lambda>_ k. k) 0 (k\<lparr>k_channels := k_channels k1\<rparr>) saved_context_new h2 0x2000 16 = Some (Some 3, k3) \<and>
     read_bytes (k_mem k3) 0x2000 3 = str ''abc''"
proof -
  obtain k h1 h2 where k: "sys_channel_create 0 demo_ipc = Some (sint h1, k)" "kernel_inv k"
    "lookup_channel 0 k h1 = Some (Some (0, EndA))" "lookup_channel 0 k h2 = Some (Some (0, EndB))"
    "k_channels k 0 = channel_new" "k_mem k = k_mem demo_ipc" by (rule demo_channel)
  have mem: "copy_from_user (k_mem k) 0x1000 3 = Some (str ''abc'')" using demo_abc(1) k(6) by (simp add: demo_ipc_def)
  have fresh: "\<not> end_closed (own_end (k_channels k 0) e)" for e using k(5) by (cases e) (simp_all add: channel_new_def own_end_def end_new_def)
  obtain m' where out: "copy_to_user (k_mem k) 0x2000 (str ''abc'') = (True, m')" using demo_abc(2) by blast
  have cpu: "(0 :: nat) < MAX_CPUS" by (simp add: MAX_CPUS_def)
  from ipc_send_receive [OF k(2) cpu mem k(3) fresh fresh] obtain k1 where s: "sys_channel_send 0 k h1 0x1000 3 = Some (0, k1)"
    and r: "\<And>cpu2 k2 h2 buf m2 ctx fuel others m'. k_channels k2 0 = k_channels k1 0 \<Longrightarrow> lookup_channel cpu2 k2 h2 = Some (Some (0, peer EndA)) \<Longrightarrow>
       copy_to_user (k_mem k2) buf (str ''abc'') = (True, m') \<Longrightarrow>
       \<exists>k3. sys_channel_receive fuel others cpu2 k2 ctx h2 buf m2 = Some (Some (int (unat (3 :: u64))), k3) \<and> read_bytes (k_mem k3) buf (unat (3 :: u64)) = str ''abc''"
    by blast
  have "lookup_channel 0 (k\<lparr>k_channels := k_channels k1\<rparr>) h2 = Some (Some (0, peer EndA))"
    using k(4) by (simp add: lookup_channel_def lookup_object_def)
  from r [OF _ this, of "0x2000" m' 0 "\<lambda>_ k. k" saved_context_new 16] out k(1) s show ?thesis by auto
qed



end
