(* ===== verification/Net_Packet.thy ===== *)
theory Net_Packet
  imports BTree_Map
begin

text \<open>
  Packets of the network stack, \<open>kernel/src/net/mod.rs\<close>: big-endian fields, the Internet checksum, and the
  parsers and builders for Ethernet, ARP, IPv4 and ICMP. A MAC address \<open>[u8; 6]\<close> is a byte list. Parsers return
  an option inside \<open>panics\<close>: every index is checked, and it is proved that none is out of range.
\<close>

type_synonym mac = "u8 list"

abbreviation (input) ETHERNET_HEADER_SIZE :: nat where "ETHERNET_HEADER_SIZE \<equiv> 14"
abbreviation (input) ETHERTYPE_ARP :: u16 where "ETHERTYPE_ARP \<equiv> 0x0806"
abbreviation (input) ETHERTYPE_IPV4 :: u16 where "ETHERTYPE_IPV4 \<equiv> 0x0800"
abbreviation (input) ETHERTYPE_IPV6 :: u16 where "ETHERTYPE_IPV6 \<equiv> 0x86DD"
abbreviation (input) BROADCAST_MAC :: mac where "BROADCAST_MAC \<equiv> [0xFF, 0xFF, 0xFF, 0xFF, 0xFF, 0xFF]"
abbreviation (input) ZERO_MAC :: mac where "ZERO_MAC \<equiv> [0, 0, 0, 0, 0, 0]"
abbreviation (input) ARP_HW_TYPE_ETHERNET :: u16 where "ARP_HW_TYPE_ETHERNET \<equiv> 1"
abbreviation (input) ARP_PROTO_TYPE_IPV4 :: u16 where "ARP_PROTO_TYPE_IPV4 \<equiv> 0x0800"
abbreviation (input) ARP_HW_LEN :: u8 where "ARP_HW_LEN \<equiv> 6"
abbreviation (input) ARP_PROTO_LEN :: u8 where "ARP_PROTO_LEN \<equiv> 4"
abbreviation (input) ARP_OP_REQUEST :: u16 where "ARP_OP_REQUEST \<equiv> 1"
abbreviation (input) ARP_OP_REPLY :: u16 where "ARP_OP_REPLY \<equiv> 2"
abbreviation (input) ARP_HEADER_SIZE :: nat where "ARP_HEADER_SIZE \<equiv> 28"
abbreviation (input) ICMP_TYPE_ECHO_REQUEST :: u8 where "ICMP_TYPE_ECHO_REQUEST \<equiv> 8"
abbreviation (input) ICMP_TYPE_ECHO_REPLY :: u8 where "ICMP_TYPE_ECHO_REPLY \<equiv> 0"
abbreviation (input) ICMP_CODE_ZERO :: u8 where "ICMP_CODE_ZERO \<equiv> 0"
abbreviation (input) ICMP_HEADER_SIZE :: nat where "ICMP_HEADER_SIZE \<equiv> 8"
abbreviation (input) IP_PROTO_ICMP :: u8 where "IP_PROTO_ICMP \<equiv> 1"
abbreviation (input) IP_PROTO_TCP :: u8 where "IP_PROTO_TCP \<equiv> 6"
abbreviation (input) IP_PROTO_UDP :: u8 where "IP_PROTO_UDP \<equiv> 17"
abbreviation (input) IP_HEADER_MIN_SIZE :: nat where "IP_HEADER_MIN_SIZE \<equiv> 20"
abbreviation (input) IP_DEFAULT_TTL :: u8 where "IP_DEFAULT_TTL \<equiv> 64"
abbreviation (input) IP_VERSION_4 :: u8 where "IP_VERSION_4 \<equiv> 4"
abbreviation (input) IP_IHL_NO_OPTIONS :: u8 where "IP_IHL_NO_OPTIONS \<equiv> 5"

subsection \<open>Big-endian fields\<close>

definition to_be16 :: "u16 \<Rightarrow> u8 list" where
  "to_be16 w = [ucast (drop_bit 8 w), ucast w]"

definition to_be32 :: "u32 \<Rightarrow> u8 list" where
  "to_be32 w = [ucast (drop_bit 24 w), ucast (drop_bit 16 w), ucast (drop_bit 8 w), ucast w]"

definition from_be16 :: "u8 \<Rightarrow> u8 \<Rightarrow> u16" where
  "from_be16 a b = push_bit 8 (ucast a) OR ucast b"

definition from_be32 :: "u8 \<Rightarrow> u8 \<Rightarrow> u8 \<Rightarrow> u8 \<Rightarrow> u32" where
  "from_be32 a b c d = push_bit 24 (ucast a) OR push_bit 16 (ucast b) OR push_bit 8 (ucast c) OR ucast d"

definition read_u16_be :: "u8 list \<Rightarrow> nat \<Rightarrow> u16 panics" where
  "read_u16_be data off = do { a \<leftarrow> at_p data off; b \<leftarrow> at_p data (off + 1); Some (from_be16 a b) }"

definition read_u32_be :: "u8 list \<Rightarrow> nat \<Rightarrow> u32 panics" where
  "read_u32_be data off = do {
     a \<leftarrow> at_p data off; b \<leftarrow> at_p data (off + 1); c \<leftarrow> at_p data (off + 2); d \<leftarrow> at_p data (off + 3);
     Some (from_be32 a b c d) }"

definition write_u16_be :: "nat \<Rightarrow> u16 \<Rightarrow> u8 list \<Rightarrow> u8 list panics" where
  "write_u16_be off v buf = put_slice off (to_be16 v) buf"

definition write_u32_be :: "nat \<Rightarrow> u32 \<Rightarrow> u8 list \<Rightarrow> u8 list panics" where
  "write_u32_be off v buf = put_slice off (to_be32 v) buf"

subsection \<open>Ethernet\<close>

record ethernet_header =
  eh_dst_mac :: mac
  eh_src_mac :: mac
  eh_ethertype :: u16

definition parse_ethernet :: "u8 list \<Rightarrow> (ethernet_header \<times> u8 list) option panics" where
  "parse_ethernet data =
     (if length data < ETHERNET_HEADER_SIZE then Some None
      else do {
        dst \<leftarrow> slice_p data 0 6;
        src \<leftarrow> slice_p data 6 12;
        ethertype \<leftarrow> read_u16_be data 12;
        Some (Some (\<lparr>eh_dst_mac = dst, eh_src_mac = src, eh_ethertype = ethertype\<rparr>, drop ETHERNET_HEADER_SIZE data)) })"

definition build_ethernet :: "mac \<Rightarrow> mac \<Rightarrow> u16 \<Rightarrow> u8 list \<Rightarrow> u8 list panics" where
  "build_ethernet dst src ethertype payload = do {
     let frame = replicate (ETHERNET_HEADER_SIZE + length payload) 0;
     frame \<leftarrow> put_slice 0 dst frame;
     frame \<leftarrow> put_slice 6 src frame;
     frame \<leftarrow> write_u16_be 12 ethertype frame;
     put_slice ETHERNET_HEADER_SIZE payload frame }"

subsection \<open>ARP\<close>

record arp_header =
  ah_hw_type :: u16
  ah_proto_type :: u16
  ah_hw_len :: u8
  ah_proto_len :: u8
  ah_opcode :: u16
  ah_sender_mac :: mac
  ah_sender_ip :: u32
  ah_target_mac :: mac
  ah_target_ip :: u32

definition parse_arp :: "u8 list \<Rightarrow> arp_header option panics" where
  "parse_arp data =
     (if length data < ARP_HEADER_SIZE then Some None
      else do {
        hw_type \<leftarrow> read_u16_be data 0;
        proto_type \<leftarrow> read_u16_be data 2;
        hw_len \<leftarrow> at_p data 4;
        proto_len \<leftarrow> at_p data 5;
        opcode \<leftarrow> read_u16_be data 6;
        if hw_type \<noteq> ARP_HW_TYPE_ETHERNET \<or> proto_type \<noteq> ARP_PROTO_TYPE_IPV4 \<or> hw_len \<noteq> ARP_HW_LEN \<or> proto_len \<noteq> ARP_PROTO_LEN
        then Some None
        else do {
          sender_mac \<leftarrow> slice_p data 8 14;
          sender_ip \<leftarrow> read_u32_be data 14;
          target_mac \<leftarrow> slice_p data 18 24;
          target_ip \<leftarrow> read_u32_be data 24;
          Some (Some \<lparr>ah_hw_type = hw_type, ah_proto_type = proto_type, ah_hw_len = hw_len, ah_proto_len = proto_len,
            ah_opcode = opcode, ah_sender_mac = sender_mac, ah_sender_ip = sender_ip, ah_target_mac = target_mac,
            ah_target_ip = target_ip\<rparr>) } })"

text \<open>The bytes that a reply and a request have in common.\<close>

definition build_arp :: "u16 \<Rightarrow> mac \<Rightarrow> u32 \<Rightarrow> mac \<Rightarrow> u32 \<Rightarrow> u8 list panics" where
  "build_arp opcode sender_mac sender_ip target_mac target_ip = do {
     let buf = replicate ARP_HEADER_SIZE 0;
     buf \<leftarrow> write_u16_be 0 ARP_HW_TYPE_ETHERNET buf;
     buf \<leftarrow> write_u16_be 2 ARP_PROTO_TYPE_IPV4 buf;
     buf \<leftarrow> put_slice 4 [ARP_HW_LEN] buf;
     buf \<leftarrow> put_slice 5 [ARP_PROTO_LEN] buf;
     buf \<leftarrow> write_u16_be 6 opcode buf;
     buf \<leftarrow> put_slice 8 sender_mac buf;
     buf \<leftarrow> write_u32_be 14 sender_ip buf;
     buf \<leftarrow> put_slice 18 target_mac buf;
     write_u32_be 24 target_ip buf }"

definition build_arp_reply :: "mac \<Rightarrow> u32 \<Rightarrow> mac \<Rightarrow> u32 \<Rightarrow> u8 list panics" where
  "build_arp_reply sender_mac sender_ip target_mac target_ip = build_arp ARP_OP_REPLY sender_mac sender_ip target_mac target_ip"

definition build_arp_request :: "mac \<Rightarrow> u32 \<Rightarrow> u32 \<Rightarrow> u8 list panics" where
  "build_arp_request sender_mac sender_ip target_ip = build_arp ARP_OP_REQUEST sender_mac sender_ip ZERO_MAC target_ip"

subsection \<open>IPv4 and ICMP\<close>

record ipv4_header =
  ip_protocol :: u8
  ip_src :: u32
  ip_dst :: u32
  ip_total_len :: u16
  ip_header_len :: nat

definition parse_ipv4 :: "u8 list \<Rightarrow> ipv4_header option panics" where
  "parse_ipv4 data =
     (if length data < IP_HEADER_MIN_SIZE then Some None
      else do {
        version_ihl \<leftarrow> at_p data 0;
        let version = drop_bit 4 version_ihl;
        let ihl = version_ihl AND 0x0F;
        if version \<noteq> IP_VERSION_4 \<or> ihl < IP_IHL_NO_OPTIONS then Some None
        else let header_len = unat ihl * 4 in
          if length data < header_len then Some None
          else do {
            total_len \<leftarrow> read_u16_be data 2;
            protocol \<leftarrow> at_p data 9;
            src_ip \<leftarrow> read_u32_be data 12;
            dst_ip \<leftarrow> read_u32_be data 16;
            Some (Some \<lparr>ip_protocol = protocol, ip_src = src_ip, ip_dst = dst_ip, ip_total_len = total_len,
              ip_header_len = header_len\<rparr>) } })"

record icmp_header =
  ic_msg_type :: u8
  ic_code :: u8
  ic_checksum :: u16
  ic_id :: u16
  ic_seq :: u16

definition parse_icmp :: "u8 list \<Rightarrow> icmp_header option panics" where
  "parse_icmp data =
     (if length data < ICMP_HEADER_SIZE then Some None
      else do {
        msg_type \<leftarrow> at_p data 0;
        code \<leftarrow> at_p data 1;
        checksum \<leftarrow> read_u16_be data 2;
        ident \<leftarrow> read_u16_be data 4;
        sequence \<leftarrow> read_u16_be data 6;
        Some (Some \<lparr>ic_msg_type = msg_type, ic_code = code, ic_checksum = checksum, ic_id = ident, ic_seq = sequence\<rparr>) })"

text \<open>The two loops of \<open>internet_checksum\<close>: the sum of the 16-bit words in a \<open>u32\<close>, whose overflow panics, and the folding of the
  carries.\<close>

fun sum_words :: "u8 list \<Rightarrow> u32 \<Rightarrow> u32 panics" where
  "sum_words (a # b # data) s = do { s \<leftarrow> add_c s (ucast (from_be16 a b)); sum_words data s }"
| "sum_words [a] s = add_c s (push_bit 8 (ucast a))"
| "sum_words [] s = Some s"

lemma fold_step_unat: "unat ((s AND 0xFFFF) + drop_bit 16 s) = unat s mod 65536 + unat s div 65536" for s :: u32
proof -
  have m: "(0xFFFF :: u32) = mask 16" by (simp add: mask_eq_exp_minus_1)
  have lo: "unat (s AND 0xFFFF) = unat s mod 65536"
    unfolding m take_bit_eq_mask [symmetric] by (simp add: take_bit_eq_mod unat_mod)
  have hi: "unat (drop_bit 16 s) = unat s div 65536" by (simp add: drop_bit_eq_div unat_div)
  have "unat s < 2 ^ 32" using unsigned_less [of s] by simp
  then have "unat s mod 65536 + unat s div 65536 < 2 ^ 32" by simp
  then show ?thesis using lo hi by (simp add: unat_word_ariths)
qed

lemma drop16_eq_0: "drop_bit 16 s = 0 \<longleftrightarrow> unat s < 65536" for s :: u32
  by (simp add: word_unat_eq_iff drop_bit_eq_div unat_div div_eq_0_iff)

function fold_sum :: "u32 \<Rightarrow> u32" where
  "fold_sum s = (if drop_bit 16 s \<noteq> 0 then fold_sum ((s AND 0xFFFF) + drop_bit 16 s) else s)"
  by pat_completeness auto
termination
proof (relation "measure unat")
  fix s :: u32 assume "drop_bit 16 s \<noteq> 0"
  then have "65536 \<le> unat s" by (simp add: drop16_eq_0)
  then have "unat s mod 65536 + unat s div 65536 < unat s"
    using div_mult_mod_eq [of "unat s" 65536] by (cases "unat s div 65536") auto
  then show "((s AND 0xFFFF) + drop_bit 16 s, s) \<in> measure unat" by (simp add: fold_step_unat)
qed simp

declare fold_sum.simps [simp del]

definition internet_checksum :: "u8 list \<Rightarrow> u16 panics" where
  "internet_checksum data = do { s \<leftarrow> sum_words data 0; Some (ucast (NOT (fold_sum s))) }"

subsection \<open>The Internet checksum\<close>

text \<open>The sum of the 16-bit words as a number.\<close>

fun word_total :: "u8 list \<Rightarrow> nat" where
  "word_total (a # b # data) = 256 * unat a + unat b + word_total data"
| "word_total [a] = 256 * unat a"
| "word_total [] = 0"

lemma byte_lt: "unat b < 256" for b :: u8
  using unsigned_less [of b] by simp

lemma unat_from_be16: "unat (from_be16 a b) = 256 * unat a + unat b"
proof -
  have "push_bit 8 (ucast a :: u16) OR ucast b = push_bit 8 (ucast a) + ucast b"
    by (rule disjunctive_add [symmetric]) (auto simp: bit_simps dest: bit_imp_le_length)
  then show ?thesis using byte_lt [of a] byte_lt [of b]
    by (simp add: from_be16_def unat_word_ariths push_bit_eq_mult unsigned_ucast_eq take_bit_nat_eq_self)
qed

lemma word_total_bound: "word_total data \<le> 65535 * ((length data + 1) div 2)"
proof (induction data rule: word_total.induct)
  case (1 a b data)
  then show ?case using byte_lt [of a] byte_lt [of b] by simp
next
  case (2 a)
  then show ?case using byte_lt [of a] by simp
qed simp

lemma sum_words_total:
  "unat s + word_total data < 2 ^ 32 \<Longrightarrow> \<exists>t. sum_words data s = Some t \<and> unat t = unat s + word_total data"
proof (induction data s rule: sum_words.induct)
  case (1 a b data s)
  have u: "unat (ucast (from_be16 a b) :: u32) = 256 * unat a + unat b"
    using byte_lt [of a] byte_lt [of b] by (simp add: unat_from_be16 unsigned_ucast_eq take_bit_nat_eq_self)
  then have add: "add_c s (ucast (from_be16 a b)) = Some (s + ucast (from_be16 a b))"
    and v: "unat (s + ucast (from_be16 a b) :: u32) = unat s + (256 * unat a + unat b)"
    using 1(2) by (simp_all add: add_c_def unat_word_ariths)
  show ?case using 1(1) [OF add] 1(2) v add by (simp add: add.assoc)
next
  case (2 a s)
  have "unat (push_bit 8 (ucast a) :: u32) = 256 * unat a"
    using byte_lt [of a] by (simp add: unat_word_ariths push_bit_eq_mult unsigned_ucast_eq take_bit_nat_eq_self)
  then show ?case using 2 by (simp add: add_c_def unat_word_ariths)
qed simp

text \<open>Folding keeps the residue modulo 65535, ends below 65536, and is 0 only for 0.\<close>

lemma fold_sum_spec:
  "unat (fold_sum s) < 65536 \<and> unat (fold_sum s) mod 65535 = unat s mod 65535 \<and> (unat (fold_sum s) = 0 \<longleftrightarrow> unat s = 0)"
proof (induction s rule: fold_sum.induct)
  case (1 s)
  show ?case
  proof (cases "drop_bit 16 s = 0")
    case True
    then show ?thesis by (simp add: fold_sum.simps [of s] drop16_eq_0)
  next
    case False
    let ?t = "(s AND 0xFFFF) + drop_bit 16 s"
    have big: "65536 \<le> unat s" using False by (simp add: drop16_eq_0)
    have "unat s = 65535 * (unat s div 65536) + unat ?t" unfolding fold_step_unat using div_mult_mod_eq [of "unat s" 65536] by linarith
    then have "unat ?t mod 65535 = unat s mod 65535" by (metis mod_mult_self2 add.commute)
    moreover have "unat ?t \<noteq> 0" unfolding fold_step_unat using big by (simp add: div_eq_0_iff)
    ultimately show ?thesis using 1 [OF False] big False by (simp add: fold_sum.simps [of s])
  qed
qed

lemma unat_not16: "unat (NOT x) = 65535 - unat x" for x :: u16
proof -
  have "NOT x = - 1 - x" by (simp add: not_eq_complement)
  moreover have "unat (- 1 - x) = unat (- 1 :: u16) - unat x" by (rule unat_sub) simp
  moreover have "unat (- 1 :: u16) = 65535" by (simp add: unsigned_minus_1_eq_mask mask_eq_exp_minus_1)
  ultimately show ?thesis by simp
qed

text \<open>The one's complement sum: the representative of the residue in \<open>1..65535\<close>, and 0 for 0.\<close>

definition ones_sum :: "nat \<Rightarrow> nat" where
  "ones_sum n = (if n = 0 then 0 else 1 + (n - 1) mod 65535)"

lemma fold_sum_ones: "unat (fold_sum s) = ones_sum (unat s)"
proof (cases "unat s")
  case 0
  then show ?thesis using fold_sum_spec [of s] by (simp add: ones_sum_def)
next
  case (Suc n)
  then obtain m where m: "unat (fold_sum s) = Suc m" using fold_sum_spec [of s] by (cases "unat (fold_sum s)") auto
  have "Suc m mod 65535 = Suc n mod 65535" using fold_sum_spec [of s] m Suc by simp
  then have "(Suc m + 65534) mod 65535 = (Suc n + 65534) mod 65535" by (rule mod_add_cong) simp
  then have "m mod 65535 = n mod 65535" by simp
  moreover have "m < 65535" using fold_sum_spec [of s] m by simp
  ultimately show ?thesis using m Suc by (simp add: ones_sum_def)
qed

lemma internet_checksum_ones:
  assumes "word_total data < 2 ^ 32"
  shows "\<exists>c. internet_checksum data = Some c \<and> unat c = 65535 - ones_sum (word_total data)"
proof -
  obtain t where t: "sum_words data 0 = Some t" "unat t = word_total data" using sum_words_total [of 0 data] assms by auto
  have "ucast (NOT (fold_sum t)) = NOT (ucast (fold_sum t) :: u16)" by (rule bit_word_eqI) (auto simp: bit_simps)
  moreover have "unat (ucast (fold_sum t) :: u16) = unat (fold_sum t)"
    using fold_sum_spec [of t] by (simp add: unsigned_ucast_eq take_bit_nat_eq_self)
  ultimately have "unat (ucast (NOT (fold_sum t)) :: u16) = 65535 - ones_sum (word_total data)"
    by (simp add: unat_not16 fold_sum_ones t(2))
  then show ?thesis using t(1) by (simp add: internet_checksum_def)
qed

lemma ones_sum_complement: "ones_sum (n + (65535 - ones_sum n)) = 65535"
proof (cases n)
  case (Suc m)
  have "m + (65534 - m mod 65535) = 65534 + 65535 * (m div 65535)"
    using div_mult_mod_eq [of m 65535] mod_less_divisor [of 65535 m] by linarith
  then have "(m + (65534 - m mod 65535)) mod 65535 = 65534" by (simp only: mod_mult_self2) simp
  then show ?thesis using Suc by (simp add: ones_sum_def)
qed (simp add: ones_sum_def)

text \<open>A message that carries its own checksum sums to zero.\<close>

lemma checksum_verifies:
  assumes "internet_checksum data = Some c" and "word_total data' = word_total data + unat c" and "word_total data' < 2 ^ 32"
  shows "internet_checksum data' = Some 0"
proof -
  have "unat c = 65535 - ones_sum (word_total data)" using internet_checksum_ones [of data] assms by auto
  then have "ones_sum (word_total data') = 65535" using assms(2) ones_sum_complement by simp
  then show ?thesis using internet_checksum_ones [OF assms(3)] by (auto simp: word_unat_eq_iff)
qed

subsection \<open>Round trips\<close>

lemma from_to_be16 [simp]: "from_be16 (ucast (drop_bit 8 w)) (ucast w) = w"
  unfolding from_be16_def by (rule bit_word_eqI) (auto simp: bit_simps)

lemma from_to_be32 [simp]:
  "from_be32 (ucast (drop_bit 24 w)) (ucast (drop_bit 16 w)) (ucast (drop_bit 8 w)) (ucast w) = w"
proof (unfold from_be32_def, rule bit_word_eqI)
  fix n assume "n < LENGTH(32)"
  then consider "n < 8" | "8 \<le> n" "n < 16" | "16 \<le> n" "n < 24" | "24 \<le> n" "n < 32" by fastforce
  then show "bit (push_bit 24 (ucast (ucast (drop_bit 24 w) :: u8)) OR push_bit 16 (ucast (ucast (drop_bit 16 w) :: u8)) OR
      push_bit 8 (ucast (ucast (drop_bit 8 w) :: u8)) OR ucast (ucast w :: u8) :: u32) n = bit w n"
    by cases (auto simp: bit_simps)
qed

lemma unat_to_be16: "256 * unat (ucast (drop_bit 8 w) :: u8) + unat (ucast w :: u8) = unat w" for w :: u16
  using unat_from_be16 [of "ucast (drop_bit 8 w)" "ucast w"] by simp

lemma ucast_and_ff: "(ucast (w AND 0xFF) :: u8) = ucast w" for w :: u16
proof -
  have m: "(0xFF :: u16) = mask 8" by (simp add: mask_eq_exp_minus_1)
  show ?thesis unfolding m by (rule bit_word_eqI) (auto simp: bit_simps)
qed

text \<open>A frame is parsed back into what it was built from.\<close>

lemma build_ethernet_eq:
  assumes "length dst = 6" and "length src = 6"
  shows "build_ethernet dst src ethertype payload = Some (dst @ src @ to_be16 ethertype @ payload)"
  using assms by (simp add: build_ethernet_def write_u16_be_def put_slice_def to_be16_def)

lemma parse_build_ethernet:
  assumes "length dst = 6" and "length src = 6"
  shows "Option.bind (build_ethernet dst src ethertype payload) parse_ethernet =
    Some (Some (\<lparr>eh_dst_mac = dst, eh_src_mac = src, eh_ethertype = ethertype\<rparr>, payload))"
  using assms by (simp add: build_ethernet_eq parse_ethernet_def slice_p_def read_u16_be_def at_p_def nth_append to_be16_def)

definition arp_bytes :: "u16 \<Rightarrow> mac \<Rightarrow> u32 \<Rightarrow> mac \<Rightarrow> u32 \<Rightarrow> u8 list" where
  "arp_bytes opcode sender_mac sender_ip target_mac target_ip =
     [0, 1, 8, 0, 6, 4] @ to_be16 opcode @ sender_mac @ to_be32 sender_ip @ target_mac @ to_be32 target_ip"

lemma build_arp_eq:
  assumes "length sender_mac = 6" and "length target_mac = 6"
  shows "build_arp opcode sender_mac sender_ip target_mac target_ip = Some (arp_bytes opcode sender_mac sender_ip target_mac target_ip)"
  using assms by (simp add: build_arp_def write_u16_be_def write_u32_be_def put_slice_def to_be16_def to_be32_def arp_bytes_def)

lemma parse_build_arp:
  assumes "length sender_mac = 6" and "length target_mac = 6"
  shows "parse_arp (arp_bytes opcode sender_mac sender_ip target_mac target_ip) = Some (Some
    \<lparr>ah_hw_type = 1, ah_proto_type = 0x0800, ah_hw_len = 6, ah_proto_len = 4, ah_opcode = opcode, ah_sender_mac = sender_mac,
     ah_sender_ip = sender_ip, ah_target_mac = target_mac, ah_target_ip = target_ip\<rparr>)"
  using assms
  by (simp add: arp_bytes_def parse_arp_def slice_p_def read_u16_be_def read_u32_be_def at_p_def nth_append to_be16_def to_be32_def
      from_be16_def [of 0 1] from_be16_def [of 8 0])

text \<open>No input makes a parser index out of range.\<close>

lemma parsers_total: "\<exists>r. parse_ethernet data = Some r" "\<exists>r. parse_arp data = Some r" "\<exists>r. parse_ipv4 data = Some r"
  "\<exists>r. parse_icmp data = Some r"
  by (auto simp: parse_ethernet_def parse_arp_def parse_ipv4_def parse_icmp_def read_u16_be_def read_u32_be_def at_p_def slice_p_def Let_def)

end
