(* ===== verification/Net_Route.thy ===== *)
theory Net_Route
  imports Net_Packet
begin

text \<open>
  The ARP cache and the routing table of \<open>kernel/src/net/mod.rs\<close>. The cache is a \<open>BTreeMap\<close> from addresses to entries with the
  tick at which they were learnt; the routing table is a vector searched from the front. Addresses and masks are \<open>u32\<close> words as
  \<open>from_be_bytes\<close> gives them. It is shown that entries live exactly \<open>ARP_EXPIRY_TICKS\<close> ticks, that the lookup is the longest
  prefix match with the documented tie breaking, and where the initial table sends an address.
\<close>

abbreviation (input) ARP_EXPIRY_TICKS :: u64 where "ARP_EXPIRY_TICKS \<equiv> 6000"
abbreviation (input) DEFAULT_LOCAL_IP :: u32 where "DEFAULT_LOCAL_IP \<equiv> 0x0F02000A"

subsection \<open>ARP cache\<close>

record arp_entry =
  ae_mac :: mac
  ae_timestamp :: u64

type_synonym arp_table = "(u32, arp_entry) btree"

definition get_arp_table :: "arp_table \<Rightarrow> (u32 \<times> mac) list" where
  "get_arp_table tab = map (\<lambda>(ip, e). (ip, ae_mac e)) tab"

definition arp_fresh :: "u64 \<Rightarrow> arp_entry \<Rightarrow> bool" where
  "arp_fresh now e \<longleftrightarrow> sat_sub now (ae_timestamp e) < ARP_EXPIRY_TICKS"

definition arp_learn :: "u64 \<Rightarrow> arp_header \<Rightarrow> arp_table \<Rightarrow> arp_table" where
  "arp_learn now arp tab =
     (if ah_sender_ip arp \<noteq> 0
      then bt_insert (ah_sender_ip arp) \<lparr>ae_mac = ah_sender_mac arp, ae_timestamp = now\<rparr> tab
      else tab)"

definition arp_lookup :: "u64 \<Rightarrow> u32 \<Rightarrow> arp_table \<Rightarrow> mac option \<times> arp_table" where
  "arp_lookup now ip tab =
     (case bt_get tab ip of
        Some e \<Rightarrow> if arp_fresh now e then (Some (ae_mac e), tab) else (None, bt_remove ip tab)
      | None \<Rightarrow> (None, tab))"

definition expire_arp_entries :: "u64 \<Rightarrow> arp_table \<Rightarrow> arp_table" where
  "expire_arp_entries now tab = bt_retain (\<lambda>_ e. arp_fresh now e) tab"

subsection \<open>Routing table\<close>

record route_entry =
  re_dest :: u32
  re_mask :: u32
  re_gateway :: u32
  re_interface :: u8
  re_metric :: u8

definition route_add :: "u32 \<Rightarrow> u32 \<Rightarrow> u32 \<Rightarrow> u8 \<Rightarrow> u8 \<Rightarrow> route_entry list \<Rightarrow> route_entry list" where
  "route_add dest msk gateway interface metric tab =
     (case position (\<lambda>e. re_dest e = dest \<and> re_mask e = msk) tab of
        Some i \<Rightarrow> tab[i := (tab ! i)\<lparr>re_gateway := gateway, re_interface := interface, re_metric := metric\<rparr>]
      | None \<Rightarrow> tab @ [\<lparr>re_dest = dest, re_mask = msk, re_gateway = gateway, re_interface = interface, re_metric = metric\<rparr>])"

definition route_remove :: "u32 \<Rightarrow> u32 \<Rightarrow> route_entry list \<Rightarrow> bool \<times> route_entry list" where
  "route_remove dest msk tab =
     (let tab' = filter (\<lambda>e. \<not> (re_dest e = dest \<and> re_mask e = msk)) tab in (length tab' < length tab, tab'))"

definition route_delete :: "u32 \<Rightarrow> u32 \<Rightarrow> route_entry list \<Rightarrow> bool \<times> route_entry list" where
  "route_delete dest msk tab = route_remove dest msk tab"

definition get_routing_table :: "route_entry list \<Rightarrow> route_entry list" where
  "get_routing_table tab = tab"

definition route_matches :: "u32 \<Rightarrow> route_entry \<Rightarrow> bool" where
  "route_matches ip e \<longleftrightarrow> ip AND re_mask e = re_dest e AND re_mask e"

text \<open>The loop body of \<open>route_lookup\<close>; the best route so far is \<open>(gateway, mask, interface, metric)\<close>.\<close>

fun route_step :: "u32 \<Rightarrow> route_entry \<Rightarrow> (u32 \<times> u32 \<times> u8 \<times> u8) option \<Rightarrow> (u32 \<times> u32 \<times> u8 \<times> u8) option" where
  "route_step ip e best =
     (if route_matches ip e
      then let new = Some (re_gateway e, re_mask e, re_interface e, re_metric e) in
        (case best of
           None \<Rightarrow> new
         | Some (_, best_mask, _, best_metric) \<Rightarrow>
             if re_mask e > best_mask then new
             else if re_mask e = best_mask \<and> re_metric e < best_metric then new
             else best)
      else best)"

definition route_lookup :: "u32 \<Rightarrow> route_entry list \<Rightarrow> (u32 \<times> u8) option" where
  "route_lookup ip tab = map_option (\<lambda>(gw, _, iface, _). (gw, iface)) (fold (route_step ip) tab None)"

record network_state =
  ns_ip :: "u8 list"
  ns_subnet_mask :: "u8 list"
  ns_gateway :: "u8 list"
  ns_dns :: "u8 list"
  ns_configured :: bool
  ns_lease_secs :: u32
  ns_lease_acquired_tick :: u64
  ns_server_ip :: "u8 list"

fun ip_of :: "u8 list \<Rightarrow> u32" where
  "ip_of [a, b, c, d] = from_be32 a b c d"
| "ip_of _ = 0"

definition init_routing_table :: "u8 \<Rightarrow> network_state \<Rightarrow> route_entry list \<Rightarrow> route_entry list" where
  "init_routing_table interface st tab =
     (let tab = route_add 0x7F000000 0xFF000000 0 127 0 tab;
          local_ip = ip_of (ns_ip st);
          msk = ip_of (ns_subnet_mask st);
          gateway = ip_of (ns_gateway st);
          network = local_ip AND msk;
          tab = route_add network msk 0 interface 0 tab
      in if gateway \<noteq> 0 then route_add 0 0 gateway interface 2 tab else tab)"

definition local_ip :: "network_state \<Rightarrow> u32" where
  "local_ip st = (if ns_configured st then ip_of (ns_ip st) else DEFAULT_LOCAL_IP)"

subsection \<open>Lifetime of ARP entries\<close>

lemma arp_fresh_iff: "arp_fresh now e \<longleftrightarrow> unat now < unat (ae_timestamp e) + 6000"
  by (auto simp: arp_fresh_def word_less_nat_alt unat_sat_sub)

lemma arp_lookup_learn:
  assumes "ah_sender_ip arp \<noteq> 0"
  shows "fst (arp_lookup later (ah_sender_ip arp) (arp_learn now arp tab)) =
    (if unat later < unat now + 6000 then Some (ah_sender_mac arp) else None)"
  using assms by (simp add: arp_lookup_def arp_learn_def arp_fresh_iff)

lemma arp_lookup_expire:
  assumes "bt_wf tab"
  shows "fst (arp_lookup now ip (expire_arp_entries now tab)) = fst (arp_lookup now ip tab)"
  using assms by (auto simp: arp_lookup_def expire_arp_entries_def bt_get_retain split: option.splits)

lemma arp_wf: "bt_wf tab \<Longrightarrow> bt_wf (arp_learn now arp tab)" "bt_wf tab \<Longrightarrow> bt_wf (expire_arp_entries now tab)"
  "bt_wf tab \<Longrightarrow> bt_wf (snd (arp_lookup now ip tab))"
  by (auto simp: arp_learn_def expire_arp_entries_def arp_lookup_def split: option.splits)

subsection \<open>Longest prefix match\<close>

text \<open>The documented preference: a longer mask, then a lower metric. The best entry is preferred to every earlier match and no
  later match is preferred to it.\<close>

definition preferred :: "route_entry \<Rightarrow> route_entry \<Rightarrow> bool" where
  "preferred e f \<longleftrightarrow> re_mask e > re_mask f \<or> re_mask e = re_mask f \<and> re_metric e < re_metric f"

definition best_route :: "u32 \<Rightarrow> route_entry list \<Rightarrow> nat \<Rightarrow> bool" where
  "best_route ip tab i \<longleftrightarrow> i < length tab \<and> route_matches ip (tab ! i) \<and>
     (\<forall>j < length tab. route_matches ip (tab ! j) \<longrightarrow> (if j < i then preferred (tab ! i) (tab ! j) else \<not> preferred (tab ! j) (tab ! i)))"

lemma preferred_trans: "preferred e f \<Longrightarrow> preferred f g \<Longrightarrow> preferred e g"
  by (auto simp: preferred_def)

lemma preferred_weak: "preferred e f \<Longrightarrow> \<not> preferred g f \<Longrightarrow> preferred e g"
  by (auto simp: preferred_def)

lemma best_route_unique: "best_route ip tab i \<Longrightarrow> best_route ip tab j \<Longrightarrow> i = j"
  by (metis best_route_def linorder_neqE_nat order_less_imp_not_less)

definition route_fields :: "route_entry \<Rightarrow> u32 \<times> u32 \<times> u8 \<times> u8" where
  "route_fields e = (re_gateway e, re_mask e, re_interface e, re_metric e)"

lemma route_step_cases:
  "route_step ip e None = (if route_matches ip e then Some (route_fields e) else None)"
  "route_step ip e (Some (route_fields f)) =
     Some (route_fields (if route_matches ip e \<and> preferred e f then e else f))"
  by (auto simp: route_fields_def preferred_def)

declare route_step.simps [simp del]

lemma best_route_keep:
  assumes "best_route ip tab i" and "\<not> (route_matches ip e \<and> preferred e (tab ! i))"
  shows "best_route ip (tab @ [e]) i"
  using assms by (auto simp: best_route_def nth_append less_Suc_eq)

lemma best_route_last:
  assumes "route_matches ip e" and "\<forall>f \<in> set tab. route_matches ip f \<longrightarrow> preferred e f"
  shows "best_route ip (tab @ [e]) (length tab)"
  using assms by (auto simp: best_route_def nth_append less_Suc_eq preferred_def)

lemma best_route_preferred:
  assumes "best_route ip tab i" and "preferred e (tab ! i)" and "f \<in> set tab" and "route_matches ip f"
  shows "preferred e f"
proof -
  obtain j where j: "j < length tab" "f = tab ! j" using assms(3) by (auto simp: in_set_conv_nth)
  show ?thesis
  proof (cases "j < i")
    case True
    then have "preferred (tab ! i) f" using assms(1,4) j by (auto simp: best_route_def)
    then show ?thesis using assms(2) by (rule preferred_trans [rotated])
  next
    case False
    then have "\<not> preferred f (tab ! i)" using assms(1,4) j by (auto simp: best_route_def)
    then show ?thesis using assms(2) by (rule preferred_weak [rotated])
  qed
qed

lemma route_fold:
  "(case fold (route_step ip) tab None of
      None \<Rightarrow> \<forall>e \<in> set tab. \<not> route_matches ip e
    | Some b \<Rightarrow> \<exists>i. best_route ip tab i \<and> b = route_fields (tab ! i))"
proof (induction tab rule: rev_induct)
  case (snoc e tab)
  let ?m = "route_matches ip e"
  show ?case
  proof (cases "fold (route_step ip) tab None")
    case None
    then have n: "\<forall>f \<in> set tab. \<not> route_matches ip f" using snoc.IH by simp
    then have "?m \<Longrightarrow> best_route ip (tab @ [e]) (length tab)" by (intro best_route_last) auto
    then show ?thesis using n None by (cases ?m) (force simp: route_step_cases)+
  next
    case (Some b)
    then obtain i where i: "best_route ip tab i" "b = route_fields (tab ! i)" using snoc.IH by auto
    then have lt: "i < length tab" by (simp add: best_route_def)
    show ?thesis
    proof (cases "?m \<and> preferred e (tab ! i)")
      case True
      then have "best_route ip (tab @ [e]) (length tab)" using best_route_preferred [OF i(1)] by (intro best_route_last) auto
      then show ?thesis using True Some i by (auto simp: route_step_cases intro: exI [of _ "length tab"])
    next
      case False
      then have "best_route ip (tab @ [e]) i" by (rule best_route_keep [OF i(1)])
      then show ?thesis using False Some i lt
        by (auto simp: route_step_cases nth_append intro: exI [of _ i])
    qed
  qed
qed simp

text \<open>C16: The routing lookup is the longest prefix match with the documented tie breaking: it returns a gateway and an interface
  exactly when they are those of the best route, the matching entry with the largest mask, the lowest metric among those, and the
  first position among those.\<close>

theorem route_lookup_spec:
  "route_lookup ip tab = Some (gw, iface) \<longleftrightarrow>
     (\<exists>i. best_route ip tab i \<and> gw = re_gateway (tab ! i) \<and> iface = re_interface (tab ! i))"
proof (cases "fold (route_step ip) tab None")
  case None
  then have "\<forall>e \<in> set tab. \<not> route_matches ip e" using route_fold [of tab ip] by simp
  then have "\<not> best_route ip tab i" for i by (auto simp: best_route_def)
  then show ?thesis using None by (simp add: route_lookup_def)
next
  case (Some b)
  then obtain i where i: "best_route ip tab i" "b = route_fields (tab ! i)" using route_fold [of tab ip] by auto
  then have "(\<exists>k. best_route ip tab k \<and> P k) \<longleftrightarrow> P i" for P using best_route_unique [OF i(1)] by blast
  then show ?thesis using Some i by (auto simp: route_lookup_def route_fields_def)
qed

text \<open>For masks of contiguous ones, as the documentation requires them, the larger mask is the longer prefix.\<close>

definition prefix_mask :: "nat \<Rightarrow> u32" where
  "prefix_mask n = NOT (mask (32 - n))"

lemma unat_prefix_mask: "n \<le> 32 \<Longrightarrow> unat (prefix_mask n) = 2 ^ 32 - 2 ^ (32 - n)"
proof -
  let ?x = "mask (32 - n) :: u32"
  have "unat (of_nat (mask (32 - n)) :: u32) = mask (32 - n)" by (simp only: unsigned_of_nat take_bit_of_mask) simp
  then have "unat ?x = 2 ^ (32 - n) - 1" by (simp add: of_nat_mask_eq mask_eq_exp_minus_1)
  moreover have "unat (- 1 - ?x) = unat (- 1 :: u32) - unat ?x" by (rule unat_sub) simp
  moreover have "unat (- 1 :: u32) = 2 ^ 32 - 1" by (simp add: unsigned_minus_1_eq_mask mask_eq_exp_minus_1)
  moreover have "(1 :: nat) \<le> 2 ^ (32 - n)" by simp
  moreover have "prefix_mask n = - 1 - ?x" by (simp add: prefix_mask_def not_eq_complement)
  ultimately show ?thesis by simp
qed

lemma prefix_mask_less:
  assumes "m \<le> 32" "n \<le> 32"
  shows "prefix_mask m < prefix_mask n \<longleftrightarrow> m < n"
proof -
  have "(2 :: nat) ^ (32 - k) \<le> 2 ^ 32" for k by (rule power_increasing) auto
  from this [of m] this [of n] have "prefix_mask m < prefix_mask n \<longleftrightarrow> (2 :: nat) ^ (32 - n) < 2 ^ (32 - m)"
    unfolding word_less_nat_alt unat_prefix_mask [OF assms(1)] unat_prefix_mask [OF assms(2)] by linarith
  also have "\<dots> \<longleftrightarrow> m < n" using assms by auto
  finally show ?thesis .
qed

text \<open>The table that a DHCP lease installs at start-up sends an address outside \<open>127.0.0.0/8\<close> straight to the
  interface when it is in the leased subnet, and to the leased gateway otherwise.\<close>

theorem init_routing_lookup:
  assumes "ip_of (ns_subnet_mask st) \<noteq> 0" and "ip_of (ns_gateway st) \<noteq> 0" and "ip AND 0xFF000000 \<noteq> 0x7F000000"
  shows "route_lookup ip (init_routing_table iface st []) =
    Some (if ip AND ip_of (ns_subnet_mask st) = ip_of (ns_ip st) AND ip_of (ns_subnet_mask st) then 0 else ip_of (ns_gateway st), iface)"
proof -
  have "route_add 0 0 g iface 2 (route_add n m 0 iface 0 (route_add 0x7F000000 0xFF000000 0 127 0 [])) =
    (if n = 0x7F000000 \<and> m = 0xFF000000 then [] else [\<lparr>re_dest = 0x7F000000, re_mask = 0xFF000000, re_gateway = 0, re_interface = 127, re_metric = 0\<rparr>]) @
    [\<lparr>re_dest = n, re_mask = m, re_gateway = 0, re_interface = iface, re_metric = 0\<rparr>,
     \<lparr>re_dest = 0, re_mask = 0, re_gateway = g, re_interface = iface, re_metric = 2\<rparr>]" if "m \<noteq> 0" for g n m
    using that by (auto simp: route_add_def)
  then show ?thesis using assms
    by (auto simp: route_lookup_def init_routing_table_def Let_def route_step.simps route_matches_def and.assoc)
qed

theorem init_routing_lookup_witness:
  "route_lookup 0x08080808 (init_routing_table 0 \<lparr>ns_ip = [10, 0, 2, 15], ns_subnet_mask = [255, 255, 255, 0], ns_gateway = [10, 0, 2, 2],
     ns_dns = [10, 0, 2, 3], ns_configured = True, ns_lease_secs = 86400, ns_lease_acquired_tick = 0, ns_server_ip = [10, 0, 2, 2]\<rparr> []) =
   Some (0x0A000202, 0)"
  by (subst init_routing_lookup) (simp_all add: from_be32_def)

end
