(* ===== verification/Net_Fragment.thy ===== *)
theory Net_Fragment
  imports Net_Packet "HOL-Library.Product_Lexorder"
begin

text \<open>
  IPv4 fragmentation and reassembly, \<open>kernel/src/net/fragment.rs\<close>. The reassembly cache is a \<open>BTreeMap\<close> whose keys, the tuples
  of addresses, identification and protocol, have the lexicographic order that \<open>derive(Ord)\<close> gives the struct. Offsets and
  lengths are bounded by 16-bit fields and are natural numbers, as are the statistics counters. A slice out of bounds panics.
  Error messages are the source's strings.
\<close>

abbreviation (input) FRAGMENT_TIMEOUT_TICKS :: u64 where "FRAGMENT_TIMEOUT_TICKS \<equiv> 546"
abbreviation (input) MAX_FRAGMENT_SETS :: nat where "MAX_FRAGMENT_SETS \<equiv> 256"
abbreviation (input) MAX_FRAGMENTS_PER_DATAGRAM :: nat where "MAX_FRAGMENTS_PER_DATAGRAM \<equiv> 64"
abbreviation (input) FRAGMENT_OFFSET_UNIT :: nat where "FRAGMENT_OFFSET_UNIT \<equiv> 8"
abbreviation (input) MF_FLAG :: u16 where "MF_FLAG \<equiv> 0x2000"
abbreviation (input) DF_FLAG :: u16 where "DF_FLAG \<equiv> 0x4000"
abbreviation (input) OFFSET_MASK :: u16 where "OFFSET_MASK \<equiv> 0x1FFF"

type_synonym fragment_key = "u32 \<times> u32 \<times> u16 \<times> u8"

record fragment_data =
  fg_offset :: nat
  fg_data :: "u8 list"
  fg_more :: bool

record fragment_set =
  fs_timestamp :: u64
  fs_fragments :: "fragment_data list"
  fs_total_payload_length :: "nat option"

record fragment_stats =
  st_fragments_received :: nat
  st_datagrams_reassembled :: nat
  st_timed_out :: nat
  st_overlap_errors :: nat
  st_cache_full_drops :: nat
  st_too_many_fragments :: nat
  st_invalid_fragments :: nat

definition FRAGMENT_STATS_DEFAULT :: fragment_stats where
  "FRAGMENT_STATS_DEFAULT = \<lparr>st_fragments_received = 0, st_datagrams_reassembled = 0, st_timed_out = 0, st_overlap_errors = 0,
     st_cache_full_drops = 0, st_too_many_fragments = 0, st_invalid_fragments = 0\<rparr>"

record frag_state =
  fc_cache :: "(fragment_key, fragment_set) btree"
  fc_stats :: fragment_stats

type_synonym frag_result = "(string + u8 list option) \<times> frag_state"

definition stat :: "(fragment_stats \<Rightarrow> fragment_stats) \<Rightarrow> frag_state \<Rightarrow> frag_state" where
  "stat f s = s\<lparr>fc_stats := f (fc_stats s)\<rparr>"

definition get_fragment_stats :: "frag_state \<Rightarrow> fragment_stats" where
  "get_fragment_stats s = fc_stats s"

subsection \<open>Receiving\<close>

definition parse_fragment_info :: "u8 list \<Rightarrow> (u16 \<times> bool \<times> bool \<times> nat) option panics" where
  "parse_fragment_info data =
     (if length data < IP_HEADER_MIN_SIZE then Some None
      else do {
        identification \<leftarrow> read_u16_be data 4;
        flags_offset \<leftarrow> read_u16_be data 6;
        let more_fragments = flags_offset AND MF_FLAG \<noteq> 0;
        let df_set = flags_offset AND DF_FLAG \<noteq> 0;
        let offset_bytes = unat (flags_offset AND OFFSET_MASK) * FRAGMENT_OFFSET_UNIT;
        let is_fragment = (\<not> df_set \<and> (more_fragments \<or> offset_bytes > 0));
        Some (Some (identification, is_fragment, more_fragments, offset_bytes)) })"

definition has_overlap :: "fragment_data list \<Rightarrow> fragment_data \<Rightarrow> bool" where
  "has_overlap existing new \<longleftrightarrow>
     (let new_start = fg_offset new; new_end = fg_offset new + length (fg_data new) in
      list_ex (\<lambda>f.
        let exist_start = fg_offset f; exist_end = fg_offset f + length (fg_data f);
            new_contained = (exist_start \<le> new_start \<and> new_end \<le> exist_end);
            exist_contained = (new_start \<le> exist_start \<and> exist_end \<le> new_end)
        in new_start < exist_end \<and> exist_start < new_end \<and> \<not> new_contained \<and> \<not> exist_contained) existing)"

text \<open>\<open>binary_search_by\<close> of the core library on offsets: the loop narrows \<open>[base, base + size)\<close>; the result is the index of
  an equal offset, or the place where it would be inserted (\<open>unwrap_or_else(|idx| idx)\<close>).\<close>

function search_base :: "nat list \<Rightarrow> nat \<Rightarrow> nat \<Rightarrow> nat \<Rightarrow> nat" where
  "search_base xs x base size' =
     (if size' > 1
      then let half = size' div 2; mid = base + half in
        search_base xs x (if xs ! mid > x then base else mid) (size' - half)
      else base)"
  by pat_completeness auto
termination by (relation "measure (\<lambda>(xs, x, base, n). n)") auto

declare search_base.simps [simp del]

definition binary_search :: "nat list \<Rightarrow> nat \<Rightarrow> nat" where
  "binary_search xs x =
     (if xs = [] then 0
      else let base = search_base xs x 0 (length xs) in if xs ! base < x then base + 1 else base)"

text \<open>The end of the last fragment without the More-Fragments flag, the coverage loop, and the loop that copies.\<close>

definition last_end :: "fragment_data list \<Rightarrow> nat option" where
  "last_end fs = fold (\<lambda>f e. if \<not> fg_more f then Some (fg_offset f + length (fg_data f)) else e) fs None"

fun covered :: "fragment_data list \<Rightarrow> nat \<Rightarrow> nat option" where
  "covered [] covered_up_to = Some covered_up_to"
| "covered (f # fs) covered_up_to =
     (if fg_offset f > covered_up_to then None
      else covered fs (max covered_up_to (fg_offset f + length (fg_data f))))"

fun copy_fragments :: "fragment_data list \<Rightarrow> nat \<Rightarrow> u8 list \<Rightarrow> u8 list panics" where
  "copy_fragments [] total_length payload = Some payload"
| "copy_fragments (f # fs) total_length payload = do {
     let e = min (fg_offset f + length (fg_data f)) total_length;
     payload \<leftarrow> (if fg_offset f \<le> e then put_slice (fg_offset f) (take (e - fg_offset f) (fg_data f)) payload else None);
     copy_fragments fs total_length payload }"

definition check_complete :: "fragment_set \<Rightarrow> u8 list option panics" where
  "check_complete st =
     (case last_end (fs_fragments st) of
        None \<Rightarrow> Some None
      | Some total_length \<Rightarrow>
          (case covered (sort_key fg_offset (fs_fragments st)) 0 of
             None \<Rightarrow> Some None
           | Some covered_up_to \<Rightarrow>
               if covered_up_to < total_length then Some None
               else do {
                 payload \<leftarrow> copy_fragments (fs_fragments st) total_length (replicate total_length 0);
                 Some (Some payload) }))"

definition reassemble_fragment :: "fragment_key \<Rightarrow> fragment_data \<Rightarrow> u64 \<Rightarrow> frag_state \<Rightarrow> frag_result panics" where
  "reassemble_fragment key fragment now s =
     (if bt_get (fc_cache s) key = None \<and> length (fc_cache s) \<ge> MAX_FRAGMENT_SETS
      then Some (Inl ''fragment: cache full, dropping fragment'', stat (\<lambda>t. t\<lparr>st_cache_full_drops := st_cache_full_drops t + 1\<rparr>) s)
      else
        let st = (case bt_get (fc_cache s) key of
                    Some st \<Rightarrow> st
                  | None \<Rightarrow> \<lparr>fs_timestamp = now, fs_fragments = [], fs_total_payload_length = None\<rparr>);
            st = st\<lparr>fs_timestamp := now\<rparr>;
            s = s\<lparr>fc_cache := bt_insert key st (fc_cache s)\<rparr>
        in if length (fs_fragments st) \<ge> MAX_FRAGMENTS_PER_DATAGRAM
           then Some (Inl ''fragment: too many fragments for datagram'', stat (\<lambda>t. t\<lparr>st_too_many_fragments := st_too_many_fragments t + 1\<rparr>) s)
           else if has_overlap (fs_fragments st) fragment
           then Some (Inl ''fragment: overlapping fragment rejected'', stat (\<lambda>t. t\<lparr>st_overlap_errors := st_overlap_errors t + 1\<rparr>) s)
           else do {
             let i = binary_search (map fg_offset (fs_fragments st)) (fg_offset fragment);
             let st = st\<lparr>fs_fragments := take i (fs_fragments st) @ fragment # drop i (fs_fragments st)\<rparr>;
             let s = stat (\<lambda>t. t\<lparr>st_fragments_received := st_fragments_received t + 1\<rparr>) (s\<lparr>fc_cache := bt_insert key st (fc_cache s)\<rparr>);
             c \<leftarrow> check_complete st;
             Some (case c of
               Some payload \<Rightarrow>
                 (Inr (Some payload), stat (\<lambda>t. t\<lparr>st_datagrams_reassembled := st_datagrams_reassembled t + 1\<rparr>)
                    (s\<lparr>fc_cache := bt_remove key (fc_cache s)\<rparr>))
             | None \<Rightarrow> (Inr None, s)) })"

definition try_reassemble :: "u8 list \<Rightarrow> u64 \<Rightarrow> frag_state \<Rightarrow> frag_result panics" where
  "try_reassemble data now s =
     (if length data < IP_HEADER_MIN_SIZE then Some (Inl ''fragment: packet too short for IPv4 header'', s)
      else do {
        info \<leftarrow> parse_fragment_info data;
        case info of
          None \<Rightarrow> Some (Inl ''fragment: failed to parse fragment info'', s)
        | Some (identification, is_fragment, more_fragments, offset_bytes) \<Rightarrow>
            if \<not> is_fragment then Some (Inr None, s)
            else do {
              src_ip \<leftarrow> read_u32_be data 12;
              dst_ip \<leftarrow> read_u32_be data 16;
              protocol \<leftarrow> at_p data 9;
              total_len \<leftarrow> read_u16_be data 2;
              version_ihl \<leftarrow> at_p data 0;
              let header_len = unat (version_ihl AND 0x0F) * 4;
              if unat total_len < header_len then Some (Inl ''fragment: total length less than header length'', s)
              else do {
                frag_payload \<leftarrow> slice_p data header_len (unat total_len);
                if length frag_payload mod FRAGMENT_OFFSET_UNIT \<noteq> 0 \<and> more_fragments
                then Some (Inl ''fragment: intermediate fragment payload not aligned to 8 bytes'',
                       stat (\<lambda>t. t\<lparr>st_invalid_fragments := st_invalid_fragments t + 1\<rparr>) s)
                else reassemble_fragment (src_ip, dst_ip, identification, protocol)
                       \<lparr>fg_offset = offset_bytes, fg_data = frag_payload, fg_more = more_fragments\<rparr> now s } } })"

definition expire_fragments :: "u64 \<Rightarrow> frag_state \<Rightarrow> frag_state" where
  "expire_fragments now s =
     (let cache = bt_retain (\<lambda>_ st. sat_sub now (fs_timestamp st) < FRAGMENT_TIMEOUT_TICKS) (fc_cache s);
          expired = length (fc_cache s) - length cache;
          s = s\<lparr>fc_cache := cache\<rparr>
      in if expired > 0 then stat (\<lambda>t. t\<lparr>st_timed_out := st_timed_out t + expired\<rparr>) s else s)"

definition clear_fragment_cache :: "frag_state \<Rightarrow> frag_state" where
  "clear_fragment_cache s = s\<lparr>fc_cache := []\<rparr>"

definition reset_fragment_stats :: "frag_state \<Rightarrow> frag_state" where
  "reset_fragment_stats s = s\<lparr>fc_stats := FRAGMENT_STATS_DEFAULT\<rparr>"

subsection \<open>Sending\<close>

definition build_ip_header :: "u16 \<Rightarrow> u16 \<Rightarrow> u16 \<Rightarrow> bool \<Rightarrow> u8 \<Rightarrow> u32 \<Rightarrow> u32 \<Rightarrow> u8 list \<Rightarrow> u8 list panics" where
  "build_ip_header total_len identification fragment_offset_units more_fragments protocol src_ip dst_ip buf = do {
     buf \<leftarrow> put_slice 0 [0x45] buf;
     buf \<leftarrow> put_slice 1 [0] buf;
     buf \<leftarrow> put_slice 2 (to_be16 total_len) buf;
     buf \<leftarrow> put_slice 4 (to_be16 identification) buf;
     let flags_offset = fragment_offset_units AND OFFSET_MASK;
     let flags_offset = (if more_fragments then flags_offset OR MF_FLAG else flags_offset);
     buf \<leftarrow> put_slice 6 (to_be16 flags_offset) buf;
     buf \<leftarrow> put_slice 8 [IP_DEFAULT_TTL] buf;
     buf \<leftarrow> put_slice 9 [protocol] buf;
     buf \<leftarrow> put_slice 10 [0] buf;
     buf \<leftarrow> put_slice 11 [0] buf;
     buf \<leftarrow> put_slice 12 (to_be32 src_ip) buf;
     put_slice 16 (to_be32 dst_ip) buf }"

text \<open>One packet: the header, the data after it, and the checksum over the header stored in bytes 10 and 11. Both branches of
  \<open>fragment_payload\<close> build their packets this way.\<close>

definition ip_packet :: "u16 \<Rightarrow> nat \<Rightarrow> bool \<Rightarrow> u8 \<Rightarrow> u32 \<Rightarrow> u32 \<Rightarrow> u8 list \<Rightarrow> u8 list panics" where
  "ip_packet identification units more_fragments protocol src_ip dst_ip body = do {
     let total_len = IP_HEADER_MIN_SIZE + length body;
     let packet = replicate total_len 0;
     packet \<leftarrow> build_ip_header (of_nat total_len) identification (of_nat units) more_fragments protocol src_ip dst_ip packet;
     packet \<leftarrow> put_slice IP_HEADER_MIN_SIZE body packet;
     header \<leftarrow> slice_p packet 0 IP_HEADER_MIN_SIZE;
     checksum \<leftarrow> internet_checksum header;
     packet \<leftarrow> put_slice 10 [ucast (drop_bit 8 checksum)] packet;
     put_slice 11 [ucast (checksum AND 0xFF)] packet }"

definition fragment_payload :: "u8 list \<Rightarrow> u32 \<Rightarrow> u32 \<Rightarrow> u16 \<Rightarrow> u8 \<Rightarrow> nat \<Rightarrow> u8 list list panics" where
  "fragment_payload payload src_ip dst_ip identification protocol mtu =
     (if length payload + IP_HEADER_MIN_SIZE \<le> mtu
      then do { packet \<leftarrow> ip_packet identification 0 False protocol src_ip dst_ip payload; Some [packet] }
      else if mtu < IP_HEADER_MIN_SIZE then None
      else let max_frag_data = (mtu - IP_HEADER_MIN_SIZE) div FRAGMENT_OFFSET_UNIT * FRAGMENT_OFFSET_UNIT in
        if max_frag_data = 0 then None
        else let num_fragments = (length payload + max_frag_data - 1) div max_frag_data in
          those (map (\<lambda>i.
            let offset = i * max_frag_data;
                is_last = (i = num_fragments - 1);
                frag_size = (if is_last then length payload - offset else max_frag_data)
            in do {
              body \<leftarrow> slice_p payload offset (offset + frag_size);
              ip_packet identification (offset div FRAGMENT_OFFSET_UNIT) (\<not> is_last) protocol src_ip dst_ip body })
          [0..<num_fragments]))"

end
