(* ===== verification/Net_Fragment_Props.thy ===== *)
theory Net_Fragment_Props
  imports Net_Fragment "HOL-Library.Multiset"
begin

text \<open>
  Correctness of fragmentation and reassembly: the packets that \<open>fragment_payload\<close> builds, the search that keeps a fragment set
  sorted, and the round trip, in which the fragments of a payload arrive in any order.
\<close>

subsection \<open>The packets\<close>

definition ip_header_bytes :: "u16 \<Rightarrow> u16 \<Rightarrow> u16 \<Rightarrow> u8 \<Rightarrow> u32 \<Rightarrow> u32 \<Rightarrow> u16 \<Rightarrow> u8 list" where
  "ip_header_bytes total_len identification flags_offset protocol src_ip dst_ip checksum =
     [0x45, 0] @ to_be16 total_len @ to_be16 identification @ to_be16 flags_offset @ [64, protocol] @ to_be16 checksum @
     to_be32 src_ip @ to_be32 dst_ip"

definition flags_word :: "nat \<Rightarrow> bool \<Rightarrow> u16" where
  "flags_word units more_fragments =
     (if more_fragments then (of_nat units AND OFFSET_MASK) OR MF_FLAG else of_nat units AND OFFSET_MASK)"

lemma length_ip_header [simp]: "length (ip_header_bytes len ident fo proto src dst c) = 20"
  by (simp add: ip_header_bytes_def to_be16_def to_be32_def)

lemma build_ip_header_eq:
  "build_ip_header len ident (of_nat units) mf proto src dst (replicate (20 + n) 0) =
     Some (ip_header_bytes len ident (flags_word units mf) proto src dst 0 @ replicate n 0)"
  by (simp add: build_ip_header_def put_slice_def ip_header_bytes_def flags_word_def to_be16_def to_be32_def Let_def
      numeral_eq_Suc replicate_add)

lemma header_total:
  "word_total (ip_header_bytes len ident fo proto src dst c) = word_total (ip_header_bytes len ident fo proto src dst 0) + unat c"
  using unat_to_be16 [of c] by (simp add: ip_header_bytes_def to_be16_def to_be32_def)

lemma header_total_bound: "word_total (ip_header_bytes len ident fo proto src dst c) < 2 ^ 32"
  using word_total_bound [of "ip_header_bytes len ident fo proto src dst c"] by simp

lemma header_checksum:
  obtains c where "internet_checksum (ip_header_bytes len ident fo proto src dst 0) = Some c"
    "internet_checksum (ip_header_bytes len ident fo proto src dst c) = Some 0"
proof -
  obtain c where c: "internet_checksum (ip_header_bytes len ident fo proto src dst 0) = Some c"
    using internet_checksum_ones [OF header_total_bound] by blast
  show ?thesis by (rule that [OF c checksum_verifies [OF c header_total header_total_bound]])
qed

lemma ip_packet_eq:
  obtains c where "ip_packet ident units mf proto src dst body =
      Some (ip_header_bytes (of_nat (20 + length body)) ident (flags_word units mf) proto src dst c @ body)"
    and "internet_checksum (ip_header_bytes (of_nat (20 + length body)) ident (flags_word units mf) proto src dst c) = Some 0"
proof -
  let ?h = "ip_header_bytes (of_nat (20 + length body)) ident (flags_word units mf) proto src dst"
  obtain c where c: "internet_checksum (?h 0) = Some c" "internet_checksum (?h c) = Some 0" by (rule header_checksum)
  have "put_slice 10 [ucast (drop_bit 8 c)] (?h 0 @ body) = Some (take 10 (?h 0) @ ucast (drop_bit 8 c) # drop 11 (?h 0) @ body)"
    by (simp add: put_slice_def)
  moreover have "put_slice 11 [ucast c] (take 10 (?h 0) @ ucast (drop_bit 8 c) # drop 11 (?h 0) @ body) = Some (?h c @ body)"
    by (simp add: put_slice_def ip_header_bytes_def to_be16_def to_be32_def)
  moreover have "put_slice 20 body (?h 0 @ replicate (length body) 0) = Some (?h 0 @ body)" by (simp add: put_slice_def)
  moreover have "slice_p (?h 0 @ body) 0 20 = Some (?h 0)" by (simp add: slice_p_def)
  ultimately have "ip_packet ident units mf proto src dst body = Some (?h c @ body)"
    using c(1) by (simp add: ip_packet_def Let_def build_ip_header_eq ucast_and_ff del: of_nat_add)
  then show ?thesis using c(2) that by blast
qed

lemma flags_word_fields:
  assumes "units < 8192"
  shows "flags_word units mf AND MF_FLAG \<noteq> 0 \<longleftrightarrow> mf" "flags_word units mf AND DF_FLAG = 0" "unat (flags_word units mf AND OFFSET_MASK) = units"
proof -
  have om: "(OFFSET_MASK :: u16) = mask 13" by (simp add: mask_eq_exp_minus_1)
  have "(MF_FLAG :: u16) = 2 ^ 13" "(DF_FLAG :: u16) = 2 ^ 14" by simp_all
  then have fl: "bit (MF_FLAG :: u16) k \<longleftrightarrow> k = 13" "bit (DF_FLAG :: u16) k \<longleftrightarrow> k = 14" for k
    by (auto simp only: bit_exp_iff possible_bit_word) simp_all
  show "flags_word units mf AND MF_FLAG \<noteq> 0 \<longleftrightarrow> mf"
    unfolding flags_word_def om by (auto simp: bit_eq_iff [where 'a = u16] bit_and_iff bit_or_iff bit_mask_iff fl simp del: bit_numeral_word_iff)
  show "flags_word units mf AND DF_FLAG = 0"
    unfolding flags_word_def om by (auto simp: bit_eq_iff [where 'a = u16] bit_and_iff bit_or_iff bit_mask_iff fl simp del: bit_numeral_word_iff)
  have "flags_word units mf AND mask 13 = of_nat units AND mask 13"
    unfolding flags_word_def om by (auto simp: bit_eq_iff [where 'a = u16] bit_and_iff bit_or_iff bit_mask_iff fl simp del: bit_numeral_word_iff)
  also have "unat \<dots> = units" using assms by (simp add: take_bit_eq_mask [symmetric] unsigned_take_bit_eq unsigned_of_nat take_bit_nat_eq_self)
  finally show "unat (flags_word units mf AND OFFSET_MASK) = units" unfolding om .
qed

lemma try_reassemble_packet:
  assumes "units < 8192" and "length body < 65516" and "mf \<or> 0 < units" and "mf \<longrightarrow> length body mod 8 = 0"
  shows "try_reassemble (ip_header_bytes (of_nat (20 + length body)) ident (flags_word units mf) proto src dst c @ body) now s =
    reassemble_fragment (src, dst, ident, proto) \<lparr>fg_offset = units * 8, fg_data = body, fg_more = mf\<rparr> now s"
proof -
  let ?len = "of_nat (20 + length body) :: u16"
  define fo where "fo = flags_word units mf"
  let ?d = "ip_header_bytes ?len ident fo proto src dst c @ body"
  have len: "unat ?len = 20 + length body" using assms(2) by (simp only: unsigned_of_nat) (simp add: take_bit_nat_eq_self)
  have flds: "read_u16_be ?d 4 = Some ident" "read_u16_be ?d 6 = Some fo" "read_u32_be ?d 12 = Some src"
    "read_u32_be ?d 16 = Some dst" "at_p ?d 9 = Some proto" "read_u16_be ?d 2 = Some ?len" "at_p ?d 0 = Some 0x45"
    by (simp_all add: ip_header_bytes_def to_be16_def to_be32_def read_u16_be_def read_u32_be_def at_p_def)
  have "slice_p ?d 20 (20 + length body) = Some body" by (simp add: slice_p_def)
  then show ?thesis using assms flags_word_fields [OF assms(1), of mf, folded fo_def] len unfolding fo_def [symmetric]
    by (cases mf) (simp_all add: try_reassemble_def parse_fragment_info_def flds Let_def del: of_nat_add)
qed

subsection \<open>The fragments of a payload\<close>

lemma those_map_exists:
  "\<forall>x \<in> set xs. \<exists>y. f x = Some y \<and> P x y \<Longrightarrow> \<exists>ys. those (map f xs) = Some ys \<and> list_all2 P xs ys"
  by (induction xs) force+

definition piece :: "nat \<Rightarrow> nat \<Rightarrow> u8 list \<Rightarrow> nat \<Rightarrow> fragment_data" where
  "piece m n payload i = \<lparr>fg_offset = i * m, fg_data = take m (drop (i * m) payload), fg_more = (i \<noteq> n - 1)\<rparr>"

text \<open>\<open>m\<close> bytes per fragment cut a payload of length \<open>l\<close> into \<open>n\<close> pieces.\<close>

definition splits :: "nat \<Rightarrow> nat \<Rightarrow> nat \<Rightarrow> bool" where
  "splits m n l \<longleftrightarrow> 0 < m \<and> m mod 8 = 0 \<and> 0 < n \<and> (n - 1) * m < l \<and> l \<le> n * m"

definition frag_len :: "nat \<Rightarrow> nat" where
  "frag_len mtu = (mtu - 20) div 8 * 8"

definition frag_count :: "u8 list \<Rightarrow> nat \<Rightarrow> nat" where
  "frag_count payload mtu = (length payload + frag_len mtu - 1) div frag_len mtu"

lemma splits_frag:
  assumes "28 \<le> mtu" and "payload \<noteq> []"
  shows "splits (frag_len mtu) (frag_count payload mtu) (length payload)"
proof -
  let ?m = "frag_len mtu" and ?l = "length payload" and ?n = "frag_count payload mtu"
  have m: "0 < ?m" using assms(1) by (simp add: frag_len_def div_greater_zero_iff)
  have l: "0 < ?l" using assms(2) by simp
  have eq: "?n * ?m + (?l + ?m - 1) mod ?m = ?l + ?m - 1" by (simp add: frag_count_def)
  have lt: "(?l + ?m - 1) mod ?m < ?m" using m by simp
  have ln: "?l \<le> ?n * ?m" using eq lt by linarith
  then have n: "0 < ?n" using l by (cases ?n) auto
  have "?n * ?m < ?l + ?m" using eq m l by linarith
  then have "(?n - 1) * ?m < ?l" using l unfolding diff_mult_distrib by linarith
  then show ?thesis using m n ln by (simp add: splits_def frag_len_def)
qed

lemma piece_bounds:
  assumes "splits m n (length payload)" and "i < n"
  shows "i * m \<le> length payload" "i \<noteq> n - 1 \<Longrightarrow> (i + 1) * m \<le> length payload"
    "length (fg_data (piece m n payload i)) = (if i = n - 1 then length payload - i * m else m)"
proof -
  have last: "(n - 1) * m < length payload" and all: "length payload \<le> n * m" and n: "0 < n" using assms(1) by (auto simp: splits_def)
  have "i * m \<le> (n - 1) * m" using assms(2) by (intro mult_right_mono) auto
  then show a: "i * m \<le> length payload" using last by linarith
  have "(i + 1) * m \<le> (n - 1) * m" if "i \<noteq> n - 1" using assms(2) that by (intro mult_right_mono) auto
  then show c: "i \<noteq> n - 1 \<Longrightarrow> (i + 1) * m \<le> length payload" using last by linarith
  have "length payload \<le> m + (n - 1) * m" using all n by (cases n) auto
  then show "length (fg_data (piece m n payload i)) = (if i = n - 1 then length payload - i * m else m)"
    using c by (auto simp: piece_def)
qed

text \<open>What \<open>fragment_payload\<close> sends as its fragment \<open>i\<close>: the piece under a header that announces it, whose checksum verifies.\<close>

definition carries :: "u16 \<Rightarrow> u8 \<Rightarrow> u32 \<Rightarrow> u32 \<Rightarrow> fragment_data \<Rightarrow> u8 list \<Rightarrow> bool" where
  "carries ident proto src dst f packet \<longleftrightarrow>
     (\<exists>c. packet = ip_header_bytes (of_nat (20 + length (fg_data f))) ident (flags_word (fg_offset f div 8) (fg_more f)) proto src dst c @ fg_data f) \<and>
     internet_checksum (take 20 packet) = Some 0"

lemma fragment_payload_pieces:
  assumes "28 \<le> mtu" and "mtu < length payload + 20"
  obtains ps where "fragment_payload payload src dst ident proto mtu = Some ps"
    and "list_all2 (\<lambda>i. carries ident proto src dst (piece (frag_len mtu) (frag_count payload mtu) payload i)) [0..<frag_count payload mtu] ps"
proof -
  let ?m = "frag_len mtu" and ?n = "frag_count payload mtu" and ?l = "length payload"
  have sp: "splits ?m ?n ?l" using assms by (intro splits_frag) auto
  let ?f = "\<lambda>i. let offset = i * ?m; is_last = (i = ?n - 1); frag_size = (if is_last then ?l - offset else ?m)
     in Option.bind (slice_p payload offset (offset + frag_size)) (ip_packet ident (offset div 8) (\<not> is_last) proto src dst)"
  have "\<exists>y. ?f i = Some y \<and> carries ident proto src dst (piece ?m ?n payload i) y" if "i < ?n" for i
  proof -
    let ?s = "if i = ?n - 1 then ?l - i * ?m else ?m"
    note b = piece_bounds [OF sp that]
    have "take ?s (drop (i * ?m) payload) = fg_data (piece ?m ?n payload i)"
      using b(3) by (auto simp: piece_def split: if_splits)
    moreover have "i * ?m + ?s \<le> ?l" using b(1,2) by auto
    ultimately have sl: "slice_p payload (i * ?m) (i * ?m + ?s) = Some (fg_data (piece ?m ?n payload i))" by (simp add: slice_p_def)
    show ?thesis
      by (rule ip_packet_eq [of ident "i * ?m div 8" "i \<noteq> ?n - 1" proto src dst "fg_data (piece ?m ?n payload i)"])
        (use sl in \<open>auto simp: carries_def piece_def Let_def\<close>)
  qed
  then obtain ps where "those (map ?f [0..<?n]) = Some ps" "list_all2 (\<lambda>i. carries ident proto src dst (piece ?m ?n payload i)) [0..<?n] ps"
    using those_map_exists [of "[0..<?n]" ?f "\<lambda>i. carries ident proto src dst (piece ?m ?n payload i)"] by auto
  moreover have "fragment_payload payload src dst ident proto mtu = those (map ?f [0..<?n])"
    using assms sp unfolding fragment_payload_def Let_def frag_len_def [symmetric] frag_count_def [symmetric] by (simp add: splits_def)
  ultimately show ?thesis using that by simp
qed

subsection \<open>The search\<close>

definition search_ok :: "nat list \<Rightarrow> nat \<Rightarrow> nat \<Rightarrow> nat \<Rightarrow> nat \<Rightarrow> bool" where
  "search_ok xs x base k r \<longleftrightarrow>
     base \<le> r \<and> r < base + k \<and> (r = base \<or> xs ! r \<le> x) \<and> (\<forall>j. r < j \<and> j < base + k \<longrightarrow> x < xs ! j)"

lemma search_base_spec:
  "sorted xs \<Longrightarrow> 0 < k \<Longrightarrow> base + k \<le> length xs \<Longrightarrow> search_ok xs x base k (search_base xs x base k)"
proof (induction xs x base k rule: search_base.induct)
  case (1 xs x base k)
  show ?case
  proof (cases "k > 1")
    case False
    then show ?thesis using 1(3) by (simp add: search_base.simps [of xs x base k] search_ok_def)
  next
    case True
    let ?h = "k div 2"
    have h: "0 < ?h" "?h < k" using True by auto
    have mid: "base + ?h < length xs" using h 1(4) by linarith
    have step: "search_base xs x base k = search_base xs x (if xs ! (base + ?h) > x then base else base + ?h) (k - ?h)"
      using True by (simp add: search_base.simps [of xs x base k] Let_def)
    have ih: "base' = (if xs ! (base + ?h) > x then base else base + ?h) \<Longrightarrow> base' + (k - ?h) \<le> length xs \<Longrightarrow>
      search_ok xs x base' (k - ?h) (search_base xs x base' (k - ?h))" for base'
      using 1(1) [OF True refl refl 1(2)] h by simp
    show ?thesis
    proof (cases "xs ! (base + ?h) > x")
      case gt: True
      have hi: "x < xs ! j" if "base + ?h \<le> j" "j < base + k" for j
        using gt sorted_nth_mono [OF 1(2), of "base + ?h" j] that 1(4) by auto
      have "search_ok xs x base (k - ?h) (search_base xs x base k)" using ih [of base] gt 1(4) by (simp add: step)
      moreover have "j < base + (k - ?h) \<or> base + ?h \<le> j" for j by linarith
      moreover have "base + (k - ?h) \<le> base + k" by simp
      ultimately show ?thesis unfolding search_ok_def using hi by (blast intro: order_less_le_trans)
    next
      case False
      then show ?thesis using ih [of "base + ?h"] h 1(4) by (auto simp: step search_ok_def)
    qed
  qed
qed

lemma binary_search_spec:
  assumes "sorted xs"
  shows "binary_search xs x \<le> length xs \<and> (\<forall>j < binary_search xs x. xs ! j \<le> x) \<and>
    (\<forall>j. binary_search xs x \<le> j \<and> j < length xs \<longrightarrow> x \<le> xs ! j)"
proof (cases "xs = []")
  case False
  define r where "r = search_base xs x 0 (length xs)"
  have r: "r < length xs" "r = 0 \<or> xs ! r \<le> x" "\<And>j. r < j \<Longrightarrow> j < length xs \<Longrightarrow> x < xs ! j"
    using search_base_spec [OF assms, of "length xs" 0 x] False by (auto simp: r_def search_ok_def)
  have le: "j \<le> r \<Longrightarrow> xs ! j \<le> xs ! r" for j using sorted_nth_mono [OF assms] r(1) by simp
  have ge: "r \<le> j \<Longrightarrow> j < length xs \<Longrightarrow> xs ! r \<le> xs ! j" for j using sorted_nth_mono [OF assms] by simp
  have e: "binary_search xs x = (if xs ! r < x then r + 1 else r)" using False by (simp add: binary_search_def r_def Let_def)
  show ?thesis
  proof (cases "xs ! r < x")
    case True
    have "xs ! j \<le> x" if "j \<le> r" for j using le [OF that] True by linarith
    then show ?thesis using True r by (auto simp: e less_Suc_eq_le intro: less_imp_le)
  next
    case less: False
    have "xs ! j \<le> x" if "j < r" for j using le [of j] r(2) that by auto
    moreover have "x \<le> xs ! j" if "r \<le> j" "j < length xs" for j using ge [OF that] less by linarith
    ultimately show ?thesis using less r(1) by (auto simp: e)
  qed
qed (simp add: binary_search_def)

lemma insert_at_insort:
  assumes "sorted xs" and "k \<le> length xs" and "\<forall>j < k. xs ! j \<le> x" and "\<forall>j. k \<le> j \<and> j < length xs \<longrightarrow> x \<le> xs ! j"
  shows "take k xs @ x # drop k xs = insort x xs"
proof -
  have a: "\<forall>y \<in> set (take k xs). y \<le> x" using assms(2,3) by (auto simp: in_set_conv_nth)
  have b: "\<forall>y \<in> set (drop k xs). x \<le> y" using assms(2,4) by (auto simp: in_set_conv_nth)
  have "sorted (take k xs @ x # drop k xs)"
    using a b assms(1) by (fastforce simp: sorted_append intro: sorted_wrt_take sorted_wrt_drop)
  moreover have "mset (take k xs @ x # drop k xs) = mset (x # xs)"
    by (metis append_take_drop_id mset.simps(2) mset_append union_mset_add_mset_right)
  ultimately have "sort (x # xs) = take k xs @ x # drop k xs" using properties_for_sort by metis
  then show ?thesis using assms(1) by (simp add: sorted_sort_id)
qed

subsection \<open>Completeness of a fragment set\<close>

lemma piece_end:
  assumes "splits m n (length payload)" and "i < n"
  shows "i * m + length (fg_data (piece m n payload i)) = (if i = n - 1 then length payload else (i + 1) * m)"
  using piece_bounds [OF assms] by auto

lemma piece_simps [simp]: "fg_offset (piece m n payload i) = i * m" "fg_more (piece m n payload i) \<longleftrightarrow> i \<noteq> n - 1"
  by (simp_all add: piece_def)

lemma pieces_disjoint:
  assumes "splits m n (length payload)" and "i < n" and "set js \<subseteq> {..<n} - {i}"
  shows "\<not> has_overlap (map (piece m n payload) js) (piece m n payload i)"
proof -
  have e: "a * m + length (fg_data (piece m n payload a)) \<le> b * m" if "a < b" "b < n" for a b
  proof -
    have "(a + 1) * m \<le> b * m" using that by (intro mult_right_mono) auto
    then show ?thesis using piece_end [OF assms(1), of a] that by auto
  qed
  have "\<not> (i * m < j * m + length (fg_data (piece m n payload j)) \<and> j * m < i * m + length (fg_data (piece m n payload i)))"
    if "j \<in> set js" for j
  proof -
    have "j < n" "j \<noteq> i" using that assms(3) by auto
    then show ?thesis using e [of i j] e [of j i] assms(2) by (cases "i < j") auto
  qed
  then show ?thesis by (auto simp: has_overlap_def list_ex_iff Let_def)
qed

lemma last_end_pieces:
  assumes "splits m n (length payload)" and "set js \<subseteq> {..<n}"
  shows "last_end (map (piece m n payload) js) = (if n - 1 \<in> set js then Some (length payload) else None)"
  using assms(2)
proof (induction js rule: rev_induct)
  case (snoc j js)
  then show ?case using piece_end [OF assms(1), of j] by (auto simp: last_end_def)
qed (simp add: last_end_def)

lemma covered_pieces:
  assumes "splits m n (length payload)"
  shows "sorted_wrt (<) js \<Longrightarrow> \<forall>j \<in> set js. a \<le> j \<and> j < n \<Longrightarrow> n - 1 \<in> set js \<Longrightarrow>
    covered (map (piece m n payload) js) (a * m) = (if js = [a..<n] then Some (length payload) else None)"
proof (induction js arbitrary: a)
  case (Cons j js)
  have j: "a \<le> j" "j < n" and m: "0 < m" using Cons.prems assms by (auto simp: splits_def)
  show ?case
  proof (cases "j = a")
    case False
    then have "a * m < j * m" using j m by simp
    then show ?thesis using False j by (auto simp: upt_rec [of a n])
  next
    case True
    have up: "[a..<n] = a # [a + 1..<n]" using j True by (simp add: upt_rec [of a n])
    show ?thesis
    proof (cases "a = n - 1")
      case last: True
      then have "js = []" using Cons.prems(1,2) True by (cases js) auto
      moreover have "[a..<n] = [a]" using up last by simp
      ultimately show ?thesis using piece_end [OF assms j(2)] True last piece_bounds(1) [OF assms j(2)] by (simp add: max_def)
    next
      case False
      have "covered (map (piece m n payload) js) ((a + 1) * m) = (if js = [a + 1..<n] then Some (length payload) else None)"
        using Cons.prems True False by (intro Cons.IH) auto
      then show ?thesis using piece_end [OF assms j(2)] True False up by (auto simp: max_def add.commute)
    qed
  qed
qed simp

lemma copy_pieces:
  assumes "splits m n (length payload)" and "k \<le> n"
  shows "copy_fragments (map (piece m n payload) [k..<n]) (length payload) (take (k * m) payload @ replicate (length payload - k * m) 0) =
    Some payload"
  using assms(2)
proof (induction k rule: inc_induct)
  case base
  then show ?case using assms(1) by (simp add: splits_def)
next
  case (step k)
  let ?l = "length payload" and ?f = "piece m n payload k"
  note b = piece_bounds [OF assms(1) step(2)] and e = piece_end [OF assms(1) step(2)]
  have k: "k * m \<le> ?l" "k * m + length (fg_data ?f) \<le> ?l" using b e by (auto split: if_splits)
  then have "put_slice (k * m) (fg_data ?f) (take (k * m) payload @ replicate (?l - k * m) 0) =
    Some (take (k * m) payload @ fg_data ?f @ replicate (?l - k * m - length (fg_data ?f)) 0)"
    by (simp add: put_slice_def)
  moreover have "take (k * m) payload @ fg_data ?f = take ((k + 1) * m) payload"
    unfolding distrib_right take_add by (simp add: piece_def)
  moreover have "?l - k * m - length (fg_data ?f) = ?l - (k + 1) * m" by (simp add: piece_def min_def add.commute)
  ultimately have "put_slice (k * m) (fg_data ?f) (take (k * m) payload @ replicate (?l - k * m) 0) =
    Some (take ((k + 1) * m) payload @ replicate (?l - (k + 1) * m) 0)" by (metis append.assoc)
  moreover have "min (k * m + length (fg_data ?f)) ?l = k * m + length (fg_data ?f)" using k by simp
  ultimately show ?case using step by (simp add: upt_rec [of k n] Let_def)
qed

lemma sorted_offsets: "sorted js \<Longrightarrow> sorted (map fg_offset (map (piece m n payload) js))"
  by (simp add: comp_def sorted_map sorted_wrt_mono_rel [of js "(\<le>)"])

lemma check_complete_pieces:
  assumes "splits m n (length payload)" and "sorted js" and "distinct js" and "set js \<subseteq> {..<n}"
    and "fs_fragments st = map (piece m n payload) js"
  shows "check_complete st = Some (if js = [0..<n] then Some payload else None)"
proof -
  have srt: "sort_key fg_offset (map (piece m n payload) js) = map (piece m n payload) js"
    by (rule sort_key_id_if_sorted [OF sorted_offsets [OF assms(2)]])
  have n: "0 < n" using assms(1) by (simp add: splits_def)
  show ?thesis
  proof (cases "n - 1 \<in> set js")
    case False
    then have "js \<noteq> [0..<n]" using n by auto
    then show ?thesis using False last_end_pieces [OF assms(1,4)] assms(5) by (simp add: check_complete_def)
  next
    case True
    have "covered (map (piece m n payload) js) 0 = (if js = [0..<n] then Some (length payload) else None)"
      using covered_pieces [OF assms(1), of js 0] True assms(2,3,4) by (simp add: strict_sorted_iff subset_iff)
    moreover have "copy_fragments (map (piece m n payload) [0..<n]) (length payload) (replicate (length payload) 0) = Some payload"
      using copy_pieces [OF assms(1), of 0] by simp
    ultimately show ?thesis using True last_end_pieces [OF assms(1,4)] assms(5) srt by (auto simp: check_complete_def)
  qed
qed

subsection \<open>Delivery in any order\<close>

text \<open>The set for \<open>key\<close> holds the fragments \<open>fs\<close>; the sets of other datagrams are those of \<open>s0\<close>.\<close>

definition buffered :: "fragment_key \<Rightarrow> fragment_data list \<Rightarrow> frag_state \<Rightarrow> frag_state \<Rightarrow> bool" where
  "buffered key fs s0 s \<longleftrightarrow>
     map_option fs_fragments (bt_get (fc_cache s) key) = (if fs = [] then None else Some fs) \<and>
     (\<forall>k. k \<noteq> key \<longrightarrow> bt_get (fc_cache s) k = bt_get (fc_cache s0) k)"

lemma insert_piece:
  assumes "sorted js" and "0 < m" and k_def: "k = binary_search (map fg_offset (map (piece m n payload) js)) (i * m)"
  shows "take k (map (piece m n payload) js) @ piece m n payload i # drop k (map (piece m n payload) js) =
    map (piece m n payload) (insort i js)"
proof -
  let ?xs = "map fg_offset (map (piece m n payload) js)"
  have "k \<le> length js \<and> (\<forall>j < k. js ! j \<le> i) \<and> (\<forall>j. k \<le> j \<and> j < length js \<longrightarrow> i \<le> js ! j)"
    using binary_search_spec [OF sorted_offsets [OF assms(1), of m n payload], of "i * m"] assms(2) by (auto simp: k_def)
  then have "take k js @ i # drop k js = insort i js" using assms(1) by (intro insert_at_insort) auto
  then show ?thesis by (metis list.simps(9) map_append take_map drop_map)
qed

lemma receive_piece:
  assumes sp: "splits m n (length payload)" and js: "sorted js" "distinct js" "set js \<subseteq> {..<n} - {i}" and i: "i < n" and n: "n \<le> 64"
    and buf: "buffered key (map (piece m n payload) js) s0 s" and room: "js = [] \<longrightarrow> length (fc_cache s) < 256"
  shows "\<exists>s'. reassemble_fragment key (piece m n payload i) now s =
      Some (Inr (if insort i js = [0..<n] then Some payload else None), s') \<and>
      buffered key (if insort i js = [0..<n] then [] else map (piece m n payload) (insort i js)) s0 s'"
proof -
  let ?p = "piece m n payload"
  define st where "st = (case bt_get (fc_cache s) key of Some st \<Rightarrow> st | None \<Rightarrow> \<lparr>fs_timestamp = now, fs_fragments = [], fs_total_payload_length = None\<rparr>)"
  have fr: "fs_fragments st = map ?p js" using buf by (auto simp: buffered_def st_def split: option.splits if_splits)
  have "card (set js) \<le> card ({..<n} - {i})" using js(3) by (intro card_mono) auto
  then have len: "length js < 64" using js(2) i n by (simp add: distinct_card)
  have nofull: "\<not> (bt_get (fc_cache s) key = None \<and> 256 \<le> length (fc_cache s))"
    using buf room by (auto simp: buffered_def split: if_splits)
  have ins: "take k (map ?p js) @ ?p i # drop k (map ?p js) = map ?p (insort i js)"
    if "k = binary_search (map fg_offset (map ?p js)) (i * m)" for k
    using insert_piece [OF js(1) _ that] sp by (simp add: splits_def)
  have cc: "check_complete (st\<lparr>fs_timestamp := now, fs_fragments := map ?p (insort i js)\<rparr>) = Some (if insort i js = [0..<n] then Some payload else None)"
    using js i by (intro check_complete_pieces [OF sp]) (auto simp: sorted_insort distinct_insort set_insort_key)
  show ?thesis
    using nofull len pieces_disjoint [OF sp i js(3)] fr ins [OF refl] cc buf
    by (simp add: reassemble_fragment_def st_def [symmetric] stat_def Let_def buffered_def)
qed

lemma try_piece:
  assumes sp: "splits m n (length payload)" and n: "2 \<le> n" and i: "i < n" and l: "length payload \<le> 65515"
    and c: "carries ident proto src dst (piece m n payload i) packet"
  shows "try_reassemble packet now s = reassemble_fragment (src, dst, ident, proto) (piece m n payload i) now s"
proof -
  let ?f = "piece m n payload i"
  have m8: "m mod 8 = 0" and m: "0 < m" using sp by (auto simp: splits_def)
  then have off: "i * m div 8 * 8 = i * m" by (metis mod_mult_right_eq mult_0_right mod_0 minus_mod_eq_div_mult diff_zero)
  have b: "i * m \<le> 65515" using piece_bounds(1) [OF sp i] l by linarith
  have body: "length (fg_data ?f) < 65516" using piece_end [OF sp i] piece_bounds(2) [OF sp i] l by (auto split: if_splits)
  have pos: "fg_more ?f \<or> 0 < i * m div 8"
  proof (cases "i = n - 1")
    case True
    then have "0 < i * m" using n m by simp
    then show ?thesis using off by (cases "i * m div 8") auto
  qed simp
  have al: "fg_more ?f \<longrightarrow> length (fg_data ?f) mod 8 = 0" using piece_bounds(3) [OF sp i] m8 by simp
  have "?f = \<lparr>fg_offset = i * m div 8 * 8, fg_data = fg_data ?f, fg_more = fg_more ?f\<rparr>" using off by (simp add: piece_def)
  then show ?thesis using c try_reassemble_packet [of "i * m div 8" "fg_data ?f" "fg_more ?f"] b body pos al
    by (auto simp: carries_def)
qed

fun deliver :: "(u8 list \<times> u64) list \<Rightarrow> frag_state \<Rightarrow> ((string + u8 list option) list \<times> frag_state) panics" where
  "deliver [] s = Some ([], s)"
| "deliver ((packet, now) # ds) s = do {
     (r, s) \<leftarrow> try_reassemble packet now s;
     (rs, s) \<leftarrow> deliver ds s;
     Some (r # rs, s) }"

lemma deliver_pieces:
  assumes sp: "splits m n (length payload)" and n: "2 \<le> n" "n \<le> 64" and l: "length payload \<le> 65515"
    and key: "key = (src, dst, ident, proto)"
  shows "js \<noteq> [] \<Longrightarrow> distinct (got @ js) \<Longrightarrow> set (got @ js) = {..<n} \<Longrightarrow>
    list_all2 (\<lambda>j d. carries ident proto src dst (piece m n payload j) (fst d)) js ds \<Longrightarrow>
    buffered key (map (piece m n payload) (sort got)) s0 s \<Longrightarrow> (got = [] \<longrightarrow> length (fc_cache s) < 256) \<Longrightarrow>
    \<exists>s'. deliver ds s = Some (replicate (length js - 1) (Inr None) @ [Inr (Some payload)], s') \<and> buffered key [] s0 s'"
proof (induction js arbitrary: got ds s)
  case (Cons j js)
  obtain packet now ds' where ds: "ds = (packet, now) # ds'" "carries ident proto src dst (piece m n payload j) packet"
    "list_all2 (\<lambda>j d. carries ident proto src dst (piece m n payload j) (fst d)) js ds'"
    using Cons.prems(4) by (cases ds) auto
  have j: "j < n" using Cons.prems(3) by auto
  have got: "sorted (sort got)" "distinct (sort got)" "set (sort got) \<subseteq> {..<n} - {j}" using Cons.prems(2,3) by auto
  have srt: "insort j (sort got) = sort (j # got)" "sort got = [] \<longleftrightarrow> got = []" by simp (metis length_0_conv length_sort)
  have len: "length got + length js + 1 = n" using distinct_card [OF Cons.prems(2)] Cons.prems(3) by simp
  have all: "sort (j # got) = [0..<n] \<longleftrightarrow> js = []"
  proof
    show "js = []" if "sort (j # got) = [0..<n]" using len arg_cong [OF that, of length] by (cases js) auto
    assume "js = []"
    then have eq: "set (j # got) = {..<n}" and d: "distinct (j # got)" using Cons.prems(2,3) by simp_all
    have "set (sort (j # got)) = set [0..<n]" unfolding set_sort eq by (simp add: lessThan_atLeast0)
    moreover have "distinct (sort (j # got))" unfolding distinct_sort by (rule d)
    ultimately show "sort (j # got) = [0..<n]" by (intro sorted_distinct_set_unique sorted_sort sorted_upt distinct_upt)
  qed
  obtain s' where s': "try_reassemble packet now s = Some (Inr (if js = [] then Some payload else None), s')"
    "buffered key (if js = [] then [] else map (piece m n payload) (sort (j # got))) s0 s'"
    using receive_piece [OF sp got j n(2) Cons.prems(5), of now] Cons.prems(6) try_piece [OF sp n(1) j l ds(2), of now s] key
    unfolding srt all by auto
  show ?case
  proof (cases "js = []")
    case True
    then show ?thesis using s' ds by simp
  next
    case False
    have "\<exists>s''. deliver ds' s' = Some (replicate (length js - 1) (Inr None) @ [Inr (Some payload)], s'') \<and> buffered key [] s0 s''"
      using Cons.prems(2,3) s'(2) False ds(3) by (intro Cons.IH [of "j # got"]) auto
    then show ?thesis using s'(1) False ds(1) by (cases js) auto
  qed
qed simp

lemma frag_count_ge2:
  assumes "28 \<le> mtu" and "mtu < length payload + 20"
  shows "2 \<le> frag_count payload mtu"
proof (rule ccontr)
  assume "\<not> 2 \<le> frag_count payload mtu"
  then have "frag_count payload mtu * frag_len mtu \<le> 1 * frag_len mtu" by (intro mult_right_mono) auto
  moreover have "frag_len mtu \<le> mtu - 20" by (simp add: frag_len_def)
  moreover have "length payload \<le> frag_count payload mtu * frag_len mtu"
    using splits_frag [OF assms(1), of payload] assms by (force simp: splits_def)
  ultimately show False using assms by linarith
qed

text \<open>C5: Fragmentation and reassembly are inverse whatever the order of arrival: when a payload of at most 65515 bytes is cut into
  at most 64 fragments and these are delivered in any order and at any times to a cache that has room and holds nothing for this
  datagram, every delivery but the last answers that the datagram is incomplete, the last returns exactly the payload, and the
  cache holds for every datagram what it held before.\<close>

theorem fragments_reassemble:
  assumes "28 \<le> mtu" and "mtu < length payload + 20" and "length payload \<le> 65515" and "frag_count payload mtu \<le> 64"
    and "fragment_payload payload src dst ident proto mtu = Some ps" and "mset (map fst ds) = mset ps"
    and "bt_get (fc_cache s) (src, dst, ident, proto) = None" and "length (fc_cache s) < 256"
  shows "\<exists>s'. deliver ds s = Some (replicate (length ps - 1) (Inr None) @ [Inr (Some payload)], s') \<and>
    bt_get (fc_cache s') = bt_get (fc_cache s)"
proof -
  let ?m = "frag_len mtu" and ?n = "frag_count payload mtu" and ?key = "(src, dst, ident, proto)"
  let ?c = "\<lambda>i. carries ident proto src dst (piece ?m ?n payload i)"
  have sp: "splits ?m ?n (length payload)" using assms(1,2) by (intro splits_frag) auto
  have "list_all2 ?c [0..<?n] ps" using fragment_payload_pieces [OF assms(1,2), of src dst ident proto] assms(5) by force
  then have "list_all2 (\<lambda>p i. ?c i p) ps [0..<?n]" by (auto simp: list_all2_conv_all_nth)
  from list_all2_reorder_left_invariance [OF this assms(6)]
  obtain js where js: "list_all2 (\<lambda>p i. ?c i p) (map fst ds) js" "mset js = mset [0..<?n]" by auto
  have len: "length ps = length js" using js assms(6) by (metis list_all2_lengthD mset_eq_length)
  have all: "list_all2 (\<lambda>j d. ?c j (fst d)) js ds" using js(1) by (auto simp: list_all2_conv_all_nth)
  have set: "set js = {..<?n}" using mset_eq_setD [OF js(2)] by (simp add: lessThan_atLeast0)
  have dis: "distinct js" using mset_eq_imp_distinct_iff [OF js(2)] by simp
  have "0 \<in> set js" unfolding set using frag_count_ge2 [OF assms(1,2)] by simp
  then have ne: "js \<noteq> []" by force
  have "\<exists>s'. deliver ds s = Some (replicate (length js - 1) (Inr None) @ [Inr (Some payload)], s') \<and> buffered ?key [] s s'"
    by (rule deliver_pieces [OF sp frag_count_ge2 [OF assms(1,2)] assms(4,3) refl ne, where got = "[]"])
      (use set dis all assms(7,8) in \<open>simp_all add: buffered_def\<close>)
  moreover have "buffered ?key [] s s' \<Longrightarrow> bt_get (fc_cache s') = bt_get (fc_cache s)" for s'
    using assms(7) by (auto simp: buffered_def fun_eq_iff) (metis option.map_disc_iff)
  ultimately show ?thesis using len by auto
qed

theorem fragments_reassemble_witness:
  "\<exists>ps s'. fragment_payload (replicate 16 7) 1 2 3 17 28 = Some ps \<and>
     deliver (map (\<lambda>p. (p, 0)) (rev ps)) \<lparr>fc_cache = [], fc_stats = FRAGMENT_STATS_DEFAULT\<rparr> =
       Some ([Inr None, Inr (Some (replicate 16 7))], s')"
proof -
  let ?s = "\<lparr>fc_cache = [], fc_stats = FRAGMENT_STATS_DEFAULT\<rparr> :: frag_state"
  have n: "frag_count (replicate 16 7) 28 = 2" by (simp add: frag_count_def frag_len_def)
  obtain ps where ps: "fragment_payload (replicate 16 7) 1 2 3 17 28 = Some ps"
    and all: "list_all2 (\<lambda>i. carries 3 17 1 2 (piece (frag_len 28) (frag_count (replicate 16 7) 28) (replicate 16 7) i))
      [0..<frag_count (replicate 16 7) 28] ps"
    by (rule fragment_payload_pieces [of 28 "replicate 16 7" 1 2 3 17]) simp_all
  have len: "length ps = 2" using list_all2_lengthD [OF all] n by simp
  have "mset (map fst (map (\<lambda>p. (p, 0 :: u64)) (rev ps))) = mset ps" by (simp add: comp_def)
  from fragments_reassemble [OF _ _ _ _ ps this, of ?s] obtain s' where
    "deliver (map (\<lambda>p. (p, 0)) (rev ps)) ?s = Some (replicate (length ps - 1) (Inr None) @ [Inr (Some (replicate 16 7))], s')"
    using n by auto
  then show ?thesis using ps len by auto
qed

subsection \<open>Panics\<close>



lemma copy_fragments_panics:
  "length buf = t \<Longrightarrow> copy_fragments fs t buf = None \<longleftrightarrow> (\<exists>f \<in> set fs. t < fg_offset f)"
proof (induction fs arbitrary: buf)
  case (Cons f fs)
  let ?e = "min (fg_offset f + length (fg_data f)) t"
  show ?case
  proof (cases "t < fg_offset f")
    case True
    then show ?thesis by (simp add: Let_def)
  next
    case False
    then obtain buf' where "put_slice (fg_offset f) (take (?e - fg_offset f) (fg_data f)) buf = Some buf'"
      using Cons.prems by (auto simp: put_slice_def)
    then show ?thesis using False Cons.IH [of buf'] Cons.prems put_slice_length by (auto simp: Let_def)
  qed
qed simp

text \<open>The completeness check panics exactly when the fragments cover the announced length without a gap and one of them
  starts beyond that length, which a sender can arrange.\<close>

theorem check_complete_panics:
  "check_complete st = None \<longleftrightarrow>
     (\<exists>total_length covered_up_to. last_end (fs_fragments st) = Some total_length \<and>
        covered (sort_key fg_offset (fs_fragments st)) 0 = Some covered_up_to \<and> total_length \<le> covered_up_to \<and>
        (\<exists>f. f \<in> set (fs_fragments st) \<and> total_length < fg_offset f))"
  using copy_fragments_panics [of "replicate t 0" t "fs_fragments st" for t]
  by (auto simp: check_complete_def not_less Option.bind_eq_None_conv split: option.splits)

text \<open>Four fragments that do: 8 bytes at offsets 0, 8 and 16, then an empty last fragment at offset 8.\<close>

lemma overrun_reachable:
  "check_complete \<lparr>fs_timestamp = 0, fs_fragments = [
      \<lparr>fg_offset = 0, fg_data = replicate 8 0, fg_more = True\<rparr>, \<lparr>fg_offset = 8, fg_data = [], fg_more = False\<rparr>,
      \<lparr>fg_offset = 8, fg_data = replicate 8 0, fg_more = True\<rparr>, \<lparr>fg_offset = 16, fg_data = replicate 8 0, fg_more = True\<rparr>],
      fs_total_payload_length = None\<rparr> = None"
  by code_simp

end
