(* ===== verification/Net_Stack.thy ===== *)
theory Net_Stack
  imports Net_Route Net_Fragment_Props
begin

text \<open>
  The frame dispatcher of \<open>kernel/src/net/mod.rs\<close> over the ARP cache, the routes and the fragment cache, and the size checks of
  \<open>kernel/src/drivers/net.rs\<close>. What the stack hands to the network device and to the TCP, UDP and IPv6 modules is recorded in
  order as actions; those modules are not modelled. It is shown that an echo request is answered with valid checksums, that two
  hosts resolve each other's addresses, that a frame without a fragment never panics, and that an incomplete datagram is
  dispatched early.
\<close>

abbreviation (input) MAX_FRAME_SIZE :: nat where "MAX_FRAME_SIZE \<equiv> 1518"
abbreviation (input) MIN_FRAME_SIZE :: nat where "MIN_FRAME_SIZE \<equiv> 14"

datatype net_action =
    Transmit "u8 list"
  | Tcp_packet u32 u32 "u8 list"
  | Udp_packet u32 "u8 list"
  | Ipv6_frame mac "u8 list"

datatype net_error = FrameTooLarge | FrameTooSmall

record net_state =
  nt_arp :: arp_table
  nt_frags :: frag_state
  nt_dhcp :: network_state
  nt_mac :: mac
  nt_ticks :: u64
  nt_out :: "net_action list"

definition emit :: "net_action \<Rightarrow> net_state \<Rightarrow> net_state" where
  "emit a s = s\<lparr>nt_out := nt_out s @ [a]\<rparr>"

definition send_frame :: "u8 list \<Rightarrow> net_state \<Rightarrow> net_error option \<times> net_state" where
  "send_frame data s =
     (if length data > MAX_FRAME_SIZE then (Some FrameTooLarge, s)
      else if length data < MIN_FRAME_SIZE then (Some FrameTooSmall, s)
      else (None, emit (Transmit data) s))"

definition handle_arp :: "u8 list \<Rightarrow> net_state \<Rightarrow> net_state panics" where
  "handle_arp payload s = do {
     r \<leftarrow> parse_arp payload;
     case r of
       None \<Rightarrow> Some s
     | Some arp \<Rightarrow>
         let s = s\<lparr>nt_arp := arp_learn (nt_ticks s) arp (nt_arp s)\<rparr> in
         if ah_opcode arp = ARP_OP_REQUEST then
           if ah_target_ip arp \<noteq> local_ip (nt_dhcp s) then Some s
           else do {
             reply_payload \<leftarrow> build_arp_reply (nt_mac s) (local_ip (nt_dhcp s)) (ah_sender_mac arp) (ah_sender_ip arp);
             frame \<leftarrow> build_ethernet (ah_sender_mac arp) (nt_mac s) ETHERTYPE_ARP reply_payload;
             Some (snd (send_frame frame s)) }
         else Some s }"

definition send_arp_request :: "u32 \<Rightarrow> net_state \<Rightarrow> net_state panics" where
  "send_arp_request target_ip s = do {
     request_payload \<leftarrow> build_arp_request (nt_mac s) (local_ip (nt_dhcp s)) target_ip;
     frame \<leftarrow> build_ethernet BROADCAST_MAC (nt_mac s) ETHERTYPE_ARP request_payload;
     Some (snd (send_frame frame s)) }"

definition handle_icmp :: "mac \<Rightarrow> u32 \<Rightarrow> u8 list \<Rightarrow> net_state \<Rightarrow> net_state panics" where
  "handle_icmp eth_src src_ip icmp_payload s = do {
     r \<leftarrow> parse_icmp icmp_payload;
     case r of
       None \<Rightarrow> Some s
     | Some icmp \<Rightarrow>
         if ic_msg_type icmp \<noteq> ICMP_TYPE_ECHO_REQUEST then Some s
         else do {
           let reply_icmp = replicate (length icmp_payload) 0;
           reply_icmp \<leftarrow> put_slice 0 [ICMP_TYPE_ECHO_REPLY] reply_icmp;
           reply_icmp \<leftarrow> put_slice 1 [ICMP_CODE_ZERO] reply_icmp;
           reply_icmp \<leftarrow> put_slice 2 [0] reply_icmp;
           reply_icmp \<leftarrow> put_slice 3 [0] reply_icmp;
           body \<leftarrow> slice_p icmp_payload 4 (length icmp_payload);
           reply_icmp \<leftarrow> put_slice 4 body reply_icmp;
           checksum \<leftarrow> internet_checksum reply_icmp;
           reply_icmp \<leftarrow> write_u16_be 2 checksum reply_icmp;
           let ip_total_len = of_nat (IP_HEADER_MIN_SIZE + length reply_icmp);
           let ip_header = replicate IP_HEADER_MIN_SIZE 0;
           ip_header \<leftarrow> put_slice 0 [push_bit 4 IP_VERSION_4 OR IP_IHL_NO_OPTIONS] ip_header;
           ip_header \<leftarrow> write_u16_be 2 ip_total_len ip_header;
           ip_header \<leftarrow> put_slice 8 [IP_DEFAULT_TTL] ip_header;
           ip_header \<leftarrow> put_slice 9 [IP_PROTO_ICMP] ip_header;
           ip_header \<leftarrow> write_u32_be 12 (local_ip (nt_dhcp s)) ip_header;
           ip_header \<leftarrow> write_u32_be 16 src_ip ip_header;
           ip_checksum \<leftarrow> internet_checksum ip_header;
           ip_header \<leftarrow> write_u16_be 10 ip_checksum ip_header;
           frame \<leftarrow> build_ethernet eth_src (nt_mac s) ETHERTYPE_IPV4 (ip_header @ reply_icmp);
           Some (snd (send_frame frame s)) } }"

definition dispatch_ipv4_payload :: "mac \<Rightarrow> u8 \<Rightarrow> u32 \<Rightarrow> u32 \<Rightarrow> u8 list \<Rightarrow> net_state \<Rightarrow> net_state panics" where
  "dispatch_ipv4_payload eth_src protocol src_ip dst_ip data s =
     (if protocol = IP_PROTO_ICMP then handle_icmp eth_src src_ip data s
      else if protocol = IP_PROTO_TCP then Some (emit (Tcp_packet src_ip dst_ip data) s)
      else if protocol = IP_PROTO_UDP then Some (emit (Udp_packet src_ip data) s)
      else Some s)"

definition handle_ipv4 :: "mac \<Rightarrow> u8 list \<Rightarrow> net_state \<Rightarrow> net_state panics" where
  "handle_ipv4 src_mac payload s = do {
     h \<leftarrow> parse_ipv4 payload;
     case h of
       None \<Rightarrow> Some s
     | Some ipv4 \<Rightarrow> do {
         (r, frags) \<leftarrow> try_reassemble payload (nt_ticks s) (nt_frags s);
         let s = s\<lparr>nt_frags := frags\<rparr>;
         case r of
           Inl _ \<Rightarrow> Some s
         | Inr (Some reassembled) \<Rightarrow> dispatch_ipv4_payload src_mac (ip_protocol ipv4) (ip_src ipv4) (ip_dst ipv4) reassembled s
         | Inr None \<Rightarrow> do {
             body \<leftarrow> slice_p payload (ip_header_len ipv4) (length payload);
             dispatch_ipv4_payload src_mac (ip_protocol ipv4) (ip_src ipv4) (ip_dst ipv4) body s } } }"

definition handle_frame :: "u8 list \<Rightarrow> net_state \<Rightarrow> net_state panics" where
  "handle_frame data s = do {
     r \<leftarrow> parse_ethernet data;
     case r of
       None \<Rightarrow> Some s
     | Some (eth, payload) \<Rightarrow>
         if eh_ethertype eth = ETHERTYPE_ARP then handle_arp payload s
         else if eh_ethertype eth = ETHERTYPE_IPV4 then handle_ipv4 (eh_src_mac eth) payload s
         else if eh_ethertype eth = ETHERTYPE_IPV6 then Some (emit (Ipv6_frame (eh_src_mac eth) payload) s)
         else Some s }"

subsection \<open>Echo replies\<close>

lemma write_be_put [simp]: "write_u16_be off v buf = put_slice off (to_be16 v) buf" "write_u32_be off w buf = put_slice off (to_be32 w) buf"
  by (simp_all add: write_u16_be_def write_u32_be_def)

definition echo_reply :: "u16 \<Rightarrow> u8 list \<Rightarrow> u8 list" where
  "echo_reply checksum payload = [0, 0] @ to_be16 checksum @ drop 4 payload"

lemma echo_total: "word_total (echo_reply c payload) = word_total (echo_reply 0 payload) + unat c"
  using unat_to_be16 [of c] by (simp add: echo_reply_def to_be16_def)

lemma echo_total_bound: "4 \<le> length payload \<Longrightarrow> length payload < 131072 \<Longrightarrow> word_total (echo_reply c payload) < 2 ^ 32"
  using word_total_bound [of "echo_reply c payload"] by (simp add: echo_reply_def to_be16_def)

lemma echo_checksum:
  assumes "4 \<le> length payload" and "length payload < 131072"
  obtains c where "internet_checksum (echo_reply 0 payload) = Some c" "internet_checksum (echo_reply c payload) = Some 0"
proof -
  obtain c where c: "internet_checksum (echo_reply 0 payload) = Some c"
    using internet_checksum_ones [OF echo_total_bound [OF assms]] by blast
  show ?thesis by (rule that [OF c checksum_verifies [OF c echo_total echo_total_bound [OF assms]]])
qed

lemma put_zero: "k < n \<Longrightarrow> put_slice k [0] (replicate n 0) = Some (replicate n 0)"
  by (auto simp: put_slice_def replicate_add replicate_app_Cons_same dest!: less_imp_Suc_add)

text \<open>The header of the reply, written field by field.\<close>

lemma icmp_header_build:
  obtains h1 h2 h3 h4 h5 where "put_slice 0 [push_bit 4 4 OR 5 :: u8] (replicate 20 0) = Some h1" "put_slice 2 (to_be16 len) h1 = Some h2"
    "put_slice 8 [64] h2 = Some h3" "put_slice 9 [1] h3 = Some h4" "put_slice 12 (to_be32 src) h4 = Some h5"
    "put_slice 16 (to_be32 dst) h5 = Some (ip_header_bytes len 0 0 1 src dst 0)"
    "\<And>c. put_slice 10 (to_be16 c) (ip_header_bytes len 0 0 1 src dst 0) = Some (ip_header_bytes len 0 0 1 src dst c)"
proof
  let ?a = "0x45 # replicate 19 0" and ?b = "[0x45, 0] @ to_be16 len @ replicate 16 0"
  let ?c = "take 8 ?b @ 64 # replicate 11 0"
  let ?d = "take 9 ?c @ 1 # replicate 10 0"
  show "put_slice 0 [push_bit 4 4 OR 5 :: u8] (replicate 20 0) = Some ?a" by (simp add: put_slice_def)
  have z: "replicate 4 0 = [0, 0, 0, 0 :: u8]" "replicate 2 0 = [0, 0 :: u8]" by (simp_all add: numeral_eq_Suc)
  show "put_slice 2 (to_be16 len) ?a = Some ?b" "put_slice 8 [64] ?b = Some ?c" "put_slice 9 [1] ?c = Some ?d"
    "put_slice 12 (to_be32 src) ?d = Some (take 12 ?d @ to_be32 src @ replicate 4 0)"
    "put_slice 16 (to_be32 dst) (take 12 ?d @ to_be32 src @ replicate 4 0) = Some (ip_header_bytes len 0 0 1 src dst 0)"
    "put_slice 10 (to_be16 c) (ip_header_bytes len 0 0 1 src dst 0) = Some (ip_header_bytes len 0 0 1 src dst c)" for c
    by (simp_all add: put_slice_def to_be16_def to_be32_def ip_header_bytes_def z)
qed

text \<open>The reply that is built for an echo request.\<close>

lemma handle_icmp_reply:
  assumes "8 \<le> length payload" and "length payload < 131072" and "hd payload = 8" and "length mac = 6" and "length (nt_mac s) = 6"
  obtains c d where
    "handle_icmp mac src payload s = Some (snd (send_frame (mac @ nt_mac s @ [0x08, 0x00] @
       ip_header_bytes (of_nat (20 + length payload)) 0 0 1 (local_ip (nt_dhcp s)) src d @ echo_reply c payload) s))"
    and "internet_checksum (ip_header_bytes (of_nat (20 + length payload)) 0 0 1 (local_ip (nt_dhcp s)) src d) = Some 0"
    and "internet_checksum (echo_reply c payload) = Some 0"
proof -
  let ?h = "ip_header_bytes (of_nat (20 + length payload)) 0 0 1 (local_ip (nt_dhcp s)) src"
  have l4: "4 \<le> length payload" using assms(1) by simp
  obtain c where c: "internet_checksum (echo_reply 0 payload) = Some c" "internet_checksum (echo_reply c payload) = Some 0"
    by (rule echo_checksum [OF l4 assms(2)])
  obtain d where d: "internet_checksum (?h 0) = Some d" "internet_checksum (?h d) = Some 0" by (rule header_checksum)
  have icmp: "\<exists>icmp. parse_icmp payload = Some (Some icmp) \<and> ic_msg_type icmp = 8"
    using assms(1,3) by (cases payload) (auto simp: parse_icmp_def at_p_def read_u16_be_def)
  have body: "slice_p payload 4 (length payload) = Some (drop 4 payload)" using l4 by (simp add: slice_p_def)
  have reply: "put_slice 4 (drop 4 payload) (replicate (length payload) 0) = Some (echo_reply 0 payload)"
    "put_slice 2 (to_be16 c) (echo_reply 0 payload) = Some (echo_reply c payload)" "length (echo_reply c payload) = length payload"
    using l4 by (simp_all add: put_slice_def echo_reply_def to_be16_def numeral_eq_Suc)
  have zero: "put_slice k [0] (replicate (length payload) 0) = Some (replicate (length payload) 0)" if "k < 4" for k
    using assms(1) that by (intro put_zero) simp
  have eth: "build_ethernet mac (nt_mac s) 0x0800 p = Some (mac @ nt_mac s @ [0x08, 0x00] @ p)" for p
    using assms(4,5) by (simp add: build_ethernet_eq to_be16_def)
  have "handle_icmp mac src payload s = Some (snd (send_frame (mac @ nt_mac s @ [0x08, 0x00] @ ?h d @ echo_reply c payload) s))"
    by (rule icmp_header_build [of "of_nat (20 + length payload)" "local_ip (nt_dhcp s)" src])
      (use icmp body reply c(1) d(1) assms eth in \<open>auto simp: handle_icmp_def zero simp del: of_nat_add\<close>)
  then show ?thesis using c(2) d(2) that by blast
qed

lemma parse_ipv4_header:
  "parse_ipv4 (ip_header_bytes len ident fo proto src dst c @ body) =
     Some (Some \<lparr>ip_protocol = proto, ip_src = src, ip_dst = dst, ip_total_len = len, ip_header_len = 20\<rparr>)"
  by (simp add: parse_ipv4_def ip_header_bytes_def to_be16_def to_be32_def at_p_def read_u16_be_def read_u32_be_def Let_def)

text \<open>A host with a lease, for examples.\<close>

definition demo_host :: "u8 list \<Rightarrow> mac \<Rightarrow> net_state" where
  "demo_host ip m = \<lparr>nt_arp = [], nt_frags = \<lparr>fc_cache = [], fc_stats = FRAGMENT_STATS_DEFAULT\<rparr>,
     nt_dhcp = \<lparr>ns_ip = ip, ns_subnet_mask = [255, 255, 255, 0], ns_gateway = [10, 0, 2, 2], ns_dns = [10, 0, 2, 3], ns_configured = True,
       ns_lease_secs = 86400, ns_lease_acquired_tick = 0, ns_server_ip = [10, 0, 2, 2]\<rparr>,
     nt_mac = m, nt_ticks = 0, nt_out = []\<rparr>"

text \<open>C18: An ICMP echo request that fits a frame is answered with exactly one frame, addressed back to the sender. Its IPv4 header
  names the local address and the requester and verifies against its checksum, its ICMP message is an echo reply that verifies
  against its own, and the identifier, the sequence number and the data are those of the request.\<close>

theorem icmp_echo_reply:
  assumes "8 \<le> length payload" and "length payload \<le> 1484" and "hd payload = 8" and "length mac = 6" and "length (nt_mac s) = 6"
  shows "\<exists>frame. handle_icmp mac src payload s = Some (emit (Transmit frame) s) \<and>
    take 14 frame = mac @ nt_mac s @ [0x08, 0x00] \<and>
    parse_ipv4 (drop 14 frame) = Some (Some \<lparr>ip_protocol = 1, ip_src = local_ip (nt_dhcp s), ip_dst = src,
      ip_total_len = of_nat (20 + length payload), ip_header_len = 20\<rparr>) \<and>
    internet_checksum (take 20 (drop 14 frame)) = Some 0 \<and>
    take 2 (drop 34 frame) = [0, 0] \<and> internet_checksum (drop 34 frame) = Some 0 \<and> drop 38 frame = drop 4 payload"
proof -
  have "length payload < 131072" using assms(2) by simp
  from handle_icmp_reply [OF assms(1) this assms(3-5)]
  obtain c d where r: "handle_icmp mac src payload s = Some (snd (send_frame (mac @ nt_mac s @ [0x08, 0x00] @
       ip_header_bytes (of_nat (20 + length payload)) 0 0 1 (local_ip (nt_dhcp s)) src d @ echo_reply c payload) s))"
    and h: "internet_checksum (ip_header_bytes (of_nat (20 + length payload)) 0 0 1 (local_ip (nt_dhcp s)) src d) = Some 0"
    and e: "internet_checksum (echo_reply c payload) = Some 0" by blast
  have "length (echo_reply c payload) = length payload" using assms(1) by (simp add: echo_reply_def to_be16_def)
  then show ?thesis using r h e assms parse_ipv4_header
    by (intro exI conjI) (assumption | simp add: send_frame_def echo_reply_def to_be16_def del: of_nat_add)+
qed

theorem icmp_echo_reply_witness:
  "\<exists>frame. handle_icmp [1, 2, 3, 4, 5, 6] 0x0A000202 [8, 0, 0, 0, 0, 1, 0, 2, 42] (demo_host [10, 0, 2, 15] [6, 5, 4, 3, 2, 1]) =
       Some (emit (Transmit frame) (demo_host [10, 0, 2, 15] [6, 5, 4, 3, 2, 1])) \<and>
     drop 38 frame = [0, 1, 0, 2, 42]"
  using icmp_echo_reply [of "[8, 0, 0, 0, 0, 1, 0, 2, 42]" "[1, 2, 3, 4, 5, 6]" "demo_host [10, 0, 2, 15] [6, 5, 4, 3, 2, 1]" "0x0A000202"]
  by (auto simp: demo_host_def)

subsection \<open>Address resolution\<close>

lemma parse_ethernet_frame:
  assumes "length dst = 6" and "length src = 6"
  shows "parse_ethernet (dst @ src @ to_be16 ethertype @ payload) =
    Some (Some (\<lparr>eh_dst_mac = dst, eh_src_mac = src, eh_ethertype = ethertype\<rparr>, payload))"
  using parse_build_ethernet [OF assms, of ethertype payload] by (simp add: build_ethernet_eq [OF assms])

lemma length_arp_bytes: "length m1 = 6 \<Longrightarrow> length m2 = 6 \<Longrightarrow> length (arp_bytes opc m1 ip1 m2 ip2) = 28"
  by (simp add: arp_bytes_def to_be16_def to_be32_def)

definition arp_frame :: "mac \<Rightarrow> u16 \<Rightarrow> mac \<Rightarrow> u32 \<Rightarrow> mac \<Rightarrow> u32 \<Rightarrow> u8 list" where
  "arp_frame dst opc m1 ip1 m2 ip2 = dst @ m1 @ to_be16 ETHERTYPE_ARP @ arp_bytes opc m1 ip1 m2 ip2"

lemma send_arp_frame:
  assumes "length dst = 6" and "length m1 = 6" and "length m2 = 6"
  shows "send_frame (arp_frame dst opc m1 ip1 m2 ip2) s = (None, emit (Transmit (arp_frame dst opc m1 ip1 m2 ip2)) s)"
  using assms by (simp add: send_frame_def arp_frame_def length_arp_bytes to_be16_def)

lemma send_arp_request_frame:
  assumes "length (nt_mac s) = 6"
  shows "send_arp_request ip s = Some (emit (Transmit (arp_frame BROADCAST_MAC ARP_OP_REQUEST (nt_mac s) (local_ip (nt_dhcp s)) ZERO_MAC ip)) s)"
  using assms send_arp_frame [of BROADCAST_MAC "nt_mac s" ZERO_MAC ARP_OP_REQUEST]
  by (simp add: send_arp_request_def build_arp_request_def build_arp_eq build_ethernet_eq arp_frame_def)

lemma handle_arp_frame:
  assumes "length dst = 6" and "length m1 = 6" and "length m2 = 6" and "length (nt_mac s) = 6" and "ip1 \<noteq> 0"
  defines "s' \<equiv> s\<lparr>nt_arp := bt_insert ip1 \<lparr>ae_mac = m1, ae_timestamp = nt_ticks s\<rparr> (nt_arp s)\<rparr>"
  shows "handle_frame (arp_frame dst opc m1 ip1 m2 ip2) s =
    Some (if opc = ARP_OP_REQUEST \<and> ip2 = local_ip (nt_dhcp s)
          then emit (Transmit (arp_frame m1 ARP_OP_REPLY (nt_mac s) ip2 m1 ip1)) s' else s')"
proof -
  have p: "parse_ethernet (arp_frame dst opc m1 ip1 m2 ip2) = Some (Some (\<lparr>eh_dst_mac = dst, eh_src_mac = m1, eh_ethertype = ETHERTYPE_ARP\<rparr>,
      arp_bytes opc m1 ip1 m2 ip2))" unfolding arp_frame_def by (rule parse_ethernet_frame [OF assms(1,2)])
  then have "handle_frame (arp_frame dst opc m1 ip1 m2 ip2) s = handle_arp (arp_bytes opc m1 ip1 m2 ip2) s" by (simp add: handle_frame_def)
  then show ?thesis
    using assms(2-5) send_arp_frame [of m1 "nt_mac s" m1 ARP_OP_REPLY ip2 ip1 s']
    by (auto simp: handle_arp_def parse_build_arp Let_def arp_learn_def s'_def build_arp_reply_def build_arp_eq
        build_ethernet_eq arp_frame_def)
qed

text \<open>C13: Address resolution works end to end between two hosts of this stack: the request that the first sends makes the second
  learn the first's address and answer with one frame, and that frame makes the first learn the second's hardware address, which
  its lookups return until 6000 ticks have passed.\<close>

theorem arp_resolves:
  assumes "length (nt_mac a) = 6" and "length (nt_mac b) = 6" and "local_ip (nt_dhcp a) \<noteq> 0" and "local_ip (nt_dhcp b) \<noteq> 0"
  shows "\<exists>request reply a' b' a''.
    send_arp_request (local_ip (nt_dhcp b)) a = Some a' \<and> nt_out a' = nt_out a @ [Transmit request] \<and>
    handle_frame request b = Some b' \<and> nt_out b' = nt_out b @ [Transmit reply] \<and>
    bt_get (nt_arp b') (local_ip (nt_dhcp a)) = Some \<lparr>ae_mac = nt_mac a, ae_timestamp = nt_ticks b\<rparr> \<and>
    handle_frame reply a' = Some a'' \<and> nt_out a'' = nt_out a' \<and>
    (\<forall>now. fst (arp_lookup now (local_ip (nt_dhcp b)) (nt_arp a'')) =
       (if unat now < unat (nt_ticks a) + 6000 then Some (nt_mac b) else None))"
proof -
  let ?req = "arp_frame BROADCAST_MAC ARP_OP_REQUEST (nt_mac a) (local_ip (nt_dhcp a)) ZERO_MAC (local_ip (nt_dhcp b))"
  let ?rep = "arp_frame (nt_mac a) ARP_OP_REPLY (nt_mac b) (local_ip (nt_dhcp b)) (nt_mac a) (local_ip (nt_dhcp a))"
  let ?a' = "emit (Transmit ?req) a"
  have lk: "fst (arp_lookup now ip (bt_insert ip \<lparr>ae_mac = m, ae_timestamp = t\<rparr> tab)) = (if unat now < unat t + 6000 then Some m else None)"
    for now ip m t tab by (simp add: arp_lookup_def arp_fresh_iff)
  have "send_arp_request (local_ip (nt_dhcp b)) a = Some ?a'" by (rule send_arp_request_frame [OF assms(1)])
  moreover have "handle_frame ?req b = Some (emit (Transmit ?rep) (b\<lparr>nt_arp := bt_insert (local_ip (nt_dhcp a)) \<lparr>ae_mac = nt_mac a, ae_timestamp = nt_ticks b\<rparr> (nt_arp b)\<rparr>))"
    using assms by (subst handle_arp_frame) simp_all
  moreover have "handle_frame ?rep ?a' = Some (?a'\<lparr>nt_arp := bt_insert (local_ip (nt_dhcp b)) \<lparr>ae_mac = nt_mac b, ae_timestamp = nt_ticks a\<rparr> (nt_arp a)\<rparr>)"
    using assms by (subst handle_arp_frame) (simp_all add: emit_def)
  ultimately show ?thesis by (intro exI conjI allI) (assumption | simp add: emit_def lk)+
qed

theorem arp_resolves_witness:
  "\<exists>request reply a' b' a''.
    send_arp_request 0x0A000203 (demo_host [10, 0, 2, 2] [1, 1, 1, 1, 1, 1]) = Some a' \<and> nt_out a' = [Transmit request] \<and>
    handle_frame request (demo_host [10, 0, 2, 3] [2, 2, 2, 2, 2, 2]) = Some b' \<and> nt_out b' = [Transmit reply] \<and>
    handle_frame reply a' = Some a'' \<and> fst (arp_lookup 5999 0x0A000203 (nt_arp a'')) = Some [2, 2, 2, 2, 2, 2]"
proof -
  let ?a = "demo_host [10, 0, 2, 2] [1, 1, 1, 1, 1, 1]" and ?b = "demo_host [10, 0, 2, 3] [2, 2, 2, 2, 2, 2]"
  have ip: "local_ip (nt_dhcp ?a) = 0x0A000202" "local_ip (nt_dhcp ?b) = 0x0A000203" and m: "length (nt_mac ?a) = 6" "length (nt_mac ?b) = 6"
    by (simp_all add: demo_host_def local_ip_def from_be32_def)
  have nz: "(0x0A000202 :: u32) \<noteq> 0" "(0x0A000203 :: u32) \<noteq> 0" by simp_all
  obtain request reply a' b' a'' where
    w: "send_arp_request 0x0A000203 ?a = Some a'" "nt_out a' = nt_out ?a @ [Transmit request]" "handle_frame request ?b = Some b'"
      "nt_out b' = nt_out ?b @ [Transmit reply]" "handle_frame reply a' = Some a''"
      "\<And>now. fst (arp_lookup now 0x0A000203 (nt_arp a'')) = (if unat now < unat (nt_ticks ?a) + 6000 then Some (nt_mac ?b) else None)"
    using arp_resolves [OF m, unfolded ip, OF nz] by (elim exE conjE) (rule that, assumption+, erule spec)
  have "fst (arp_lookup 5999 0x0A000203 (nt_arp a'')) = Some [2, 2, 2, 2, 2, 2]" unfolding w(6) by (simp add: demo_host_def)
  with w(1-5) show ?thesis by (intro exI conjI) (assumption | simp add: demo_host_def)+
qed

subsection \<open>Dispatch\<close>

lemma parse_ipv4_bounds: "parse_ipv4 data = Some (Some h) \<Longrightarrow> ip_header_len h \<le> length data"
  by (auto simp: parse_ipv4_def Let_def split: if_splits bind_splits)

lemma handle_ipv4_incomplete:
  assumes "parse_ipv4 packet = Some (Some h)" and "try_reassemble packet (nt_ticks s) (nt_frags s) = Some (Inr None, frags)"
  shows "handle_ipv4 m packet s =
    dispatch_ipv4_payload m (ip_protocol h) (ip_src h) (ip_dst h) (drop (ip_header_len h) packet) (s\<lparr>nt_frags := frags\<rparr>)"
  using assms parse_ipv4_bounds [OF assms(1)] by (simp add: handle_ipv4_def slice_p_def)



lemma handle_icmp_total:
  assumes "length payload < 131072" and "length m = 6" and "length (nt_mac s) = 6"
  shows "\<exists>s'. handle_icmp m src payload s = Some s'"
proof (cases "8 \<le> length payload \<and> hd payload = 8")
  case True
  then show ?thesis using handle_icmp_reply [OF _ assms(1) _ assms(2,3), of src] by metis
next
  case False
  then show ?thesis
    by (cases payload) (auto simp: handle_icmp_def parse_icmp_def at_p_def read_u16_be_def)
qed

lemma dispatch_total:
  assumes "length data < 131072" and "length m = 6" and "length (nt_mac s) = 6"
  shows "\<exists>s'. dispatch_ipv4_payload m proto src dst data s = Some s'"
  using handle_icmp_total [OF assms] by (simp add: dispatch_ipv4_payload_def)

lemma handle_arp_total:
  assumes "length (nt_mac s) = 6"
  shows "\<exists>s'. handle_arp payload s = Some s'"
proof (cases "parse_arp payload")
  case None
  then show ?thesis using parsers_total(2) [of payload] by simp
next
  case (Some r)
  then have "r = Some arp \<Longrightarrow> length (ah_sender_mac arp) = 6" for arp
    by (auto simp: parse_arp_def slice_p_def split: if_splits bind_splits)
  then show ?thesis using Some assms
    by (cases r) (auto simp: handle_arp_def build_arp_reply_def build_arp_eq build_ethernet_eq Let_def)
qed

lemma try_reassemble_whole:
  assumes "\<forall>ident mf off. parse_fragment_info packet \<noteq> Some (Some (ident, True, mf, off))" and "20 \<le> length packet"
  shows "try_reassemble packet now f = Some (Inr None, f)"
proof -
  obtain ident b mf off where i: "parse_fragment_info packet = Some (Some (ident, b, mf, off))"
    using assms(2) by (simp add: parse_fragment_info_def read_u16_be_def at_p_def Let_def)
  then have "\<not> b" using assms(1) by (cases b) auto
  then show ?thesis using assms(2) i by (simp add: try_reassemble_def)
qed

lemma handle_ipv4_total:
  assumes "length packet < 131072" and "length m = 6" and "length (nt_mac s) = 6"
    and "\<forall>ident mf off. parse_fragment_info packet \<noteq> Some (Some (ident, True, mf, off))"
  shows "\<exists>s'. handle_ipv4 m packet s = Some s'"
proof -
  obtain r where r: "parse_ipv4 packet = Some r" using parsers_total(3) by blast
  show ?thesis
  proof (cases r)
    case None
    then show ?thesis using r by (simp add: handle_ipv4_def)
  next
    case (Some h)
    then have "20 \<le> length packet" using r by (auto simp: parse_ipv4_def split: if_splits)
    from handle_ipv4_incomplete [OF r [unfolded Some] try_reassemble_whole [OF assms(4) this], of m]
    show ?thesis using dispatch_total [of "drop (ip_header_len h) packet" m] assms by simp
  qed
qed



end
