(* ===== verification/Spec2Isabelle.thy ===== *)
theory Spec2Isabelle
  imports Handle_Table Channel Pipe Frame_Alloc Vma Shm File_Lock Block_Cache Signal Sched_Props Syscall_File_Props Syscall_Ipc_Props Net_Stack
begin

text \<open>
  A verification library for the OpenOS kernel (sources under \<open>src/kernel/src\<close>).

  \<^bold>\<open>The program.\<close> OpenOS is a capability microkernel in Rust. A task (\<open>task/task.rs\<close>) owns a table of
  handles, a list of memory regions, descriptors, an environment and a signal state; the scheduler
  (\<open>task/scheduler.rs\<close>) keeps the tasks in per-CPU ready queues, a blocked queue and a migration queue.
  Tasks communicate through channels and pipes (\<open>ipc/\<close>) that their handles name, and through shared
  memory segments (\<open>ipc/shm.rs\<close>) whose frames come from the bitmap allocator (\<open>frame_alloc.rs\<close>). Paths are
  resolved by the mount table (\<open>fs/vfs.rs\<close>) to a file system such as the RAM file system (\<open>fs/ramfs.rs\<close>); files
  have advisory locks (\<open>fs/file_lock.rs\<close>), and disks are read through the sector cache (\<open>fs/block_cache.rs\<close>) over
  the registered block devices (\<open>drivers/block.rs\<close>). The network stack (\<open>net/\<close>) answers ARP and ICMP, routes and
  reassembles. The system-call layer (\<open>syscall/mod.rs\<close>) calls all of them on behalf of the current task.

  \<^bold>\<open>Conventions\<close> (\<open>Kernel_Prelude\<close>, \<open>BTree_Map\<close>, \<open>Sys_Error\<close>). Machine integers are words of their width; a
  \<open>usize\<close> that only counts elements is a \<open>nat\<close>. The default build checks overflow, so a definition
  that can overflow, index out of range or fail an assertion returns an \<open>option\<close> whose \<open>None\<close> is the
  panic. A \<open>Result\<close> is a sum with the error on the left; error codes are those of \<open>Error\<close> in
  \<open>syscall/mod.rs\<close>. A \<open>BTreeMap\<close> is a list of pairs sorted by key. The identity of an \<open>Arc\<close> is a
  natural number. A lock that is held for a whole call makes that call one atomic step; what may
  interleave are the calls.

  \<^bold>\<open>Theories\<close>, each with the state of its source file as a record and one definition per operation:

  \<^item> \<open>Handle_Table\<close> (\<open>handle.rs\<close>): rights, packed handles, the per-task table. A closed handle never
    resolves again until its 32-bit generation wraps; duplication can amplify rights.
  \<^item> \<open>Channel\<close>, \<open>Pipe\<close> (\<open>ipc/mod.rs\<close>, \<open>ipc/pipe.rs\<close>): the rendezvous protocol with its invariant over every run; the
    pipe refines a bounded byte stream.
  \<^item> \<open>Frame_Alloc\<close> (\<open>frame_alloc.rs\<close>): the bitmap allocator; no frame has two owners.
  \<^item> \<open>Vma\<close> (\<open>memory/vma.rs\<close>): regions stay disjoint; the page-wise access check equals the byte-wise
    specification; dirty bits are exact.
  \<^item> \<open>Shm\<close> (\<open>ipc/shm.rs\<close>, \<open>find_free_range\<close> of \<open>memory/pagetable.rs\<close>): reference counts equal attachments and no
    frame is freed twice, as a client of the interface \<open>frame_allocator\<close>.
  \<^item> \<open>File_Lock\<close> (\<open>fs/file_lock.rs\<close>): \<open>flock\<close> refines a readers-writer lock; mutual exclusion over an
    inductive step relation of calls, spinning tasks and exits; the upgrade deadlock.
  \<^item> \<open>Block_Cache\<close> (\<open>fs/block_cache.rs\<close>, \<open>drivers/block.rs\<close>): the cache refines a map from sectors to contents
    for any devices that satisfy \<open>device_laws\<close>.
  \<^item> \<open>Signal\<close>, \<open>Task\<close>, \<open>Scheduler\<close>, \<open>Sched_Lookup\<close>, \<open>Sched_All\<close>, \<open>Sched_Props\<close> (\<open>task/\<close>, \<open>net/socket.rs\<close>): signal masks as
    sets, the task control block, every scheduler operation; no run of scheduler calls loses or duplicates a task,
    and what each task keeps through any run.
  \<^item> \<open>Vfs\<close>, \<open>Ramfs\<close>, \<open>Ramfs_Inv\<close>, \<open>Ramfs_Props\<close> (\<open>fs/vfs.rs\<close>, \<open>fs/ramfs.rs\<close>): the mount table, which finds the longest
    prefix; the 32 entries of the RAM file system, its invariant over every run, reading back what was written, and
    exactly which calls panic.
  \<^item> \<open>User_Mem\<close>, \<open>Syscall_Proc\<close>, \<open>Syscall_Signal\<close>, \<open>Syscall_Fd\<close>, \<open>Syscall_File\<close> (\<open>syscall/mod.rs\<close>): the copies between user
    space and kernel, and the calls on tasks, signals, descriptors, files and directories.
  \<^item> \<open>Syscall_Inv\<close>, \<open>Syscall_Safe\<close>, \<open>Syscall_Props\<close>, \<open>Syscall_File_Props\<close>: a calculus of safe calls, whose rules follow the
    structure of the definitions; no run of calls breaks the kernel invariant or touches memory above user space,
    with the exceptions stated there; what a program reads from a file is what it wrote.
  \<^item> \<open>Syscall_Ipc\<close>, \<open>Syscall_Ipc_Props\<close>: the calls on channels, handles, events, interrupts and endpoints, and sleeping;
    a message reaches the buffer of the receiver unchanged, and a call leaves a blocked server blocked.
  \<^item> \<open>Net_Packet\<close>, \<open>Net_Route\<close>, \<open>Net_Fragment\<close>, \<open>Net_Fragment_Props\<close>, \<open>Net_Stack\<close> (\<open>net/mod.rs\<close>, \<open>net/fragment.rs\<close>): headers and
    checksums, the ARP cache and routes, fragmentation, and the handling of a frame; fragments in any order
    reassemble to the payload, route lookup is longest prefix match, two hosts resolve each other, and the one
    kind of frame that can panic the kernel.

  \<^bold>\<open>Interfaces.\<close> The locale \<open>component\<close> (a step function with an invariant) is interpreted by the handle table,
  the channel, the region list, the RAM file system and the system calls; \<open>table\<close> by the sorted association list;
  \<open>byte_stream\<close> by the pipe; \<open>frame_allocator\<close> by the bitmap allocator, and the shared-memory theory proves its
  frame accounting inside it; \<open>task_property\<close>, a predicate on tasks that the scheduler keeps, by the
  well-formedness of a task; \<open>file_store\<close>, what the file calls need of a file system, by the RAM file system.

  \<^bold>\<open>Bounds and fuel.\<close> Loops over collections are structural. \<open>validate_loop\<close> and \<open>free_range_loop\<close> are total with
  termination proofs, because a page address that grows stays below the end of user space or
  overflows, which is the panic. A task that spins for a file lock is a step relation, so no fuel is needed for it.
  \<open>drain\<close> has fuel 31, the number of valid signals. The calls that wait (for a child, a message, a reply, an
  event, an interrupt or a tick) are followed for a number of polling rounds, and an argument says what the rest of
  the system does between two rounds; the answer \<open>None\<close> is a call that still waits, and the theorems about waiting
  hold for every number of rounds. Where identifiers come from a counter, a theorem that needs fresh ones asks that
  the counter does not wrap during the run.

  \<^bold>\<open>Not modelled.\<close> Assembly, boot and interrupt entry, device registers and drivers (\<open>arch/\<close>, \<open>drivers/\<close>
  other than the registries): they act on hardware state that the sources do not define. The four levels
  of the hardware page tables are a map from pages to frames. Weak memory effects of the atomics are
  not represented. TCP, UDP, DHCP, DNS and IPv6, of which the frame dispatcher records the calls; the ext2, process and
  device file systems; the ELF, ramdisk and module loaders; the kernel heap and DMA memory; the calls on memory
  mappings, sockets, timers and consoles; and the programs and libraries of user space.
\<close>

end
